(* ===== verification/Prelude.thy ===== *)
theory Prelude
  imports Main "HOL-Library.Word"
begin

text \<open>
  Shared vocabulary of the development: the machine-word types, the outcome type and the
  state monad in which every kernel function is written, loop combinators, a weakest
  precondition calculus for total correctness (the code returns, without panic), and little
  endian access to byte arrays.
\<close>

unbundle bit_operations_syntax

named_theorems kmon "unfolding of the kernel monad's primitives"
named_theorems wp "weakest preconditions of the kernel monad's primitives"
named_theorems bytes "little endian loads and stores"

section \<open>Machine types\<close>

type_synonym byte = "8 word"
type_synonym u16 = "16 word"
type_synonym u32 = "32 word"
type_synonym u64 = "64 word"

section \<open>Searching lists\<close>

lemma find_mem: "find P xs = Some i \<Longrightarrow> i \<in> set xs \<and> P i"
  by (auto simp: find_Some_iff)

lemma find_unique:
  assumes "i \<in> set xs" "P i" "\<And>j. j \<in> set xs \<Longrightarrow> P j \<Longrightarrow> j = i"
  shows "find P xs = Some i"
proof (cases "find P xs")
  case None
  then show ?thesis using assms(1,2) by (metis find_None_iff)
next
  case (Some j)
  then have "j \<in> set xs" "P j" by (auto dest: find_mem)
  with Some assms(3) show ?thesis by simp
qed

section \<open>The kernel monad\<close>

text \<open>
  Running a piece of kernel code on one hart ends in one of four ways:
  \<^item> \<open>Ok a s\<close>: it returned \<open>a\<close> and left the state \<open>s\<close>;
  \<^item> \<open>Panic msg\<close>: it called \<open>panic(msg)\<close>, which never returns;
  \<^item> \<open>Swtch s\<close>: the calling kernel thread gave up the processor in \<open>sched()\<close> and
    left the state \<open>s\<close>; what the code does when the thread is resumed is a definition of its own;
  \<^item> \<open>Hang why\<close>: it spins on a condition that only another hart or a device can change, or
    a loop did not end within its bound.
\<close>

datatype ('s, 'a) outcome = Ok 'a 's | Panic string | Swtch 's | Hang string

type_synonym ('s, 'a) kmon = "'s \<Rightarrow> ('s, 'a) outcome"

definition ret :: "'a \<Rightarrow> ('s, 'a) kmon" where
  "ret a = (\<lambda>s. Ok a s)"

definition bnd :: "('s, 'a) kmon \<Rightarrow> ('a \<Rightarrow> ('s, 'b) kmon) \<Rightarrow> ('s, 'b) kmon" where
  "bnd m f = (\<lambda>s. case m s of Ok a t \<Rightarrow> f a t | Panic e \<Rightarrow> Panic e | Swtch t \<Rightarrow> Swtch t | Hang e \<Rightarrow> Hang e)"

definition thn :: "('s, 'a) kmon \<Rightarrow> ('s, 'b) kmon \<Rightarrow> ('s, 'b) kmon" where
  "thn m n = bnd m (\<lambda>_. n)"

definition gets :: "('s \<Rightarrow> 'a) \<Rightarrow> ('s, 'a) kmon" where
  "gets f = (\<lambda>s. Ok (f s) s)"

definition modify :: "('s \<Rightarrow> 's) \<Rightarrow> ('s, unit) kmon" where
  "modify f = (\<lambda>s. Ok () (f s))"

definition panic :: "string \<Rightarrow> ('s, 'a) kmon" where
  "panic msg = (\<lambda>s. Panic msg)"

definition hang :: "string \<Rightarrow> ('s, 'a) kmon" where
  "hang why = (\<lambda>s. Hang why)"

definition swtch :: "('s, 'a) kmon" where
  "swtch = (\<lambda>s. Swtch s)"

definition deref :: "'a option \<Rightarrow> ('s, 'a) kmon" where
  "deref p = (case p of None \<Rightarrow> panic ''kerneltrap'' | Some x \<Rightarrow> ret x)"

definition whenM :: "bool \<Rightarrow> ('s, unit) kmon \<Rightarrow> ('s, unit) kmon" where
  "whenM b m = (if b then m else ret ())"

lemma ret_apply [kmon]: "ret a s = Ok a s"
  by (simp add: ret_def)

lemma bnd_apply [kmon]:
  "bnd m f s = (case m s of Ok a t \<Rightarrow> f a t | Panic e \<Rightarrow> Panic e | Swtch t \<Rightarrow> Swtch t | Hang e \<Rightarrow> Hang e)"
  by (simp add: bnd_def)

lemma thn_apply [kmon]:
  "thn m n s = (case m s of Ok a t \<Rightarrow> n t | Panic e \<Rightarrow> Panic e | Swtch t \<Rightarrow> Swtch t | Hang e \<Rightarrow> Hang e)"
  by (simp add: thn_def bnd_def)

lemma gets_apply [kmon]: "gets f s = Ok (f s) s"
  by (simp add: gets_def)

lemma modify_apply [kmon]: "modify f s = Ok () (f s)"
  by (simp add: modify_def)

lemma panic_apply [kmon]: "panic e s = Panic e"
  by (simp add: panic_def)

lemma hang_apply [kmon]: "hang e s = Hang e"
  by (simp add: hang_def)

lemma swtch_apply [kmon]: "swtch s = Swtch s"
  by (simp add: swtch_def)

lemma deref_apply [kmon]: "deref (Some x) s = Ok x s" "deref None s = Panic ''kerneltrap''"
  by (simp_all add: deref_def ret_def panic_def)

lemma whenM_apply [kmon]: "whenM b m s = (if b then m s else Ok () s)"
  by (simp add: whenM_def ret_def)

lemma bnd_assoc: "bnd (bnd m f) g = bnd m (\<lambda>x. bnd (f x) g)"
  by (rule ext) (simp add: kmon split: outcome.split)

lemma thn_assoc: "thn (thn m n) k = thn m (thn n k)"
  by (rule ext) (simp add: kmon split: outcome.split)

lemma thn_Ok: "m s = Ok a t \<Longrightarrow> thn m n s = n t"
  by (simp add: kmon)

lemma bnd_Ok: "m s = Ok a t \<Longrightarrow> bnd m f s = f a t"
  by (simp add: kmon)

lemma bnd_eq_Ok_iff:
  "bnd m f s = Ok b u \<longleftrightarrow> (\<exists>a t. m s = Ok a t \<and> f a t = Ok b u)"
  by (simp add: kmon split: outcome.split)

lemma thn_eq_Ok_iff:
  "thn m n s = Ok b u \<longleftrightarrow> (\<exists>a t. m s = Ok a t \<and> n t = Ok b u)"
  by (simp add: kmon split: outcome.split)

text \<open>
  \<open>deref\<close> uses a pointer: a null pointer faults, and a fault in the kernel ends in \<open>kerneltrap\<close>'s panic.
  \<open>onswtch m k\<close> runs \<open>m\<close> and, when it gives up the processor, goes on with \<open>k\<close> from the state it left.
\<close>

definition onswtch :: "('s, 'a) kmon \<Rightarrow> ('s, 'a) kmon \<Rightarrow> ('s, 'a) kmon" where
  "onswtch m k = (\<lambda>s. case m s of Ok a t \<Rightarrow> Ok a t | Panic e \<Rightarrow> Panic e | Swtch t \<Rightarrow> k t | Hang e \<Rightarrow> Hang e)"

lemma onswtch_apply [kmon]:
  "onswtch m k s = (case m s of Ok a t \<Rightarrow> Ok a t | Panic e \<Rightarrow> Panic e | Swtch t \<Rightarrow> k t | Hang e \<Rightarrow> Hang e)"
  by (simp add: onswtch_def)

section \<open>Loops\<close>

text \<open>
  \<open>forl is b\<close> is a \<open>for\<close> loop over the indices \<open>is\<close> whose body may leave the
  loop early with a value (\<open>return\<close>, \<open>goto\<close> or \<open>break\<close>); \<open>foreach\<close> never leaves early.
  \<open>loopf n b x\<close> is a loop whose number of rounds is not fixed in advance: \<open>b x\<close> either
  gives the next loop variables (\<open>Inl\<close>) or the loop's result (\<open>Inr\<close>), within \<open>n\<close> rounds.
\<close>

fun forl :: "'i list \<Rightarrow> ('i \<Rightarrow> ('s, 'r option) kmon) \<Rightarrow> ('s, 'r option) kmon" where
  "forl [] b = ret None"
| "forl (i # is) b = bnd (b i) (\<lambda>r. case r of None \<Rightarrow> forl is b | Some x \<Rightarrow> ret (Some x))"

fun foreach :: "'i list \<Rightarrow> ('i \<Rightarrow> ('s, unit) kmon) \<Rightarrow> ('s, unit) kmon" where
  "foreach [] b = ret ()"
| "foreach (i # is) b = thn (b i) (foreach is b)"

fun loopf :: "nat \<Rightarrow> ('x \<Rightarrow> ('s, 'x + 'r) kmon) \<Rightarrow> 'x \<Rightarrow> ('s, 'r) kmon" where
  "loopf 0 b x = hang ''loop bound''"
| "loopf (Suc n) b x = bnd (b x) (\<lambda>r. case r of Inl y \<Rightarrow> loopf n b y | Inr z \<Rightarrow> ret z)"

lemma foreach_step: "b i s = Ok () t \<Longrightarrow> foreach (i # is) b s = foreach is b t"
  by (simp add: thn_apply)

lemma forl_next: "b i s = Ok None t \<Longrightarrow> forl (i # is) b s = forl is b t"
  by (simp add: bnd_apply)

lemma forl_exit: "b i s = Ok (Some x) t \<Longrightarrow> forl (i # is) b s = Ok (Some x) t"
  by (simp add: bnd_apply ret_apply)

lemma loopf_next: "b x s = Ok (Inl y) t \<Longrightarrow> loopf (Suc n) b x s = loopf n b y t"
  by (simp add: bnd_apply)

lemma loopf_exit: "b x s = Ok (Inr r) t \<Longrightarrow> loopf (Suc n) b x s = Ok r t"
  by (simp add: bnd_apply ret_apply)

lemma foreach_append: "foreach (xs @ ys) b s = thn (foreach xs b) (foreach ys b) s"
  by (induction xs arbitrary: s) (auto simp: kmon split: outcome.split)

lemma foreach_modify: "foreach is (\<lambda>i. modify (f i)) s = Ok () (fold f is s)"
  by (induction "is" arbitrary: s) (simp_all add: kmon)

lemma foreach_Ok:
  assumes "\<And>i s. i \<in> set is \<Longrightarrow> P s \<Longrightarrow> b i s = Ok () (f i s) \<and> P (f i s)" and "P s"
  shows "foreach is b s = Ok () (fold f is s) \<and> P (fold f is s)"
  using assms
proof (induction "is" arbitrary: s)
  case Nil
  then show ?case by (simp add: kmon)
next
  case (Cons i "is")
  have "b i s = Ok () (f i s)" and "P (f i s)"
    using Cons.prems(1)[of i s] Cons.prems(2) by simp_all
  moreover have "foreach is b (f i s) = Ok () (fold f is (f i s)) \<and> P (fold f is (f i s))"
    by (rule Cons.IH) (use Cons.prems \<open>P (f i s)\<close> in auto)
  ultimately show ?case by (simp add: kmon)
qed

section \<open>Total correctness\<close>

text \<open>\<open>wp m Q s\<close>: run from \<open>s\<close>, the code \<open>m\<close> returns, and its result and final state satisfy \<open>Q\<close>.\<close>

definition wp :: "('s, 'a) kmon \<Rightarrow> ('a \<Rightarrow> 's \<Rightarrow> bool) \<Rightarrow> 's \<Rightarrow> bool" where
  "wp m Q s = (case m s of Ok a t \<Rightarrow> Q a t | _ \<Rightarrow> False)"

lemma wp_iff: "wp m Q s \<longleftrightarrow> (\<exists>a t. m s = Ok a t \<and> Q a t)"
  by (simp add: wp_def kmon split: outcome.split)

lemma wp_ret [wp]: "wp (ret a) Q s \<longleftrightarrow> Q a s"
  by (simp add: wp_def kmon)

lemma wp_bnd [wp]: "wp (bnd m f) Q s \<longleftrightarrow> wp m (\<lambda>a. wp (f a) Q) s"
  by (simp add: wp_def kmon split: outcome.split)

lemma wp_thn [wp]: "wp (thn m n) Q s \<longleftrightarrow> wp m (\<lambda>_. wp n Q) s"
  by (simp add: wp_def kmon split: outcome.split)

lemma wp_gets [wp]: "wp (gets f) Q s \<longleftrightarrow> Q (f s) s"
  by (simp add: wp_def kmon)

lemma wp_modify [wp]: "wp (modify f) Q s \<longleftrightarrow> Q () (f s)"
  by (simp add: wp_def kmon)

lemma wp_panic [wp]: "\<not> wp (panic e) Q s"
  by (simp add: wp_def kmon)

lemma wp_hang [wp]: "\<not> wp (hang e) Q s"
  by (simp add: wp_def kmon)

lemma wp_whenM [wp]: "wp (whenM b m) Q s \<longleftrightarrow> (if b then wp m Q s else Q () s)"
  by (simp add: wp_def kmon)

lemma wp_if [wp]: "wp (if b then m else n) Q s \<longleftrightarrow> (if b then wp m Q s else wp n Q s)"
  by simp

lemma wp_mono: "wp m Q s \<Longrightarrow> (\<And>a t. Q a t \<Longrightarrow> R a t) \<Longrightarrow> wp m R s"
  by (auto simp: wp_iff)

lemma wp_foreach:
  assumes "I 0 s"
    and "\<And>k s. k < length is \<Longrightarrow> I k s \<Longrightarrow> wp (b (is ! k)) (\<lambda>_. I (Suc k)) s"
  shows "wp (foreach is b) (\<lambda>_. I (length is)) s"
  using assms
proof (induction "is" arbitrary: s I)
  case Nil
  then show ?case by (simp add: wp)
next
  case (Cons i "is")
  have "wp (b i) (\<lambda>_. I (Suc 0)) s"
    using Cons.prems(2)[of 0 s] Cons.prems(1) by simp
  moreover have "wp (foreach is b) (\<lambda>_. I (Suc (length is))) t" if "I (Suc 0) t" for t
    using Cons.IH[of "\<lambda>k. I (Suc k)" t] Cons.prems(2)[of "Suc _"] that by simp
  ultimately show ?case unfolding foreach.simps wp_thn list.size by (auto intro: wp_mono)
qed

lemma foreach_inv:
  assumes "I 0 s" and "\<And>k s. k < length is \<Longrightarrow> I k s \<Longrightarrow> \<exists>t. b (is ! k) s = Ok () t \<and> I (Suc k) t"
  shows "\<exists>t. foreach is b s = Ok () t \<and> I (length is) t"
proof -
  have "wp (foreach is b) (\<lambda>_. I (length is)) s"
    using assms(1) by (rule wp_foreach) (use assms(2) in \<open>auto simp: wp_iff\<close>)
  then show ?thesis by (auto simp: wp_iff)
qed

section \<open>Little endian fields of byte arrays\<close>

text \<open>
  A byte array is a function from its index; \<open>le16\<close>, \<open>le32\<close> and \<open>le64\<close> read a field,
  the \<open>put\<close> functions write one. The index type is \<^typ>\<open>nat\<close> for a buffer and
  \<^typ>\<open>u64\<close> for physical memory.
\<close>

definition le16 :: "('i::semiring_1 \<Rightarrow> byte) \<Rightarrow> 'i \<Rightarrow> u16" where
  "le16 m a = ucast (m a) OR push_bit 8 (ucast (m (a + 1)))"

definition le32 :: "('i::semiring_1 \<Rightarrow> byte) \<Rightarrow> 'i \<Rightarrow> u32" where
  "le32 m a = ucast (m a) OR push_bit 8 (ucast (m (a + 1)))
     OR push_bit 16 (ucast (m (a + 2))) OR push_bit 24 (ucast (m (a + 3)))"

definition le64 :: "('i::semiring_1 \<Rightarrow> byte) \<Rightarrow> 'i \<Rightarrow> u64" where
  "le64 m a = ucast (le32 m a) OR push_bit 32 (ucast (le32 m (a + 4)))"

definition put16 :: "('i::semiring_1 \<Rightarrow> byte) \<Rightarrow> 'i \<Rightarrow> u16 \<Rightarrow> ('i \<Rightarrow> byte)" where
  "put16 m a v = m(a := ucast v, a + 1 := ucast (drop_bit 8 v))"

definition put32 :: "('i::semiring_1 \<Rightarrow> byte) \<Rightarrow> 'i \<Rightarrow> u32 \<Rightarrow> ('i \<Rightarrow> byte)" where
  "put32 m a v = m(a := ucast v, a + 1 := ucast (drop_bit 8 v),
     a + 2 := ucast (drop_bit 16 v), a + 3 := ucast (drop_bit 24 v))"

definition put64 :: "('i::semiring_1 \<Rightarrow> byte) \<Rightarrow> 'i \<Rightarrow> u64 \<Rightarrow> ('i \<Rightarrow> byte)" where
  "put64 m a v = put32 (put32 m a (ucast v)) (a + 4) (ucast (drop_bit 32 v))"

lemma le16_put16_same_nat [simp, bytes]: "le16 (put16 m (a::nat) v) a = v"
  by (rule bit_word_eqI)
    (auto simp: le16_def put16_def bit_or_iff bit_push_bit_iff bit_ucast_iff bit_drop_bit_eq)

lemma bytes_of_u32:
  "(ucast (ucast v :: byte) :: u32) OR push_bit 8 (ucast (ucast (drop_bit 8 v) :: byte))
     OR push_bit 16 (ucast (ucast (drop_bit 16 v) :: byte))
     OR push_bit 24 (ucast (ucast (drop_bit 24 v) :: byte)) = v" (is "?l = v")
proof (rule bit_word_eqI)
  fix n assume n: "n < LENGTH(32)"
  have "bit ?l n \<longleftrightarrow> bit v n \<and> (n < 8 \<or> 8 \<le> n \<and> n - 8 < 32 \<and> n - 8 < 8
     \<or> 16 \<le> n \<and> n - 16 < 32 \<and> n - 16 < 8 \<or> 24 \<le> n \<and> n - 24 < 32 \<and> n - 24 < 8)"
    using n by (cases "bit v n") (simp_all add: bit_simps cong: conj_cong)
  moreover have "n < 8 \<or> 8 \<le> n \<and> n - 8 < 32 \<and> n - 8 < 8
     \<or> 16 \<le> n \<and> n - 16 < 32 \<and> n - 16 < 8 \<or> 24 \<le> n \<and> n - 24 < 32 \<and> n - 24 < 8"
    using n by simp arith
  ultimately show "bit ?l n = bit v n" by blast
qed

lemma le32_put32_same_nat [simp, bytes]: "le32 (put32 m (a::nat) v) a = v"
  by (simp add: le32_def put32_def bytes_of_u32)

lemma le16_put16_other_nat:
  "a + 2 \<le> b \<or> b + 2 \<le> a \<Longrightarrow> le16 (put16 m (b::nat) v) a = le16 m a"
  by (auto simp: le16_def put16_def)

lemma le32_put32_other_nat:
  "a + 4 \<le> b \<or> b + 4 \<le> a \<Longrightarrow> le32 (put32 m (b::nat) v) a = le32 m a"
  by (auto simp: le32_def put32_def)

lemma le32_put16_other_nat:
  "a + 4 \<le> b \<or> b + 2 \<le> a \<Longrightarrow> le32 (put16 m (b::nat) v) a = le32 m a"
  by (auto simp: le32_def put16_def)

lemma le16_put32_other_nat:
  "a + 2 \<le> b \<or> b + 4 \<le> a \<Longrightarrow> le16 (put32 m (b::nat) v) a = le16 m a"
  by (auto simp: le16_def put32_def)

text \<open>
  In memory the eight bytes of a field are \<open>a + 0\<close> to \<open>a + 7\<close>, modulo \<open>2 ^ 64\<close>.
\<close>

lemma le32_put32_same_mem [simp, bytes]: "le32 (put32 m (a::u64) v) a = v"
  by (simp add: le32_def put32_def bytes_of_u32)

lemma le32_put32_hi [simp, bytes]: "le32 (put32 m (a + 4 :: u64) v) a = le32 m a"
  by (simp add: le32_def put32_def)

lemma u64_halves: "(ucast (ucast v :: u32) :: u64) OR push_bit 32 (ucast (ucast (drop_bit 32 v) :: u32)) = v"
  by (rule bit_word_eqI) (auto simp: bit_simps)

lemma le64_put64_same [simp, bytes]: "le64 (put64 m (a::u64) v) a = v"
  by (simp add: le64_def put64_def u64_halves)

lemma le64_cong:
  assumes "\<And>i. i < 8 \<Longrightarrow> m (a + of_nat i) = m' (a + of_nat i :: u64)"
  shows "le64 m a = le64 m' a"
  using assms[of 0] assms[of 1] assms[of 2] assms[of 3] assms[of 4] assms[of 5] assms[of 6] assms[of 7]
  by (simp add: le64_def le32_def add_ac)

lemma put64_other: "(\<And>i. i < 8 \<Longrightarrow> b \<noteq> a + of_nat i) \<Longrightarrow> put64 m (a::u64) v b = m b"
proof -
  assume h: "\<And>i. i < 8 \<Longrightarrow> b \<noteq> a + of_nat i"
  show ?thesis
    using h[of 0] h[of 1] h[of 2] h[of 3] h[of 4] h[of 5] h[of 6] h[of 7]
    by (simp add: put64_def put32_def add_ac)
qed

end
