(* ===== verification/Kstate.thy ===== *)
theory Kstate
  imports Prelude
begin

text \<open>
  The kernel's data: the constants and structures of the header files under
  \<^verbatim>\<open>src/kernel\<close> and one record, \<open>kstate\<close>, with the global variables of its C files and the
  machine registers they use. Pointers to elements of a global array are indices into it,
  a null pointer is \<open>None\<close> (or 0 where the code keeps it as an integer), and a fixed-size
  array is a function of its index. Spin locks are named by the object they are embedded in
  (\<open>lockid\<close>), sleep locks by \<open>slid\<close>, and sleep channels (addresses of kernel objects)
  by \<open>chan\<close>.
\<close>

section \<open>param.h, fs.h and the limits of other headers\<close>

definition NPROC :: nat where "NPROC = 64"
definition NCPU :: nat where "NCPU = 8"
definition NOFILE :: nat where "NOFILE = 16"
definition NFILE :: nat where "NFILE = 100"
definition NINODE :: nat where "NINODE = 50"
definition NDEV :: nat where "NDEV = 10"
definition ROOTDEV :: nat where "ROOTDEV = 1"
definition MAXARG :: nat where "MAXARG = 32"
definition MAXOPBLOCKS :: nat where "MAXOPBLOCKS = 10"
definition LOGSIZE :: nat where "LOGSIZE = MAXOPBLOCKS * 3"
definition NBUF :: nat where "NBUF = MAXOPBLOCKS * 3"
definition FSSIZE :: nat where "FSSIZE = 1000"
definition MAXPATH :: nat where "MAXPATH = 128"

definition ROOTINO :: nat where "ROOTINO = 1"
definition BSIZE :: nat where "BSIZE = 1024"
definition FSMAGIC :: u32 where "FSMAGIC = 0x10203040"
definition NDIRECT :: nat where "NDIRECT = 12"
definition NINDIRECT :: nat where "NINDIRECT = BSIZE div 4"
definition MAXFILE :: nat where "MAXFILE = NDIRECT + NINDIRECT"
definition IPB :: nat where "IPB = BSIZE div 64"
definition BPB :: nat where "BPB = BSIZE * 8"
definition DIRSIZ :: nat where "DIRSIZ = 14"
definition O_RDONLY :: u32 where "O_RDONLY = 0x000"
definition O_WRONLY :: u32 where "O_WRONLY = 0x001"
definition O_RDWR :: u32 where "O_RDWR = 0x002"
definition O_CREATE :: u32 where "O_CREATE = 0x200"
definition O_TRUNC :: u32 where "O_TRUNC = 0x400"
definition PIPESIZE :: nat where "PIPESIZE = 512"
definition NUM :: nat where "NUM = 8"

lemmas param_defs =
  NPROC_def NCPU_def NOFILE_def NFILE_def NINODE_def NDEV_def ROOTDEV_def MAXARG_def
  MAXOPBLOCKS_def LOGSIZE_def NBUF_def FSSIZE_def MAXPATH_def

lemmas fs_param_defs =
  ROOTINO_def BSIZE_def FSMAGIC_def NDIRECT_def NINDIRECT_def MAXFILE_def IPB_def BPB_def DIRSIZ_def

section \<open>Locks and channels\<close>

datatype slid = BufSL nat | InodeSL nat

datatype lockid = KmemLock | PidLock | WaitLock | ProcLock nat | BcacheLock | SleepLk slid
  | ItableLock | FtableLock | LogLock | PipeLock u64 | ConsLock | UartLock | PrLock | TicksLock | VdiskLock

datatype chan = NullChan | ProcChan nat | LogChan | SleepChan slid | PipeNread u64 | PipeNwrite u64
  | TicksChan | ConsRChan | UartRChan | DiskFreeChan | BufChan nat

record spinlock =
  locked :: bool
  lkname :: string
  lkcpu :: "nat option"

record sleeplock =
  sl_locked :: bool
  sl_name :: string
  sl_pid :: int

section \<open>proc.h\<close>

record cpu =
  c_proc :: "nat option"
  noff :: int
  intena :: bool

record kcontext =
  ctx_ra :: u64
  ctx_sp :: u64
  ctx_s :: "nat \<Rightarrow> u64"

datatype procstate = UNUSED | USED | SLEEPING | RUNNABLE | RUNNING | ZOMBIE

text \<open>
  \<open>p_intena\<close> is not a field of \<open>struct proc\<close>: it is the local variable \<open>intena\<close> of
  \<open>sched()\<close>, which stays on the thread's kernel stack while the thread is switched out.
\<close>

record proc =
  p_state :: procstate
  p_chan :: chan
  p_killed :: bool
  p_xstate :: u32
  p_pid :: int
  p_parent :: "nat option"
  p_kstack :: u64
  p_sz :: u64
  p_pagetable :: u64
  p_trapframe :: u64
  p_context :: kcontext
  p_ofile :: "nat \<Rightarrow> nat option"
  p_cwd :: "nat option"
  p_name :: "nat \<Rightarrow> byte"
  p_intena :: bool

section \<open>buf.h, log.c, fs.h, file.h, pipe.c\<close>

type_synonym bdata = "nat \<Rightarrow> byte"

datatype bptr = BHead | BBuf nat

record buf =
  b_valid :: bool
  b_disk :: bool
  b_dev :: nat
  b_blockno :: nat
  b_refcnt :: int
  b_prev :: bptr
  b_next :: bptr
  b_data :: bdata

record superblock =
  sb_magic :: u32
  sb_size :: nat
  sb_nblocks :: nat
  sb_ninodes :: nat
  sb_nlog :: nat
  sb_logstart :: nat
  sb_inodestart :: nat
  sb_bmapstart :: nat

record logheader =
  lh_n :: int
  lh_block :: "nat \<Rightarrow> nat"

record klog =
  log_start :: nat
  log_size :: int
  log_outstanding :: int
  log_committing :: bool
  log_dev :: nat
  log_lh :: logheader

record inode =
  i_dev :: nat
  i_inum :: nat
  i_ref :: int
  i_valid :: bool
  i_type :: u16
  i_major :: u16
  i_minor :: u16
  i_nlink :: u16
  i_size :: u32
  i_addrs :: "nat \<Rightarrow> nat"

datatype ftype = FD_NONE | FD_PIPE | FD_INODE | FD_DEVICE

record kfile =
  f_type :: ftype
  f_ref :: int
  f_readable :: bool
  f_writable :: bool
  f_pipe :: u64
  f_ip :: "nat option"
  f_off :: u32
  f_major :: u16

record pipe =
  pi_data :: "nat \<Rightarrow> byte"
  pi_nread :: u32
  pi_nwrite :: u32
  pi_readopen :: bool
  pi_writeopen :: bool

section \<open>virtio.h and the driver state of virtio_disk.c\<close>

text \<open>
  A descriptor's \<open>addr\<close> is the address of one of three objects of the driver: a request
  header \<open>ops[i]\<close>, the data of a buffer, or a status byte \<open>info[i].status\<close>.
\<close>

datatype daddr = DNull | DOps nat | DData nat | DStatus nat

record virtq_desc =
  d_addr :: daddr
  d_len :: u32
  d_flags :: u16
  d_next :: nat

record virtio_blk_req =
  r_type :: u32
  r_reserved :: u32
  r_sector :: u64

record vdisk =
  vd_desc :: "nat \<Rightarrow> virtq_desc"
  vd_avail_idx :: u16
  vd_avail_ring :: "nat \<Rightarrow> nat"
  vd_dev_idx :: u16
  vd_used_ring :: "nat \<Rightarrow> nat"
  vd_free :: "nat \<Rightarrow> bool"
  vd_used_idx :: u16
  vd_info_b :: "nat \<Rightarrow> nat option"
  vd_info_status :: "nat \<Rightarrow> byte"
  vd_ops :: "nat \<Rightarrow> virtio_blk_req"

text \<open>
  The disk is hardware: its behaviour is the field \<open>vdev\<close> of the kernel state, a function that processes every
  request the driver has made available. From the queue in RAM, the data of the buffers and the contents of
  the disk it gives their new values and the list of the block writes it performed, oldest first.
\<close>

type_synonym blkdev =
  "vdisk \<Rightarrow> (nat \<Rightarrow> bdata) \<Rightarrow> (nat \<Rightarrow> bdata) \<Rightarrow> vdisk \<times> (nat \<Rightarrow> bdata) \<times> (nat \<Rightarrow> bdata) \<times> (nat \<times> bdata) list"

section \<open>console.c and uart.c\<close>

record cons =
  cons_buf :: "nat \<Rightarrow> byte"
  cons_r :: u32
  cons_w :: u32
  cons_e :: u32

record uart =
  tx_buf :: "nat \<Rightarrow> byte"
  tx_w :: u64
  tx_r :: u64

section \<open>The supervisor registers the kernel uses\<close>

record csr =
  scause :: u64
  sepc :: u64
  stval :: u64
  stvec :: u64
  sip :: u64
  satp :: u64

section \<open>The kernel state\<close>

text \<open>
  \<open>hart\<close> is the \<open>tp\<close> register of the hart that runs the code, \<open>sstatus\<close> the status
  register of every hart. \<open>kend\<close>, \<open>ketext\<close> and \<open>ktrampoline\<close> are addresses the linker
  fixes, and \<open>ksym\<close> gives the addresses of the other symbols whose address the code takes. \<open>disk_img\<close> is what the disk holds, and \<open>disk_hist\<close> lists the block writes
  it has performed, oldest first. \<open>uart_out\<close> lists the bytes handed to the UART's
  transmit register, oldest first, \<open>uart_in\<close> the received bytes it has not read yet, and \<open>uart_room\<close> is how many bytes its
  transmitter accepts before it is busy. \<open>fs_first\<close> is the static variable \<open>first\<close> of \<open>forkret\<close>. \<open>mmio\<close> lists
  the writes to the other device registers (address and value), oldest first, and \<open>mmio_rd\<close>
  gives what they read as. \<open>devsw n\<close> holds when the
  device switch has functions for major number \<open>n\<close>.
\<close>

record kstate =
  hart :: nat
  cpus :: "nat \<Rightarrow> cpu"
  sstatus :: "nat \<Rightarrow> u64"
  locks :: "lockid \<Rightarrow> spinlock"
  slocks :: "slid \<Rightarrow> sleeplock"
  kend :: u64
  ketext :: u64
  ktrampoline :: u64
  mem :: "u64 \<Rightarrow> byte"
  freelist :: u64
  procs :: "nat \<Rightarrow> proc"
  initproc :: "nat option"
  nextpid :: int
  bufs :: "nat \<Rightarrow> buf"
  bhead_prev :: bptr
  bhead_next :: bptr
  vdisk :: vdisk
  disk_img :: "nat \<Rightarrow> bdata"
  disk_hist :: "(nat \<times> bdata) list"
  sblk :: superblock
  klog :: klog
  inodes :: "nat \<Rightarrow> inode"
  files :: "nat \<Rightarrow> kfile"
  pipes :: "u64 \<Rightarrow> pipe"
  kcons :: cons
  kuart :: uart
  uart_out :: "byte list"
  kticks :: u32
  kernel_pagetable :: u64
  csrs :: "nat \<Rightarrow> csr"
  mmio :: "(u64 \<times> u64) list"
  uart_in :: "byte list"
  panicked :: bool
  pr_locking :: bool
  devsw :: "nat \<Rightarrow> bool"
  started :: bool
  ksym :: "string \<Rightarrow> u64"
  vdev :: blkdev
  mmio_rd :: "u64 \<Rightarrow> u64"
  uart_room :: nat
  fs_first :: bool

type_synonym 'a kernel = "(kstate, 'a) kmon"

text \<open>
  The state the C program starts in: its global variables are zero, except \<open>nextpid\<close>, which is
  initialised to 1. The linker's addresses are arguments.
\<close>

definition zero_spinlock :: spinlock where
  "zero_spinlock = \<lparr>locked = False, lkname = [], lkcpu = None\<rparr>"

definition zero_proc :: proc where
  "zero_proc = \<lparr>p_state = UNUSED, p_chan = NullChan, p_killed = False, p_xstate = 0, p_pid = 0,
     p_parent = None, p_kstack = 0, p_sz = 0, p_pagetable = 0, p_trapframe = 0,
     p_context = \<lparr>ctx_ra = 0, ctx_sp = 0, ctx_s = (\<lambda>_. 0)\<rparr>, p_ofile = (\<lambda>_. None), p_cwd = None,
     p_name = (\<lambda>_. 0), p_intena = False\<rparr>"

definition zero_buf :: buf where
  "zero_buf = \<lparr>b_valid = False, b_disk = False, b_dev = 0, b_blockno = 0, b_refcnt = 0,
     b_prev = BHead, b_next = BHead, b_data = (\<lambda>_. 0)\<rparr>"

definition zero_vdisk :: vdisk where
  "zero_vdisk = \<lparr>vd_desc = (\<lambda>_. \<lparr>d_addr = DNull, d_len = 0, d_flags = 0, d_next = 0\<rparr>),
     vd_avail_idx = 0, vd_avail_ring = (\<lambda>_. 0), vd_dev_idx = 0, vd_used_ring = (\<lambda>_. 0),
     vd_free = (\<lambda>_. False), vd_used_idx = 0, vd_info_b = (\<lambda>_. None), vd_info_status = (\<lambda>_. 0),
     vd_ops = (\<lambda>_. \<lparr>r_type = 0, r_reserved = 0, r_sector = 0\<rparr>)\<rparr>"

definition zero_inode :: inode where
  "zero_inode = \<lparr>i_dev = 0, i_inum = 0, i_ref = 0, i_valid = False, i_type = 0, i_major = 0,
     i_minor = 0, i_nlink = 0, i_size = 0, i_addrs = (\<lambda>_. 0)\<rparr>"

definition zero_file :: kfile where
  "zero_file = \<lparr>f_type = FD_NONE, f_ref = 0, f_readable = False, f_writable = False, f_pipe = 0,
     f_ip = None, f_off = 0, f_major = 0\<rparr>"

definition zero_pipe :: pipe where
  "zero_pipe = \<lparr>pi_data = (\<lambda>_. 0), pi_nread = 0, pi_nwrite = 0, pi_readopen = False, pi_writeopen = False\<rparr>"

definition boot_state :: "u64 \<Rightarrow> u64 \<Rightarrow> u64 \<Rightarrow> (nat \<Rightarrow> bdata) \<Rightarrow> kstate" where
  "boot_state e et tr img = \<lparr>hart = 0,
     cpus = (\<lambda>_. \<lparr>c_proc = None, noff = 0, intena = False\<rparr>), sstatus = (\<lambda>_. 0),
     locks = (\<lambda>_. zero_spinlock), slocks = (\<lambda>_. \<lparr>sl_locked = False, sl_name = [], sl_pid = 0\<rparr>),
     kend = e, ketext = et, ktrampoline = tr, mem = (\<lambda>_. 0), freelist = 0,
     procs = (\<lambda>_. zero_proc), initproc = None, nextpid = 1,
     bufs = (\<lambda>_. zero_buf), bhead_prev = BHead, bhead_next = BHead,
     vdisk = zero_vdisk, disk_img = img, disk_hist = [],
     sblk = \<lparr>sb_magic = 0, sb_size = 0, sb_nblocks = 0, sb_ninodes = 0, sb_nlog = 0,
       sb_logstart = 0, sb_inodestart = 0, sb_bmapstart = 0\<rparr>,
     klog = \<lparr>log_start = 0, log_size = 0, log_outstanding = 0, log_committing = False, log_dev = 0,
       log_lh = \<lparr>lh_n = 0, lh_block = (\<lambda>_. 0)\<rparr>\<rparr>,
     inodes = (\<lambda>_. zero_inode), files = (\<lambda>_. zero_file), pipes = (\<lambda>_. zero_pipe),
     kcons = \<lparr>cons_buf = (\<lambda>_. 0), cons_r = 0, cons_w = 0, cons_e = 0\<rparr>,
     kuart = \<lparr>tx_buf = (\<lambda>_. 0), tx_w = 0, tx_r = 0\<rparr>, uart_out = [], kticks = 0,
     kernel_pagetable = 0,
     csrs = (\<lambda>_. \<lparr>scause = 0, sepc = 0, stval = 0, stvec = 0, sip = 0, satp = 0\<rparr>),
     mmio = [], uart_in = [], panicked = False, pr_locking = False, devsw = (\<lambda>_. False), started = False,
     ksym = (\<lambda>_. 0x80000000),
     vdev = (\<lambda>vd bd img. (vd, bd, img, [])),
     mmio_rd = (\<lambda>_. 0),
     uart_room = 1024,
     fs_first = True\<rparr>"

lemmas zero_defs = zero_spinlock_def zero_proc_def zero_buf_def zero_vdisk_def zero_inode_def
  zero_file_def zero_pipe_def

end
