(* ===== verification/Spinlock.thy ===== *)
theory Spinlock
  imports Kstate
begin

text \<open>
  Interrupt control (\<^verbatim>\<open>riscv.h\<close>) and spin locks (\<^verbatim>\<open>spinlock.c\<close>). The second half proves the algebra
  of critical sections that the other components use: while a lock is free, \<open>acquire\<close>
  gives the state \<open>acq lk s\<close>, and releasing it again gives \<open>sync s\<close>, which differs from \<open>s\<close>
  in the bookkeeping field \<open>intena\<close> only.
\<close>

named_theorems lockalg "the algebra of critical sections"

section \<open>Interrupt control and the current CPU\<close>

definition SSTATUS_SIE :: u64 where "SSTATUS_SIE = push_bit 1 1"

definition cpuid :: "nat kernel" where
  "cpuid = gets hart"

definition mycpu :: "cpu kernel" where
  "mycpu = bnd cpuid (\<lambda>id. gets (\<lambda>s. cpus s id))"

definition set_mycpu :: "(cpu \<Rightarrow> cpu) \<Rightarrow> unit kernel" where
  "set_mycpu f = bnd cpuid (\<lambda>id. modify (\<lambda>s. s\<lparr>cpus := (cpus s)(id := f (cpus s id))\<rparr>))"

definition r_sstatus :: "u64 kernel" where
  "r_sstatus = bnd cpuid (\<lambda>id. gets (\<lambda>s. sstatus s id))"

definition w_sstatus :: "u64 \<Rightarrow> unit kernel" where
  "w_sstatus x = bnd cpuid (\<lambda>id. modify (\<lambda>s. s\<lparr>sstatus := (sstatus s)(id := x)\<rparr>))"

definition intr_on :: "unit kernel" where
  "intr_on = bnd r_sstatus (\<lambda>x. w_sstatus (x OR SSTATUS_SIE))"

definition intr_off :: "unit kernel" where
  "intr_off = bnd r_sstatus (\<lambda>x. w_sstatus (x AND NOT SSTATUS_SIE))"

definition intr_get :: "bool kernel" where
  "intr_get = bnd r_sstatus (\<lambda>x. ret (x AND SSTATUS_SIE \<noteq> 0))"

definition push_off :: "unit kernel" where
  "push_off =
     bnd intr_get (\<lambda>old.
     thn intr_off (
     bnd mycpu (\<lambda>c.
     thn (whenM (noff c = 0) (set_mycpu (\<lambda>c. c\<lparr>intena := old\<rparr>))) (
     set_mycpu (\<lambda>c. c\<lparr>noff := noff c + 1\<rparr>)))))"

definition pop_off :: "unit kernel" where
  "pop_off =
     bnd intr_get (\<lambda>on.
     if on then panic ''pop_off - interruptible'' else
     bnd mycpu (\<lambda>c.
     if noff c < 1 then panic ''pop_off'' else
     thn (set_mycpu (\<lambda>c. c\<lparr>noff := noff c - 1\<rparr>)) (
     bnd mycpu (\<lambda>c.
     whenM (noff c = 0 \<and> intena c) intr_on))))"

section \<open>Spin locks\<close>

definition set_lock :: "lockid \<Rightarrow> (spinlock \<Rightarrow> spinlock) \<Rightarrow> unit kernel" where
  "set_lock lk f = modify (\<lambda>s. s\<lparr>locks := (locks s)(lk := f (locks s lk))\<rparr>)"

definition initlock :: "lockid \<Rightarrow> string \<Rightarrow> unit kernel" where
  "initlock lk name = set_lock lk (\<lambda>l. l\<lparr>lkname := name, locked := False, lkcpu := None\<rparr>)"

definition holding :: "lockid \<Rightarrow> bool kernel" where
  "holding lk =
     bnd cpuid (\<lambda>id. gets (\<lambda>s. locked (locks s lk) \<and> lkcpu (locks s lk) = Some id))"

text \<open>
  \<open>test_and_set\<close> is the atomic swap of the compiler's \<open>__sync_lock_test_and_set\<close>. The spin loop of
  \<open>acquire\<close> runs with interrupts off, so a lock it finds taken can only be freed by another hart:
  run on its own, it hangs.
\<close>

definition test_and_set :: "lockid \<Rightarrow> bool kernel" where
  "test_and_set lk =
     bnd (gets (\<lambda>s. locked (locks s lk))) (\<lambda>old.
     thn (set_lock lk (\<lambda>l. l\<lparr>locked := True\<rparr>)) (ret old))"

definition acquire :: "lockid \<Rightarrow> unit kernel" where
  "acquire lk =
     thn push_off (
     bnd (holding lk) (\<lambda>h.
     if h then panic ''acquire'' else
     bnd (test_and_set lk) (\<lambda>old.
     if old then hang ''acquire'' else
     bnd cpuid (\<lambda>id. set_lock lk (\<lambda>l. l\<lparr>lkcpu := Some id\<rparr>)))))"

definition release :: "lockid \<Rightarrow> unit kernel" where
  "release lk =
     bnd (holding lk) (\<lambda>h.
     if \<not> h then panic ''release'' else
     thn (set_lock lk (\<lambda>l. l\<lparr>lkcpu := None\<rparr>)) (
     thn (set_lock lk (\<lambda>l. l\<lparr>locked := False\<rparr>)) (
     pop_off)))"

lemmas intr_defs = cpuid_def mycpu_def set_mycpu_def r_sstatus_def w_sstatus_def
  intr_on_def intr_off_def intr_get_def

lemmas spinlock_defs = set_lock_def holding_def test_and_set_def push_off_def pop_off_def


section \<open>The algebra of critical sections\<close>

text \<open>
  \<open>sie s\<close>: device interrupts are enabled on the current hart. \<open>cpu_ok s\<close>: its nesting
  depth is not negative, and interrupts are off inside a critical section. \<open>freelk lk s\<close>:
  nobody holds the lock.
\<close>

definition sie :: "kstate \<Rightarrow> bool" where
  "sie s = (sstatus s (hart s) AND SSTATUS_SIE \<noteq> 0)"

definition cpu_ok :: "kstate \<Rightarrow> bool" where
  "cpu_ok s = (0 \<le> noff (cpus s (hart s)) \<and> (noff (cpus s (hart s)) \<noteq> 0 \<longrightarrow> \<not> sie s))"

definition freelk :: "lockid \<Rightarrow> kstate \<Rightarrow> bool" where
  "freelk lk s = (\<not> locked (locks s lk) \<and> lkcpu (locks s lk) = None)"

definition acq :: "lockid \<Rightarrow> kstate \<Rightarrow> kstate" where
  "acq lk s = s\<lparr>
     cpus := (cpus s)(hart s := (cpus s (hart s))\<lparr>noff := noff (cpus s (hart s)) + 1,
       intena := (if noff (cpus s (hart s)) = 0 then sie s else intena (cpus s (hart s)))\<rparr>),
     sstatus := (sstatus s)(hart s := sstatus s (hart s) AND NOT SSTATUS_SIE),
     locks := (locks s)(lk := (locks s lk)\<lparr>locked := True, lkcpu := Some (hart s)\<rparr>)\<rparr>"

definition sync :: "kstate \<Rightarrow> kstate" where
  "sync s = s\<lparr>cpus := (cpus s)(hart s := (cpus s (hart s))\<lparr>
       intena := (if noff (cpus s (hart s)) = 0 then sie s else intena (cpus s (hart s)))\<rparr>)\<rparr>"

lemma sie_off: "(x AND NOT SSTATUS_SIE) AND SSTATUS_SIE = 0"
  by (simp add: and.assoc)

lemma sie_iff_bit: "x AND SSTATUS_SIE \<noteq> 0 \<longleftrightarrow> bit x 1"
proof -
  have "x AND SSTATUS_SIE = (if bit x 1 then SSTATUS_SIE else 0)"
    by (rule bit_word_eqI) (auto simp: SSTATUS_SIE_def bit_simps)
  moreover have "SSTATUS_SIE \<noteq> 0" by (simp add: SSTATUS_SIE_def)
  ultimately show ?thesis by simp
qed

lemma sie_restore_on: "x AND SSTATUS_SIE \<noteq> 0 \<Longrightarrow> (x AND NOT SSTATUS_SIE) OR SSTATUS_SIE = x"
  unfolding sie_iff_bit by (rule bit_word_eqI) (auto simp: SSTATUS_SIE_def bit_simps)

lemma sie_restore_off: "x AND SSTATUS_SIE = 0 \<Longrightarrow> x AND NOT SSTATUS_SIE = x"
  using sie_iff_bit[of x] by (intro bit_word_eqI) (auto simp: SSTATUS_SIE_def bit_simps)

lemma acq_select [simp]:
  "hart (acq lk s) = hart s"
  "slocks (acq lk s) = slocks s"
  "kend (acq lk s) = kend s"
  "ketext (acq lk s) = ketext s"
  "ktrampoline (acq lk s) = ktrampoline s"
  "mem (acq lk s) = mem s"
  "freelist (acq lk s) = freelist s"
  "procs (acq lk s) = procs s"
  "initproc (acq lk s) = initproc s"
  "nextpid (acq lk s) = nextpid s"
  "bufs (acq lk s) = bufs s"
  "bhead_prev (acq lk s) = bhead_prev s"
  "bhead_next (acq lk s) = bhead_next s"
  "vdisk (acq lk s) = vdisk s"
  "disk_img (acq lk s) = disk_img s"
  "disk_hist (acq lk s) = disk_hist s"
  "sblk (acq lk s) = sblk s"
  "klog (acq lk s) = klog s"
  "inodes (acq lk s) = inodes s"
  "files (acq lk s) = files s"
  "pipes (acq lk s) = pipes s"
  "kcons (acq lk s) = kcons s"
  "kuart (acq lk s) = kuart s"
  "uart_out (acq lk s) = uart_out s"
  "kticks (acq lk s) = kticks s"
  "kernel_pagetable (acq lk s) = kernel_pagetable s"
  "csrs (acq lk s) = csrs s"
  "mmio (acq lk s) = mmio s"
  "uart_in (acq lk s) = uart_in s"
  "panicked (acq lk s) = panicked s"
  "pr_locking (acq lk s) = pr_locking s"
  "devsw (acq lk s) = devsw s"
  "started (acq lk s) = started s"
  "ksym (acq lk s) = ksym s"
  "vdev (acq lk s) = vdev s"
  "mmio_rd (acq lk s) = mmio_rd s"
  "uart_room (acq lk s) = uart_room s"
  "fs_first (acq lk s) = fs_first s"
  by (simp_all add: acq_def)

lemma sync_select [simp]:
  "hart (sync s) = hart s"
  "slocks (sync s) = slocks s"
  "kend (sync s) = kend s"
  "ketext (sync s) = ketext s"
  "ktrampoline (sync s) = ktrampoline s"
  "mem (sync s) = mem s"
  "freelist (sync s) = freelist s"
  "procs (sync s) = procs s"
  "initproc (sync s) = initproc s"
  "nextpid (sync s) = nextpid s"
  "bufs (sync s) = bufs s"
  "bhead_prev (sync s) = bhead_prev s"
  "bhead_next (sync s) = bhead_next s"
  "vdisk (sync s) = vdisk s"
  "disk_img (sync s) = disk_img s"
  "disk_hist (sync s) = disk_hist s"
  "sblk (sync s) = sblk s"
  "klog (sync s) = klog s"
  "inodes (sync s) = inodes s"
  "files (sync s) = files s"
  "pipes (sync s) = pipes s"
  "kcons (sync s) = kcons s"
  "kuart (sync s) = kuart s"
  "uart_out (sync s) = uart_out s"
  "kticks (sync s) = kticks s"
  "kernel_pagetable (sync s) = kernel_pagetable s"
  "csrs (sync s) = csrs s"
  "mmio (sync s) = mmio s"
  "uart_in (sync s) = uart_in s"
  "panicked (sync s) = panicked s"
  "pr_locking (sync s) = pr_locking s"
  "devsw (sync s) = devsw s"
  "started (sync s) = started s"
  "ksym (sync s) = ksym s"
  "vdev (sync s) = vdev s"
  "mmio_rd (sync s) = mmio_rd s"
  "uart_room (sync s) = uart_room s"
  "fs_first (sync s) = fs_first s"
  "locks (sync s) = locks s"
  "sstatus (sync s) = sstatus s"
  by (simp_all add: sync_def)

lemma acq_update [simp]:
  "slocks_update f0 (acq lk s) = acq lk (slocks_update f0 s)"
  "kend_update f1 (acq lk s) = acq lk (kend_update f1 s)"
  "ketext_update f2 (acq lk s) = acq lk (ketext_update f2 s)"
  "ktrampoline_update f3 (acq lk s) = acq lk (ktrampoline_update f3 s)"
  "mem_update f4 (acq lk s) = acq lk (mem_update f4 s)"
  "freelist_update f5 (acq lk s) = acq lk (freelist_update f5 s)"
  "procs_update f6 (acq lk s) = acq lk (procs_update f6 s)"
  "initproc_update f7 (acq lk s) = acq lk (initproc_update f7 s)"
  "nextpid_update f8 (acq lk s) = acq lk (nextpid_update f8 s)"
  "bufs_update f9 (acq lk s) = acq lk (bufs_update f9 s)"
  "bhead_prev_update f10 (acq lk s) = acq lk (bhead_prev_update f10 s)"
  "bhead_next_update f11 (acq lk s) = acq lk (bhead_next_update f11 s)"
  "vdisk_update f12 (acq lk s) = acq lk (vdisk_update f12 s)"
  "disk_img_update f13 (acq lk s) = acq lk (disk_img_update f13 s)"
  "disk_hist_update f14 (acq lk s) = acq lk (disk_hist_update f14 s)"
  "sblk_update f15 (acq lk s) = acq lk (sblk_update f15 s)"
  "klog_update f16 (acq lk s) = acq lk (klog_update f16 s)"
  "inodes_update f17 (acq lk s) = acq lk (inodes_update f17 s)"
  "files_update f18 (acq lk s) = acq lk (files_update f18 s)"
  "pipes_update f19 (acq lk s) = acq lk (pipes_update f19 s)"
  "kcons_update f20 (acq lk s) = acq lk (kcons_update f20 s)"
  "kuart_update f21 (acq lk s) = acq lk (kuart_update f21 s)"
  "uart_out_update f22 (acq lk s) = acq lk (uart_out_update f22 s)"
  "kticks_update f23 (acq lk s) = acq lk (kticks_update f23 s)"
  "kernel_pagetable_update f24 (acq lk s) = acq lk (kernel_pagetable_update f24 s)"
  "csrs_update f25 (acq lk s) = acq lk (csrs_update f25 s)"
  "mmio_update f26 (acq lk s) = acq lk (mmio_update f26 s)"
  "uart_in_update f27 (acq lk s) = acq lk (uart_in_update f27 s)"
  "panicked_update f28 (acq lk s) = acq lk (panicked_update f28 s)"
  "pr_locking_update f29 (acq lk s) = acq lk (pr_locking_update f29 s)"
  "devsw_update f30 (acq lk s) = acq lk (devsw_update f30 s)"
  "started_update f31 (acq lk s) = acq lk (started_update f31 s)"
  "ksym_update f32 (acq lk s) = acq lk (ksym_update f32 s)"
  "vdev_update f33 (acq lk s) = acq lk (vdev_update f33 s)"
  "mmio_rd_update f34 (acq lk s) = acq lk (mmio_rd_update f34 s)"
  "uart_room_update f35 (acq lk s) = acq lk (uart_room_update f35 s)"
  "fs_first_update f36 (acq lk s) = acq lk (fs_first_update f36 s)"
  by (simp_all add: acq_def sie_def)

lemma sync_update [simp]:
  "slocks_update f0 (sync s) = sync (slocks_update f0 s)"
  "kend_update f1 (sync s) = sync (kend_update f1 s)"
  "ketext_update f2 (sync s) = sync (ketext_update f2 s)"
  "ktrampoline_update f3 (sync s) = sync (ktrampoline_update f3 s)"
  "mem_update f4 (sync s) = sync (mem_update f4 s)"
  "freelist_update f5 (sync s) = sync (freelist_update f5 s)"
  "procs_update f6 (sync s) = sync (procs_update f6 s)"
  "initproc_update f7 (sync s) = sync (initproc_update f7 s)"
  "nextpid_update f8 (sync s) = sync (nextpid_update f8 s)"
  "bufs_update f9 (sync s) = sync (bufs_update f9 s)"
  "bhead_prev_update f10 (sync s) = sync (bhead_prev_update f10 s)"
  "bhead_next_update f11 (sync s) = sync (bhead_next_update f11 s)"
  "vdisk_update f12 (sync s) = sync (vdisk_update f12 s)"
  "disk_img_update f13 (sync s) = sync (disk_img_update f13 s)"
  "disk_hist_update f14 (sync s) = sync (disk_hist_update f14 s)"
  "sblk_update f15 (sync s) = sync (sblk_update f15 s)"
  "klog_update f16 (sync s) = sync (klog_update f16 s)"
  "inodes_update f17 (sync s) = sync (inodes_update f17 s)"
  "files_update f18 (sync s) = sync (files_update f18 s)"
  "pipes_update f19 (sync s) = sync (pipes_update f19 s)"
  "kcons_update f20 (sync s) = sync (kcons_update f20 s)"
  "kuart_update f21 (sync s) = sync (kuart_update f21 s)"
  "uart_out_update f22 (sync s) = sync (uart_out_update f22 s)"
  "kticks_update f23 (sync s) = sync (kticks_update f23 s)"
  "kernel_pagetable_update f24 (sync s) = sync (kernel_pagetable_update f24 s)"
  "csrs_update f25 (sync s) = sync (csrs_update f25 s)"
  "mmio_update f26 (sync s) = sync (mmio_update f26 s)"
  "uart_in_update f27 (sync s) = sync (uart_in_update f27 s)"
  "panicked_update f28 (sync s) = sync (panicked_update f28 s)"
  "pr_locking_update f29 (sync s) = sync (pr_locking_update f29 s)"
  "devsw_update f30 (sync s) = sync (devsw_update f30 s)"
  "started_update f31 (sync s) = sync (started_update f31 s)"
  "ksym_update f32 (sync s) = sync (ksym_update f32 s)"
  "vdev_update f33 (sync s) = sync (vdev_update f33 s)"
  "mmio_rd_update f34 (sync s) = sync (mmio_rd_update f34 s)"
  "uart_room_update f35 (sync s) = sync (uart_room_update f35 s)"
  "fs_first_update f36 (sync s) = sync (fs_first_update f36 s)"
  by (simp_all add: sync_def sie_def)

lemma machine_update [simp]:
  "freelk lk (slocks_update f0 s) = freelk lk s"
  "freelk lk (kend_update f1 s) = freelk lk s"
  "freelk lk (ketext_update f2 s) = freelk lk s"
  "freelk lk (ktrampoline_update f3 s) = freelk lk s"
  "freelk lk (mem_update f4 s) = freelk lk s"
  "freelk lk (freelist_update f5 s) = freelk lk s"
  "freelk lk (procs_update f6 s) = freelk lk s"
  "freelk lk (initproc_update f7 s) = freelk lk s"
  "freelk lk (nextpid_update f8 s) = freelk lk s"
  "freelk lk (bufs_update f9 s) = freelk lk s"
  "freelk lk (bhead_prev_update f10 s) = freelk lk s"
  "freelk lk (bhead_next_update f11 s) = freelk lk s"
  "freelk lk (vdisk_update f12 s) = freelk lk s"
  "freelk lk (disk_img_update f13 s) = freelk lk s"
  "freelk lk (disk_hist_update f14 s) = freelk lk s"
  "freelk lk (sblk_update f15 s) = freelk lk s"
  "freelk lk (klog_update f16 s) = freelk lk s"
  "freelk lk (inodes_update f17 s) = freelk lk s"
  "freelk lk (files_update f18 s) = freelk lk s"
  "freelk lk (pipes_update f19 s) = freelk lk s"
  "freelk lk (kcons_update f20 s) = freelk lk s"
  "freelk lk (kuart_update f21 s) = freelk lk s"
  "freelk lk (uart_out_update f22 s) = freelk lk s"
  "freelk lk (kticks_update f23 s) = freelk lk s"
  "freelk lk (kernel_pagetable_update f24 s) = freelk lk s"
  "freelk lk (csrs_update f25 s) = freelk lk s"
  "freelk lk (mmio_update f26 s) = freelk lk s"
  "freelk lk (uart_in_update f27 s) = freelk lk s"
  "freelk lk (panicked_update f28 s) = freelk lk s"
  "freelk lk (pr_locking_update f29 s) = freelk lk s"
  "freelk lk (devsw_update f30 s) = freelk lk s"
  "freelk lk (started_update f31 s) = freelk lk s"
  "freelk lk (ksym_update f32 s) = freelk lk s"
  "freelk lk (vdev_update f33 s) = freelk lk s"
  "freelk lk (mmio_rd_update f34 s) = freelk lk s"
  "freelk lk (uart_room_update f35 s) = freelk lk s"
  "freelk lk (fs_first_update f36 s) = freelk lk s"
  "cpu_ok (slocks_update f0 s) = cpu_ok s"
  "cpu_ok (kend_update f1 s) = cpu_ok s"
  "cpu_ok (ketext_update f2 s) = cpu_ok s"
  "cpu_ok (ktrampoline_update f3 s) = cpu_ok s"
  "cpu_ok (mem_update f4 s) = cpu_ok s"
  "cpu_ok (freelist_update f5 s) = cpu_ok s"
  "cpu_ok (procs_update f6 s) = cpu_ok s"
  "cpu_ok (initproc_update f7 s) = cpu_ok s"
  "cpu_ok (nextpid_update f8 s) = cpu_ok s"
  "cpu_ok (bufs_update f9 s) = cpu_ok s"
  "cpu_ok (bhead_prev_update f10 s) = cpu_ok s"
  "cpu_ok (bhead_next_update f11 s) = cpu_ok s"
  "cpu_ok (vdisk_update f12 s) = cpu_ok s"
  "cpu_ok (disk_img_update f13 s) = cpu_ok s"
  "cpu_ok (disk_hist_update f14 s) = cpu_ok s"
  "cpu_ok (sblk_update f15 s) = cpu_ok s"
  "cpu_ok (klog_update f16 s) = cpu_ok s"
  "cpu_ok (inodes_update f17 s) = cpu_ok s"
  "cpu_ok (files_update f18 s) = cpu_ok s"
  "cpu_ok (pipes_update f19 s) = cpu_ok s"
  "cpu_ok (kcons_update f20 s) = cpu_ok s"
  "cpu_ok (kuart_update f21 s) = cpu_ok s"
  "cpu_ok (uart_out_update f22 s) = cpu_ok s"
  "cpu_ok (kticks_update f23 s) = cpu_ok s"
  "cpu_ok (kernel_pagetable_update f24 s) = cpu_ok s"
  "cpu_ok (csrs_update f25 s) = cpu_ok s"
  "cpu_ok (mmio_update f26 s) = cpu_ok s"
  "cpu_ok (uart_in_update f27 s) = cpu_ok s"
  "cpu_ok (panicked_update f28 s) = cpu_ok s"
  "cpu_ok (pr_locking_update f29 s) = cpu_ok s"
  "cpu_ok (devsw_update f30 s) = cpu_ok s"
  "cpu_ok (started_update f31 s) = cpu_ok s"
  "cpu_ok (ksym_update f32 s) = cpu_ok s"
  "cpu_ok (vdev_update f33 s) = cpu_ok s"
  "cpu_ok (mmio_rd_update f34 s) = cpu_ok s"
  "cpu_ok (uart_room_update f35 s) = cpu_ok s"
  "cpu_ok (fs_first_update f36 s) = cpu_ok s"
  "sie (slocks_update f0 s) = sie s"
  "sie (kend_update f1 s) = sie s"
  "sie (ketext_update f2 s) = sie s"
  "sie (ktrampoline_update f3 s) = sie s"
  "sie (mem_update f4 s) = sie s"
  "sie (freelist_update f5 s) = sie s"
  "sie (procs_update f6 s) = sie s"
  "sie (initproc_update f7 s) = sie s"
  "sie (nextpid_update f8 s) = sie s"
  "sie (bufs_update f9 s) = sie s"
  "sie (bhead_prev_update f10 s) = sie s"
  "sie (bhead_next_update f11 s) = sie s"
  "sie (vdisk_update f12 s) = sie s"
  "sie (disk_img_update f13 s) = sie s"
  "sie (disk_hist_update f14 s) = sie s"
  "sie (sblk_update f15 s) = sie s"
  "sie (klog_update f16 s) = sie s"
  "sie (inodes_update f17 s) = sie s"
  "sie (files_update f18 s) = sie s"
  "sie (pipes_update f19 s) = sie s"
  "sie (kcons_update f20 s) = sie s"
  "sie (kuart_update f21 s) = sie s"
  "sie (uart_out_update f22 s) = sie s"
  "sie (kticks_update f23 s) = sie s"
  "sie (kernel_pagetable_update f24 s) = sie s"
  "sie (csrs_update f25 s) = sie s"
  "sie (mmio_update f26 s) = sie s"
  "sie (uart_in_update f27 s) = sie s"
  "sie (panicked_update f28 s) = sie s"
  "sie (pr_locking_update f29 s) = sie s"
  "sie (devsw_update f30 s) = sie s"
  "sie (started_update f31 s) = sie s"
  "sie (ksym_update f32 s) = sie s"
  "sie (vdev_update f33 s) = sie s"
  "sie (mmio_rd_update f34 s) = sie s"
  "sie (uart_room_update f35 s) = sie s"
  "sie (fs_first_update f36 s) = sie s"
  by (simp_all add: freelk_def cpu_ok_def sie_def)

lemma sie_acq [simp]: "\<not> sie (acq lk s)"
  by (simp add: sie_def acq_def sie_off)

lemma noff_acq [simp]: "noff (cpus (acq lk s) (hart s)) = noff (cpus s (hart s)) + 1"
  by (simp add: acq_def)

lemma cpu_ok_acq [simp]: "cpu_ok s \<Longrightarrow> cpu_ok (acq lk s)"
  by (simp add: cpu_ok_def)

lemma sie_sync [simp]: "sie (sync s) = sie s"
  by (simp add: sie_def)

lemma cpu_ok_sync [simp]: "cpu_ok (sync s) = cpu_ok s"
  by (simp add: cpu_ok_def sync_def sie_def)

lemma freelk_acq [simp]: "freelk lk (acq l s) \<longleftrightarrow> lk \<noteq> l \<and> freelk lk s"
  by (auto simp: freelk_def acq_def)

lemma freelk_sync [simp]: "freelk lk (sync s) = freelk lk s"
  by (simp add: freelk_def)

lemma sync_sync [simp]: "sync (sync s) = sync s"
  by (simp add: sync_def sie_def)

lemma acq_sync [simp]: "acq lk (sync s) = acq lk s"
  by (simp add: acq_def sync_def sie_def)

lemma sync_acq [simp]: "cpu_ok s \<Longrightarrow> sync (acq lk s) = acq lk s"
  by (simp add: cpu_ok_def sync_def acq_def)

lemma acquire_free [simp]: "freelk lk s \<Longrightarrow> acquire lk s = Ok () (acq lk s)"
  by (auto simp: acquire_def spinlock_defs intr_defs kmon freelk_def acq_def sie_def
      intro!: kstate.equality)

lemma acquire_self: "locked (locks s lk) \<Longrightarrow> lkcpu (locks s lk) = Some (hart s) \<Longrightarrow> acquire lk s = Panic ''acquire''"
  by (simp add: acquire_def spinlock_defs intr_defs kmon)

lemma acquire_contended:
  "locked (locks s lk) \<Longrightarrow> lkcpu (locks s lk) \<noteq> Some (hart s) \<Longrightarrow> acquire lk s = Hang ''acquire''"
  by (simp add: acquire_def spinlock_defs intr_defs kmon)

lemma lock_restore: "freelk lk s \<Longrightarrow>
    (locks s)(lk := (locks s lk)\<lparr>lkcpu := None, locked := False\<rparr>) = locks s"
  by (rule ext) (simp add: freelk_def)

lemmas release_unfold = release_def spinlock_defs intr_defs kmon acq_def sync_def sie_off sie_def

lemma release_acq [simp]:
  assumes "freelk lk s" and "cpu_ok s"
  shows "release lk (acq lk s) = Ok () (sync s)"
proof (cases "sie s")
  case True
  then have "noff (cpus s (hart s)) = 0" using assms(2) by (auto simp: cpu_ok_def)
  with True show ?thesis
    using lock_restore[OF assms(1)]
    by (auto simp: release_unfold sie_restore_on intro!: kstate.equality)
next
  case False
  with assms(2) have "0 \<le> noff (cpus s (hart s))" by (auto simp: cpu_ok_def)
  with False show ?thesis
    using lock_restore[OF assms(1)]
    by (auto simp: release_unfold sie_restore_off intro!: kstate.equality)
qed

lemma release_acq_swap [simp]:
  assumes "freelk l1 s" and "cpu_ok s" and "l1 \<noteq> l2"
  shows "release l1 (acq l2 (acq l1 s)) = Ok () (acq l2 s)"
  using assms lock_restore[OF assms(1)]
  by (auto simp: release_unfold cpu_ok_def fun_upd_twist intro!: kstate.equality)

lemma release_not_holding:
  "\<not> (locked (locks s lk) \<and> lkcpu (locks s lk) = Some (hart s)) \<Longrightarrow> release lk s = Panic ''release''"
  by (simp add: release_def holding_def cpuid_def kmon)

lemma boot_machine [simp]: "freelk lk (boot_state e et tr img)" "cpu_ok (boot_state e et tr img)"
  by (simp_all add: boot_state_def freelk_def cpu_ok_def zero_spinlock_def)

end
