(* ===== verification/Mutex.thy ===== *)
theory Mutex
  imports Spinlock
begin

text \<open>
  Several harts compete for one spin lock. Each hart runs the statements of
  \<open>acquire\<close> and \<open>release\<close> (\<^verbatim>\<open>spinlock.c\<close>), and the statements of different harts interleave
  arbitrarily: the memory accesses of \<open>holding\<close>, the atomic swap, and the two stores of
  \<open>release\<close> are separate steps. The result is mutual exclusion, and that neither the unlocked
  read of \<open>lk->cpu\<close> in \<open>holding\<close> nor \<open>pop_off\<close> ever makes a hart panic.
\<close>

text \<open>
  Where a hart is: outside, in \<open>acquire\<close> (before it reads \<open>locked\<close>, before it reads
  \<open>cpu\<close>, at the swap, before it stores \<open>cpu\<close>), in the critical section, in \<open>release\<close>
  (before it clears \<open>cpu\<close>, before it clears \<open>locked\<close>, before \<open>pop_off\<close>), or panicked.
\<close>

datatype lpc = Out | A_locked | A_cpu | A_swap | A_store | In | R_cpu | R_locked | R_pop | Dead

record msys =
  ms :: kstate
  pcs :: "nat \<Rightarrow> lpc"

definition on_hart :: "nat \<Rightarrow> kstate \<Rightarrow> kstate" where
  "on_hart h s = s\<lparr>hart := h\<rparr>"

definition goto :: "msys \<Rightarrow> nat \<Rightarrow> kstate \<Rightarrow> lpc \<Rightarrow> msys" where
  "goto m h s p = \<lparr>ms = s, pcs = (pcs m)(h := p)\<rparr>"

inductive spin_step :: "lockid \<Rightarrow> msys \<Rightarrow> msys \<Rightarrow> bool" for lk where
  enter: "pcs m h = Out \<Longrightarrow> push_off (on_hart h (ms m)) = Ok () t \<Longrightarrow>
    spin_step lk m (goto m h t A_locked)"
| test_unlocked: "pcs m h = A_locked \<Longrightarrow> \<not> locked (locks (ms m) lk) \<Longrightarrow>
    spin_step lk m (goto m h (ms m) A_swap)"
| test_locked: "pcs m h = A_locked \<Longrightarrow> locked (locks (ms m) lk) \<Longrightarrow>
    spin_step lk m (goto m h (ms m) A_cpu)"
| test_other: "pcs m h = A_cpu \<Longrightarrow> lkcpu (locks (ms m) lk) \<noteq> Some h \<Longrightarrow>
    spin_step lk m (goto m h (ms m) A_swap)"
| test_self: "pcs m h = A_cpu \<Longrightarrow> lkcpu (locks (ms m) lk) = Some h \<Longrightarrow>
    spin_step lk m (goto m h (ms m) Dead)"
| swap_lose: "pcs m h = A_swap \<Longrightarrow> test_and_set lk (on_hart h (ms m)) = Ok True t \<Longrightarrow>
    spin_step lk m (goto m h t A_swap)"
| swap_win: "pcs m h = A_swap \<Longrightarrow> test_and_set lk (on_hart h (ms m)) = Ok False t \<Longrightarrow>
    spin_step lk m (goto m h t A_store)"
| store_cpu: "pcs m h = A_store \<Longrightarrow>
    set_lock lk (\<lambda>l. l\<lparr>lkcpu := Some h\<rparr>) (on_hart h (ms m)) = Ok () t \<Longrightarrow>
    spin_step lk m (goto m h t In)"
| rel_holding: "pcs m h = In \<Longrightarrow> holding lk (on_hart h (ms m)) = Ok True t \<Longrightarrow>
    spin_step lk m (goto m h t R_cpu)"
| rel_not_holding: "pcs m h = In \<Longrightarrow> holding lk (on_hart h (ms m)) = Ok False t \<Longrightarrow>
    spin_step lk m (goto m h t Dead)"
| clear_cpu: "pcs m h = R_cpu \<Longrightarrow>
    set_lock lk (\<lambda>l. l\<lparr>lkcpu := None\<rparr>) (on_hart h (ms m)) = Ok () t \<Longrightarrow>
    spin_step lk m (goto m h t R_locked)"
| clear_locked: "pcs m h = R_locked \<Longrightarrow>
    set_lock lk (\<lambda>l. l\<lparr>locked := False\<rparr>) (on_hart h (ms m)) = Ok () t \<Longrightarrow>
    spin_step lk m (goto m h t R_pop)"
| leave: "pcs m h = R_pop \<Longrightarrow> pop_off (on_hart h (ms m)) = Ok () t \<Longrightarrow>
    spin_step lk m (goto m h t Out)"
| leave_panic: "pcs m h = R_pop \<Longrightarrow> pop_off (on_hart h (ms m)) = Panic e \<Longrightarrow>
    spin_step lk m (goto m h (ms m) Dead)"

inductive_cases spin_stepE: "spin_step lk m m'"

definition lock_start :: "lockid \<Rightarrow> msys \<Rightarrow> bool" where
  "lock_start lk m = (freelk lk (ms m) \<and> (\<forall>h. pcs m h = Out \<and> cpu_ok (on_hart h (ms m))))"

inductive reach :: "lockid \<Rightarrow> msys \<Rightarrow> bool" for lk where
  start: "lock_start lk m \<Longrightarrow> reach lk m"
| step: "reach lk m \<Longrightarrow> spin_step lk m m' \<Longrightarrow> reach lk m'"

text \<open>The program points at which a hart owns the lock.\<close>

definition owns :: "lpc \<Rightarrow> bool" where
  "owns p = (p \<in> {A_store, In, R_cpu, R_locked})"

text \<open>
  The invariant: an owner implies the lock is set and is unique; \<open>lk->cpu\<close> names a hart only between its
  two stores; a hart inside has interrupts off and a positive nesting depth; no hart is dead.
\<close>

definition mutex_inv :: "lockid \<Rightarrow> msys \<Rightarrow> bool" where
  "mutex_inv lk m =
    ((\<forall>h. owns (pcs m h) \<longrightarrow> locked (locks (ms m) lk)) \<and>
     (\<forall>h h'. owns (pcs m h) \<longrightarrow> owns (pcs m h') \<longrightarrow> h = h') \<and>
     (\<forall>h. pcs m h \<in> {In, R_cpu} \<longleftrightarrow> lkcpu (locks (ms m) lk) = Some h) \<and>
     (\<forall>h. pcs m h \<noteq> Dead \<and> cpu_ok (on_hart h (ms m))) \<and>
     (\<forall>h. pcs m h \<noteq> Out \<longrightarrow> 1 \<le> noff (cpus (ms m) h)))"

lemma push_off_Ok:
  "\<exists>t. push_off s = Ok () t \<and> hart t = hart s \<and> locks t = locks s
    \<and> (\<forall>k. k \<noteq> hart s \<longrightarrow> cpus t k = cpus s k \<and> sstatus t k = sstatus s k)
    \<and> noff (cpus t (hart s)) = noff (cpus s (hart s)) + 1 \<and> \<not> sie t"
  by (auto simp: spinlock_defs intr_defs kmon sie_def sie_off)

lemma pop_off_Ok:
  assumes "cpu_ok s" and "1 \<le> noff (cpus s (hart s))"
  shows "\<exists>t. pop_off s = Ok () t \<and> hart t = hart s \<and> locks t = locks s
    \<and> (\<forall>k. k \<noteq> hart s \<longrightarrow> cpus t k = cpus s k \<and> sstatus t k = sstatus s k) \<and> cpu_ok t"
  using assms by (auto simp: spinlock_defs intr_defs kmon sie_def cpu_ok_def)

lemma on_hart_select [simp]:
  "hart (on_hart h s) = h" "cpus (on_hart h s) = cpus s" "sstatus (on_hart h s) = sstatus s"
  "locks (on_hart h s) = locks s" "on_hart h (on_hart k s) = on_hart h s"
  by (simp_all add: on_hart_def)

lemma goto_select [simp]: "ms (goto m h s p) = s" "pcs (goto m h s p) = (pcs m)(h := p)"
  by (simp_all add: goto_def)

lemma owns_simps [simp]:
  "owns A_store" "owns In" "owns R_cpu" "owns R_locked" "\<not> owns Out" "\<not> owns A_locked"
  "\<not> owns A_cpu" "\<not> owns A_swap" "\<not> owns R_pop" "\<not> owns Dead"
  by (simp_all add: owns_def)

lemma cpu_ok_on_hart: "cpu_ok (on_hart h s) \<longleftrightarrow>
    0 \<le> noff (cpus s h) \<and> (noff (cpus s h) \<noteq> 0 \<longrightarrow> sstatus s h AND SSTATUS_SIE = 0)"
  by (simp add: cpu_ok_def sie_def)

lemma enter_inv:
  assumes inv: "mutex_inv lk m" and "pcs m h = Out" and "push_off (on_hart h (ms m)) = Ok () t"
  shows "mutex_inv lk (goto m h t A_locked)"
proof -
  from assms push_off_Ok[of "on_hart h (ms m)"]
  have t: "locks t = locks (ms m)" "hart t = h"
    "\<And>k. k \<noteq> h \<Longrightarrow> cpus t k = cpus (ms m) k \<and> sstatus t k = sstatus (ms m) k"
    "noff (cpus t h) = noff (cpus (ms m) h) + 1" "\<not> sie t"
    by auto
  have "cpu_ok (on_hart k t)" for k
    using inv t by (cases "k = h") (auto simp: mutex_inv_def cpu_ok_on_hart sie_def)
  moreover have "1 \<le> noff (cpus t k)" if "k = h \<or> pcs m k \<noteq> Out" for k
    using that inv t by (cases "k = h") (auto simp: mutex_inv_def cpu_ok_on_hart)
  ultimately show ?thesis
    using inv assms(2) t(1) unfolding mutex_inv_def by (simp, metis lpc.distinct)
qed

lemma leave_inv:
  assumes inv: "mutex_inv lk m" and "pcs m h = R_pop" and "pop_off (on_hart h (ms m)) = Ok () t"
  shows "mutex_inv lk (goto m h t Out)"
proof -
  have "cpu_ok (on_hart h (ms m))" "1 \<le> noff (cpus (on_hart h (ms m)) h)"
    using inv assms(2) by (auto simp: mutex_inv_def)
  with assms(3) pop_off_Ok[of "on_hart h (ms m)"]
  have t: "locks t = locks (ms m)" "hart t = h"
    "\<And>k. k \<noteq> h \<Longrightarrow> cpus t k = cpus (ms m) k \<and> sstatus t k = sstatus (ms m) k" "cpu_ok t"
    by auto
  have "cpu_ok (on_hart k t)" for k
    using inv t by (cases "k = h") (auto simp: mutex_inv_def cpu_ok_on_hart cpu_ok_def sie_def)
  moreover have "1 \<le> noff (cpus t k)" if "k \<noteq> h" "pcs m k \<noteq> Out" for k
    using that inv t by (auto simp: mutex_inv_def)
  ultimately show ?thesis
    using inv assms(2) t(1) unfolding mutex_inv_def by (simp, metis lpc.distinct)
qed

text \<open>The steps that touch the lock only: the machine registers of no hart change.\<close>

lemma lock_step_inv:
  assumes inv: "mutex_inv lk m"
    and t: "cpus t = cpus (ms m)" "sstatus t = sstatus (ms m)"
    and "pcs m h \<noteq> Out" and "p \<noteq> Dead"
    and own: "owns p \<longrightarrow> locked (locks t lk)"
      "owns p \<longrightarrow> owns (pcs m h) \<or> (\<forall>k. \<not> owns (pcs m k))"
      "\<And>k. k \<noteq> h \<Longrightarrow> owns (pcs m k) \<Longrightarrow> locked (locks t lk)"
    and cpu: "p \<in> {In, R_cpu} \<longleftrightarrow> lkcpu (locks t lk) = Some h"
      "\<And>k. k \<noteq> h \<Longrightarrow> pcs m k \<in> {In, R_cpu} \<longleftrightarrow> lkcpu (locks t lk) = Some k"
  shows "mutex_inv lk (goto m h t p)"
proof -
  have ok: "cpu_ok (on_hart k t)" for k
    using inv t by (simp add: mutex_inv_def cpu_ok_on_hart)
  have uniq: "k = k'" if "owns (((pcs m)(h := p)) k)" "owns (((pcs m)(h := p)) k')" for k k'
    using inv that own(2) unfolding mutex_inv_def by (auto split: if_splits)
  have lkd: "locked (locks t lk)" if "owns (((pcs m)(h := p)) k)" for k
    using that own(1,3) by (cases "k = h") auto
  have cp: "((pcs m)(h := p)) k \<in> {In, R_cpu} \<longleftrightarrow> lkcpu (locks t lk) = Some k" for k
    using cpu by (cases "k = h") auto
  have nf: "1 \<le> noff (cpus t k)" if "((pcs m)(h := p)) k \<noteq> Out" for k
    using inv that assms(4) t(1) by (cases "k = h") (auto simp: mutex_inv_def)
  have dead: "((pcs m)(h := p)) k \<noteq> Dead" for k
    using inv assms(5) by (simp add: mutex_inv_def)
  show ?thesis
    unfolding mutex_inv_def goto_select using uniq lkd cp nf ok dead by blast
qed

lemma inv_owner: "mutex_inv lk m \<Longrightarrow> owns (pcs m h) \<Longrightarrow> locked (locks (ms m) lk)"
  unfolding mutex_inv_def by blast

lemma inv_unique: "mutex_inv lk m \<Longrightarrow> owns (pcs m h) \<Longrightarrow> k \<noteq> h \<Longrightarrow> \<not> owns (pcs m k)"
  unfolding mutex_inv_def by blast

lemma inv_cpu: "mutex_inv lk m \<Longrightarrow> pcs m k \<in> {In, R_cpu} \<longleftrightarrow> lkcpu (locks (ms m) lk) = Some k"
  unfolding mutex_inv_def by blast

lemma not_owns_cpu: "\<not> owns p \<Longrightarrow> p \<notin> {In, R_cpu}"
  by auto

text \<open>A step of a hart that does not own the lock and leaves the lock's \<open>cpu\<close> field alone.\<close>

lemma outsider_inv:
  assumes inv: "mutex_inv lk m" and "\<not> owns (pcs m h)" "pcs m h \<noteq> Out" and "\<not> owns p" "p \<noteq> Dead"
    and "cpus t = cpus (ms m)" "sstatus t = sstatus (ms m)" "lkcpu (locks t lk) = lkcpu (locks (ms m) lk)"
    and "locked (locks (ms m) lk) \<longrightarrow> locked (locks t lk)"
  shows "mutex_inv lk (goto m h t p)"
proof (rule lock_step_inv[OF inv])
  show "p \<in> {In, R_cpu} \<longleftrightarrow> lkcpu (locks t lk) = Some h"
    using not_owns_cpu[OF assms(2)] not_owns_cpu[OF assms(4)] inv_cpu[OF inv, of h] assms(8) by metis
  show "pcs m k \<in> {In, R_cpu} \<longleftrightarrow> lkcpu (locks t lk) = Some k" for k
    using inv_cpu[OF inv] assms(8) by metis
  show "locked (locks t lk)" if "owns (pcs m k)" for k
    using inv_owner[OF inv that] assms(9) by simp
qed (use assms in simp_all)

text \<open>A step of the owner, or of a hart that takes the free lock: nobody else owns it.\<close>

lemma owner_inv:
  assumes inv: "mutex_inv lk m" and alone: "\<And>k. k \<noteq> h \<Longrightarrow> \<not> owns (pcs m k)"
    and "pcs m h \<noteq> Out" "p \<noteq> Dead" and "cpus t = cpus (ms m)" "sstatus t = sstatus (ms m)"
    and "owns p \<longrightarrow> locked (locks t lk)"
    and c: "lkcpu (locks t lk) = (if p \<in> {In, R_cpu} then Some h else None)"
  shows "mutex_inv lk (goto m h t p)"
proof (rule lock_step_inv[OF inv])
  show "p \<in> {In, R_cpu} \<longleftrightarrow> lkcpu (locks t lk) = Some h" using c by (simp split: if_splits)
  show "pcs m k \<in> {In, R_cpu} \<longleftrightarrow> lkcpu (locks t lk) = Some k" if "k \<noteq> h" for k
    using not_owns_cpu[OF alone[OF that]] c that by (simp split: if_splits)
  show "locked (locks t lk)" if "k \<noteq> h" "owns (pcs m k)" for k
    using alone that by blast
  show "owns p \<longrightarrow> owns (pcs m h) \<or> (\<forall>k. \<not> owns (pcs m k))"
    using alone by metis
qed (use assms in simp_all)

lemma set_lock_apply: "set_lock lk f s = Ok () (s\<lparr>locks := (locks s)(lk := f (locks s lk))\<rparr>)"
  by (simp add: set_lock_def kmon)

lemma on_hart_rest [simp]: "cpus (s\<lparr>locks := l\<rparr>) = cpus s" "sstatus (s\<lparr>locks := l\<rparr>) = sstatus s"
  by simp_all

lemma no_cpu_no_owner:
  assumes "mutex_inv lk m" "\<And>k. k \<noteq> h \<Longrightarrow> \<not> owns (pcs m k)" "pcs m h \<notin> {In, R_cpu}"
  shows "lkcpu (locks (ms m) lk) = None"
proof (cases "lkcpu (locks (ms m) lk)")
  case (Some k)
  then have "pcs m k \<in> {In, R_cpu}" using inv_cpu[OF assms(1)] by blast
  then show ?thesis using assms(2)[of k] assms(3) by (cases "k = h") auto
qed

lemma spin_step_inv: "spin_step lk m m' \<Longrightarrow> mutex_inv lk m \<Longrightarrow> mutex_inv lk m'"
proof (induction rule: spin_step.induct)
  case (enter m h t)
  then show ?case by (blast intro: enter_inv)
next
  case (test_self m h)
  then show ?case using inv_cpu[of lk m h] by simp
next
  case (swap_lose m h t)
  then show ?case
    by (intro outsider_inv) (auto simp: test_and_set_def set_lock_def kmon)
next
  case (swap_win m h t)
  then have free: "\<not> locked (locks (ms m) lk)" by (auto simp: test_and_set_def set_lock_def kmon)
  then have alone: "\<not> owns (pcs m k)" for k using inv_owner[OF swap_win.prems] by blast
  have none: "lkcpu (locks (ms m) lk) = None"
    using no_cpu_no_owner[OF swap_win.prems, of h] alone swap_win.hyps(1) by simp
  from swap_win.hyps(2) have "t = (on_hart h (ms m))\<lparr>locks := (locks (ms m))(lk := (locks (ms m) lk)\<lparr>locked := True\<rparr>)\<rparr>"
    by (simp add: test_and_set_def set_lock_def kmon)
  with swap_win.prems swap_win.hyps(1) alone none show ?case
    by (intro owner_inv) simp_all
next
  case (store_cpu m h t)
  then show ?case using inv_owner[of lk m h] inv_unique[of lk m h]
    by (intro owner_inv) (auto simp: set_lock_apply)
next
  case (rel_holding m h t)
  then have "t = on_hart h (ms m)" by (simp add: holding_def cpuid_def kmon)
  with rel_holding show ?case using inv_owner[of lk m h] inv_unique[of lk m h] inv_cpu[of lk m h]
    by (intro owner_inv) simp_all
next
  case (rel_not_holding m h t)
  then show ?case using inv_owner[of lk m h] inv_cpu[of lk m h]
    by (simp add: holding_def cpuid_def kmon)
next
  case (clear_cpu m h t)
  then show ?case using inv_owner[of lk m h] inv_unique[of lk m h]
    by (intro owner_inv) (auto simp: set_lock_apply)
next
  case (clear_locked m h t)
  then have "lkcpu (locks (ms m) lk) = None"
    using inv_unique[of lk m h] by (intro no_cpu_no_owner[of lk m h]) simp_all
  with clear_locked show ?case using inv_unique[of lk m h]
    by (intro owner_inv) (auto simp: set_lock_apply)
next
  case (leave m h t)
  then show ?case by (blast intro: leave_inv)
next
  case (leave_panic m h e)
  then have "cpu_ok (on_hart h (ms m))" "1 \<le> noff (cpus (on_hart h (ms m)) h)"
    by (auto simp: mutex_inv_def)
  with leave_panic pop_off_Ok[of "on_hart h (ms m)"] show ?case by auto
qed (rule outsider_inv, assumption, simp_all)+

lemma start_inv: "lock_start lk m \<Longrightarrow> mutex_inv lk m"
  by (auto simp: lock_start_def mutex_inv_def freelk_def)

lemma reach_inv: "reach lk m \<Longrightarrow> mutex_inv lk m"
  by (induction rule: reach.induct) (auto intro: start_inv spin_step_inv)

section \<open>Theorems\<close>

text \<open>
  C8: Mutual exclusion. However the statements of \<open>acquire\<close> and \<open>release\<close> run by any number
  of harts interleave, no two harts own the lock at the same time.
\<close>

theorem spinlock_mutual_exclusion:
  assumes "reach lk m" and "owns (pcs m h)" and "owns (pcs m k)"
  shows "h = k"
  using reach_inv[OF assms(1)] assms(2,3) unfolding mutex_inv_def by blast

text \<open>The run in which hart 0 takes the free lock \<open>kmem.lock\<close> of the boot state.\<close>

definition demo_start :: msys where
  "demo_start = \<lparr>ms = boot_state 0 0 0 (\<lambda>_ _. 0), pcs = (\<lambda>_. Out)\<rparr>"

definition demo_owner :: msys where
  "demo_owner = goto demo_start 0 (acq KmemLock (ms demo_start)) In"

lemma goto_goto [simp]: "goto (goto m h s p) h s' p' = goto m h s' p'"
  by (simp add: goto_def)

lemma reach_steps: "(spin_step lk)\<^sup>*\<^sup>* m m' \<Longrightarrow> reach lk m \<Longrightarrow> reach lk m'"
  by (induction rule: rtranclp_induct) (auto intro: reach.step)

lemma on_hart_hart [simp]: "hart s = h \<Longrightarrow> on_hart h s = s"
  by (simp add: on_hart_def)

text \<open>
  \<open>hart_next\<close>: the statement at which hart \<open>h\<close> stands, run in the state \<open>s\<close>; the result is the new state and where the hart is then.
\<close>

definition hart_next :: "lockid \<Rightarrow> nat \<Rightarrow> kstate \<Rightarrow> lpc \<Rightarrow> (kstate \<times> lpc) option" where
  "hart_next lk h s p = (case p of
     Out \<Rightarrow> (case push_off s of Ok _ t \<Rightarrow> Some (t, A_locked) | _ \<Rightarrow> None)
   | A_locked \<Rightarrow> Some (s, if locked (locks s lk) then A_cpu else A_swap)
   | A_cpu \<Rightarrow> Some (s, if lkcpu (locks s lk) = Some h then Dead else A_swap)
   | A_swap \<Rightarrow> (case test_and_set lk s of Ok old t \<Rightarrow> Some (t, if old then A_swap else A_store) | _ \<Rightarrow> None)
   | A_store \<Rightarrow> (case set_lock lk (\<lambda>l. l\<lparr>lkcpu := Some h\<rparr>) s of Ok _ t \<Rightarrow> Some (t, In) | _ \<Rightarrow> None)
   | In \<Rightarrow> (case holding lk s of Ok b t \<Rightarrow> Some (t, if b then R_cpu else Dead) | _ \<Rightarrow> None)
   | R_cpu \<Rightarrow> (case set_lock lk (\<lambda>l. l\<lparr>lkcpu := None\<rparr>) s of Ok _ t \<Rightarrow> Some (t, R_locked) | _ \<Rightarrow> None)
   | R_locked \<Rightarrow> (case set_lock lk (\<lambda>l. l\<lparr>locked := False\<rparr>) s of Ok _ t \<Rightarrow> Some (t, R_pop) | _ \<Rightarrow> None)
   | R_pop \<Rightarrow> (case pop_off s of Ok _ t \<Rightarrow> Some (t, Out) | Panic _ \<Rightarrow> Some (s, Dead) | _ \<Rightarrow> None)
   | Dead \<Rightarrow> None)"

lemma hart_next_hart:
  assumes "hart_next lk h s p = Some (t, q)"
  shows "hart t = hart s"
  using assms push_off_Ok[of s]
  by (auto simp: hart_next_def holding_def test_and_set_def set_lock_def cpuid_def pop_off_def intr_defs kmon
      split: lpc.splits outcome.splits if_splits)

text \<open>
  The steps of one hart: \<open>hart_step lk P h\<close> is a step of \<open>spin_step\<close> that hart \<open>h\<close> takes from a point that satisfies \<open>P\<close>, while the other
  harts stay where they are. \<open>acquiring\<close> and \<open>releasing\<close> are the points at which a hart has statements of \<open>acquire\<close> and of \<open>release\<close> to run.
\<close>

definition hart_step :: "lockid \<Rightarrow> (lpc \<Rightarrow> bool) \<Rightarrow> nat \<Rightarrow> msys \<Rightarrow> msys \<Rightarrow> bool" where
  "hart_step lk P h m m' = (spin_step lk m m' \<and> P (pcs m h) \<and> hart (ms m) = h \<and> hart (ms m') = h \<and>
     (\<forall>k. k \<noteq> h \<longrightarrow> pcs m' k = pcs m k))"

definition acquiring :: "lpc \<Rightarrow> bool" where
  "acquiring p = (p \<in> {Out, A_locked, A_cpu, A_swap, A_store})"

definition releasing :: "lpc \<Rightarrow> bool" where
  "releasing p = (p \<in> {In, R_cpu, R_locked, R_pop})"

lemma hart_step_next:
  assumes "hart_step lk P h m m'"
  shows "\<exists>t p. hart_next lk h (ms m) (pcs m h) = Some (t, p) \<and> m' = goto m h t p"
proof -
  have s: "spin_step lk m m'" "hart (ms m) = h" "hart (ms m') = h" "\<forall>k. k \<noteq> h \<longrightarrow> pcs m' k = pcs m k"
    using assms by (simp_all add: hart_step_def)
  have mv: "k = h" if "m' = goto m k t p" "pcs m k \<noteq> p" for k t p using s(4) that by (metis fun_upd_same goto_select(2))
  from s(1) show ?thesis
  proof (cases rule: spin_step.cases)
    case (swap_lose k t)
    then have "hart t = k" by (auto simp: test_and_set_def set_lock_def kmon)
    then have "k = h" using swap_lose s(3) by simp
    then show ?thesis using swap_lose s(2) by (simp add: hart_next_def)
  qed (insert s(2), frule mv, simp, simp add: hart_next_def)+
qed

lemma next_spin_step:
  assumes "hart_next lk h (ms m) (pcs m h) = Some (t, p)" "hart (ms m) = h"
  shows "spin_step lk m (goto m h t p)"
  using assms
  by (cases "pcs m h") (auto simp: hart_next_def intro: spin_step.intros split: outcome.splits if_splits)

lemma hart_step_goto:
  assumes "hart_next lk h s p = Some (t, q)" "P p" "hart s = h"
  shows "hart_step lk P h (goto m h s p) (goto m h t q)"
  using next_spin_step[of lk h "goto m h s p" t q] hart_next_hart[OF assms(1)] assms by (simp add: hart_step_def)

lemma hart_step_det: "hart_step lk P h m a \<Longrightarrow> hart_step lk P h m b \<Longrightarrow> a = b"
  by (drule hart_step_next)+ auto

lemma hart_step_stuck: "\<not> P p \<Longrightarrow> \<not> hart_step lk P h (goto m h t p) x"
  by (simp add: hart_step_def)

text \<open>The runs of a deterministic step: any two from one state lie on one line, so a run that has ended decides every other.\<close>

lemma det_runs:
  assumes det: "\<And>x y z. R x y \<Longrightarrow> R x z \<Longrightarrow> y = z" and "R\<^sup>*\<^sup>* a b" "R\<^sup>*\<^sup>* a c"
  shows "R\<^sup>*\<^sup>* b c \<or> R\<^sup>*\<^sup>* c b"
  using assms(2,3)
proof (induction rule: converse_rtranclp_induct)
  case (step x y)
  from step.prems show ?case
  proof (cases rule: converse_rtranclpE)
    case base
    then show ?thesis using step.hyps converse_rtranclp_into_rtranclp[of R x y b] by blast
  next
    case (step z)
    then show ?thesis using det[OF \<open>R x y\<close> step(1)] \<open>R\<^sup>*\<^sup>* y c \<Longrightarrow> R\<^sup>*\<^sup>* b c \<or> R\<^sup>*\<^sup>* c b\<close> by simp
  qed
qed simp

lemma stuck_run: "R\<^sup>*\<^sup>* b c \<Longrightarrow> (\<And>x. \<not> R b x) \<Longrightarrow> c = b"
  by (erule converse_rtranclpE) auto

lemma loop_run: "R\<^sup>*\<^sup>* l c \<Longrightarrow> (\<And>x. R l x \<Longrightarrow> x = l) \<Longrightarrow> c = l"
  by (induction rule: rtranclp_induct) auto

lemma goto_eq [simp]: "goto m h t p = goto m h u q \<longleftrightarrow> t = u \<and> p = q"
  by (metis fun_upd_same goto_select)

lemma hart_ends:
  assumes "(hart_step lk P h)\<^sup>*\<^sup>* m (goto m h t p)" "\<not> P p" "(hart_step lk P h)\<^sup>*\<^sup>* m (goto m h u q)"
    and "\<not> P q \<or> hart_step lk P h (goto m h u q) (goto m h u q)"
  shows "u = t \<and> q = p"
proof -
  let ?R = "hart_step lk P h" and ?a = "goto m h t p" and ?b = "goto m h u q"
  have st: "\<not> ?R ?a x" for x using hart_step_stuck[of P p] assms(2) by blast
  have "?R\<^sup>*\<^sup>* ?a ?b \<or> ?R\<^sup>*\<^sup>* ?b ?a" by (rule det_runs[OF _ assms(1,3)]) (rule hart_step_det)
  then have "?a = ?b"
  proof
    assume "?R\<^sup>*\<^sup>* ?a ?b"
    then show ?thesis by (rule stuck_run[symmetric]) (rule st)
  next
    assume r: "?R\<^sup>*\<^sup>* ?b ?a"
    from assms(4) show ?thesis
    proof
      assume "\<not> P q"
      then show ?thesis by (intro stuck_run[OF r] hart_step_stuck)
    next
      assume l: "?R ?b ?b"
      show ?thesis by (rule loop_run[OF r]) (rule hart_step_det[OF _ l])
    qed
  qed
  then show ?thesis by auto
qed

lemma hart_end_iff:
  assumes "(hart_step lk P h)\<^sup>*\<^sup>* m (goto m h t p)" "\<not> P p" "\<not> P q"
  shows "(hart_step lk P h)\<^sup>*\<^sup>* m (goto m h u q) \<longleftrightarrow> u = t \<and> q = p"
proof
  assume r: "(hart_step lk P h)\<^sup>*\<^sup>* m (goto m h u q)"
  show "u = t \<and> q = p" by (rule hart_ends[OF assms(1,2) r disjI1[OF assms(3)]])
qed (use assms(1) in simp)

lemma hart_end_loop:
  assumes "(hart_step lk P h)\<^sup>*\<^sup>* m (goto m h t p)" "\<not> P p" "(hart_step lk P h)\<^sup>*\<^sup>* m (goto m h u q)"
  shows "\<not> hart_step lk P h (goto m h u q) (goto m h u q)"
proof
  assume l: "hart_step lk P h (goto m h u q) (goto m h u q)"
  have "u = t \<and> q = p" by (rule hart_ends[OF assms(1-3) disjI2[OF l]])
  then show False using l hart_step_stuck[of P p lk h m t] assms(2) by simp
qed

lemma goto_self: "pcs m h = p \<Longrightarrow> goto m h (ms m) p = m"
  by (auto simp: goto_def)

lemmas next_defs = hart_next_def acquiring_def releasing_def

lemma locked_again: "locked (locks s lk) \<Longrightarrow> s\<lparr>locks := (locks s)(lk := (locks s lk)\<lparr>locked := True\<rparr>)\<rparr> = s"
  by (simp add: fun_upd_idem)

lemma acquire_runs:
  assumes out: "pcs m h = Out" and h: "hart (ms m) = h"
  obtains (ok) t where "acquire lk (ms m) = Ok () t" "(hart_step lk acquiring h)\<^sup>*\<^sup>* m (goto m h t In)"
  | (dead) t where "acquire lk (ms m) = Panic ''acquire''" "(hart_step lk acquiring h)\<^sup>*\<^sup>* m (goto m h t Dead)"
  | (spin) t where "acquire lk (ms m) = Hang ''acquire''" "(hart_step lk acquiring h)\<^sup>*\<^sup>* m (goto m h t A_swap)"
      "hart_step lk acquiring h (goto m h t A_swap) (goto m h t A_swap)"
proof -
  let ?R = "hart_step lk acquiring h"
  note more = rtranclp.rtrancl_into_rtrancl[of ?R]
  note st = hart_step_goto[where P = acquiring and m = m and lk = lk and h = h]
  obtain s1 where s1: "push_off (ms m) = Ok () s1" "hart s1 = h" "locks s1 = locks (ms m)"
    using push_off_Ok[of "ms m"] h by auto
  have e: "?R\<^sup>*\<^sup>* m (goto m h s1 A_locked)"
    using st[of "ms m" Out s1 A_locked] s1 h goto_self[OF out] by (simp add: next_defs r_into_rtranclp)
  show thesis
  proof (cases "locked (locks s1 lk)")
    case False
    let ?s2 = "s1\<lparr>locks := (locks s1)(lk := (locks s1 lk)\<lparr>locked := True\<rparr>)\<rparr>"
    let ?t = "?s2\<lparr>locks := (locks ?s2)(lk := (locks ?s2 lk)\<lparr>lkcpu := Some h\<rparr>)\<rparr>"
    have "?R (goto m h s1 A_locked) (goto m h s1 A_swap)" "?R (goto m h s1 A_swap) (goto m h ?s2 A_store)"
      "?R (goto m h ?s2 A_store) (goto m h ?t In)"
      by (rule st; use s1 False in \<open>simp add: next_defs test_and_set_def set_lock_def kmon\<close>)+
    moreover have "acquire lk (ms m) = Ok () ?t"
      using s1 False by (simp add: acquire_def holding_def test_and_set_def set_lock_def cpuid_def kmon)
    ultimately show thesis by (intro ok[of ?t] more[OF more[OF more[OF e]]])
  next
    case True
    have c: "?R\<^sup>*\<^sup>* m (goto m h s1 A_cpu)"
      by (rule more[OF e], rule st) (use s1 True in \<open>simp_all add: next_defs\<close>)
    show thesis
    proof (cases "lkcpu (locks s1 lk) = Some h")
      case True
      have "?R (goto m h s1 A_cpu) (goto m h s1 Dead)" by (rule st) (use s1 True in \<open>simp_all add: next_defs\<close>)
      moreover have "acquire lk (ms m) = Panic ''acquire''"
        using s1 True \<open>locked (locks s1 lk)\<close> h by (intro acquire_self) simp_all
      ultimately show thesis by (intro dead[of s1] more[OF c])
    next
      case False
      note same = locked_again[OF True]
      have "?R (goto m h s1 A_cpu) (goto m h s1 A_swap)" "?R (goto m h s1 A_swap) (goto m h s1 A_swap)"
        by (rule st; use s1 True False same in \<open>simp add: next_defs test_and_set_def set_lock_def kmon\<close>)+
      moreover have "acquire lk (ms m) = Hang ''acquire''"
        using s1 True False h by (intro acquire_contended) simp_all
      ultimately show thesis by (intro spin[of s1] more[OF c])
    qed
  qed
qed

lemma pop_off_cases: "(\<exists>t. pop_off s = Ok () t) \<or> (\<exists>e. pop_off s = Panic e)"
  by (simp add: spinlock_defs intr_defs kmon)

lemma release_runs:
  assumes pin: "pcs m h = In" and h: "hart (ms m) = h"
  obtains (ok) t where "release lk (ms m) = Ok () t" "(hart_step lk releasing h)\<^sup>*\<^sup>* m (goto m h t Out)"
  | (dead) e t where "release lk (ms m) = Panic e" "(hart_step lk releasing h)\<^sup>*\<^sup>* m (goto m h t Dead)"
proof -
  let ?R = "hart_step lk releasing h" and ?s0 = "ms m"
  let ?s1 = "?s0\<lparr>locks := (locks ?s0)(lk := (locks ?s0 lk)\<lparr>lkcpu := None\<rparr>)\<rparr>"
  let ?s2 = "?s1\<lparr>locks := (locks ?s1)(lk := (locks ?s1 lk)\<lparr>locked := False\<rparr>)\<rparr>"
  note more = rtranclp.rtrancl_into_rtrancl[of ?R]
  note st = hart_step_goto[where P = releasing and m = m and lk = lk and h = h]
  have m: "goto m h ?s0 In = m" by (rule goto_self[OF pin])
  show thesis
  proof (cases "locked (locks ?s0 lk) \<and> lkcpu (locks ?s0 lk) = Some h")
    case False
    then have "?R (goto m h ?s0 In) (goto m h ?s0 Dead)"
      by (intro st) (use h in \<open>auto simp: next_defs holding_def cpuid_def kmon\<close>)
    moreover have "release lk (ms m) = Panic ''release''" using False h by (intro release_not_holding) simp
    ultimately show thesis unfolding m by (intro dead r_into_rtranclp)
  next
    case True
    then have "?R (goto m h ?s0 In) (goto m h ?s0 R_cpu)" "?R (goto m h ?s0 R_cpu) (goto m h ?s1 R_locked)"
      "?R (goto m h ?s1 R_locked) (goto m h ?s2 R_pop)"
      by - (rule st; use h in \<open>simp add: next_defs holding_def cpuid_def set_lock_def kmon\<close>)+
    then have p: "?R\<^sup>*\<^sup>* m (goto m h ?s2 R_pop)" unfolding m by (intro more[OF more[OF r_into_rtranclp]])
    have r: "release lk (ms m) = pop_off ?s2" using True h by (simp add: release_def holding_def cpuid_def set_lock_def kmon)
    consider t where "pop_off ?s2 = Ok () t" | e where "pop_off ?s2 = Panic e"
      using pop_off_cases by blast
    then show thesis
    proof cases
      case (1 t)
      have "?R (goto m h ?s2 R_pop) (goto m h t Out)" by (rule st) (use 1 h in \<open>simp_all add: next_defs\<close>)
      then show thesis using r 1 by (intro ok[of t] more[OF p]) simp_all
    next
      case (2 e)
      have "?R (goto m h ?s2 R_pop) (goto m h ?s2 Dead)" by (rule st) (use 2 h in \<open>simp_all add: next_defs\<close>)
      then show thesis using r 2 by (intro dead[of e ?s2] more[OF p]) simp_all
    qed
  qed
qed

lemma acquire_by_steps:
  assumes "pcs m h = Out" "hart (ms m) = h" "acquire lk (ms m) = Ok () t"
  shows "(spin_step lk)\<^sup>*\<^sup>* m (goto m h t In)"
proof -
  have "(hart_step lk acquiring h)\<^sup>*\<^sup>* m (goto m h t In)" by (rule acquire_runs[OF assms(1,2), of lk]) (use assms(3) in auto)
  then show ?thesis by (rule rtranclp_mono[THEN predicate2D, rotated]) (auto simp: hart_step_def)
qed

lemma demo_reach: "reach KmemLock demo_start" "reach KmemLock demo_owner"
proof -
  show 1: "reach KmemLock demo_start"
    by (rule reach.start) (simp add: lock_start_def demo_start_def cpu_ok_on_hart boot_state_def
        freelk_def zero_spinlock_def)
  have "(spin_step KmemLock)\<^sup>*\<^sup>* demo_start demo_owner"
    unfolding demo_owner_def
    by (rule acquire_by_steps) (simp_all add: demo_start_def, simp add: boot_state_def)
  with 1 show "reach KmemLock demo_owner" by (blast intro: reach_steps)
qed

theorem spinlock_mutual_exclusion_witness:
  "reach KmemLock demo_owner \<and> {h. owns (pcs demo_owner h)} = {0}"
proof -
  have 0: "owns (pcs demo_owner 0)" by (simp add: demo_owner_def)
  then have "{h. owns (pcs demo_owner h)} = {0}"
    using spinlock_mutual_exclusion[OF demo_reach(2) _ 0] by auto
  then show ?thesis using demo_reach(2) by simp
qed

text \<open>
  C14: No false alarm. In no interleaving does a hart that uses the lock correctly panic: the unlocked
  read of \<open>lk->cpu\<close> in \<open>holding\<close> never mistakes another hart's lock for its own, \<open>release\<close> never
  finds its own lock missing, and \<open>pop_off\<close> never finds interrupts on or its count at zero.
\<close>

theorem spinlock_no_panic:
  assumes "reach lk m"
  shows "pcs m h \<noteq> Dead"
  using reach_inv[OF assms] unfolding mutex_inv_def by blast

theorem spinlock_no_panic_witness: "reach KmemLock demo_owner \<and> pcs demo_owner 3 \<noteq> Dead"
  using spinlock_no_panic[OF demo_reach(2), of 3] demo_reach(2) by simp

text \<open>
  C15: The functions \<open>acquire\<close> and \<open>release\<close> do exactly what the statement steps of one hart do when no other hart moves. \<open>acquire\<close>
  returns with state \<open>t\<close> if and only if the steps lead into the critical section with that state; it panics if and only if they
  lead to the panic of \<open>holding\<close>; it hangs if and only if they lead to the swap, and the swap leads only back to itself. \<open>release\<close> returns with
  state \<open>t\<close> if and only if the steps lead out with that state, and panics if and only if they lead to one of its panics.
\<close>

theorem lock_code_refines_steps:
  assumes "hart (ms m) = h"
  shows "(pcs m h = Out \<longrightarrow>
       (\<forall>t. acquire lk (ms m) = Ok () t \<longleftrightarrow> (hart_step lk acquiring h)\<^sup>*\<^sup>* m (goto m h t In)) \<and>
       (acquire lk (ms m) = Panic ''acquire'' \<longleftrightarrow> (\<exists>t. (hart_step lk acquiring h)\<^sup>*\<^sup>* m (goto m h t Dead))) \<and>
       (acquire lk (ms m) = Hang ''acquire'' \<longleftrightarrow> (\<exists>t. (hart_step lk acquiring h)\<^sup>*\<^sup>* m (goto m h t A_swap) \<and>
          hart_step lk acquiring h (goto m h t A_swap) (goto m h t A_swap)))) \<and>
     (pcs m h = In \<longrightarrow>
       (\<forall>t. release lk (ms m) = Ok () t \<longleftrightarrow> (hart_step lk releasing h)\<^sup>*\<^sup>* m (goto m h t Out)) \<and>
       ((\<exists>e. release lk (ms m) = Panic e) \<longleftrightarrow> (\<exists>t. (hart_step lk releasing h)\<^sup>*\<^sup>* m (goto m h t Dead))))"
proof (rule conjI; rule impI)
  let ?R = "hart_step lk acquiring h"
  have nA: "\<not> acquiring In" "\<not> acquiring Dead" by (simp_all add: acquiring_def)
  assume o: "pcs m h = Out"
  show "(\<forall>t. acquire lk (ms m) = Ok () t \<longleftrightarrow> ?R\<^sup>*\<^sup>* m (goto m h t In)) \<and>
    (acquire lk (ms m) = Panic ''acquire'' \<longleftrightarrow> (\<exists>t. ?R\<^sup>*\<^sup>* m (goto m h t Dead))) \<and>
    (acquire lk (ms m) = Hang ''acquire'' \<longleftrightarrow> (\<exists>t. ?R\<^sup>*\<^sup>* m (goto m h t A_swap) \<and> ?R (goto m h t A_swap) (goto m h t A_swap)))"
  proof (rule acquire_runs[OF o assms, of lk])
    fix t assume ok: "acquire lk (ms m) = Ok () t" "?R\<^sup>*\<^sup>* m (goto m h t In)"
    then show ?thesis using hart_end_loop[OF ok(2) nA(1)] by (simp add: hart_end_iff[OF ok(2) nA(1)] nA, blast)
  next
    fix t assume dead: "acquire lk (ms m) = Panic ''acquire''" "?R\<^sup>*\<^sup>* m (goto m h t Dead)"
    then show ?thesis using hart_end_loop[OF dead(2) nA(2)] by (simp add: hart_end_iff[OF dead(2) nA(2)] nA)
  next
    fix t assume spin: "acquire lk (ms m) = Hang ''acquire''" "?R\<^sup>*\<^sup>* m (goto m h t A_swap)" "?R (goto m h t A_swap) (goto m h t A_swap)"
    have "\<not> ?R\<^sup>*\<^sup>* m (goto m h u p)" if "\<not> acquiring p" for u p using hart_end_loop[OF _ that spin(2)] spin(3) by blast
    then show ?thesis using spin nA by (simp, blast)
  qed
next
  let ?R = "hart_step lk releasing h"
  have nB: "\<not> releasing Out" "\<not> releasing Dead" by (simp_all add: releasing_def)
  assume o: "pcs m h = In"
  show "(\<forall>t. release lk (ms m) = Ok () t \<longleftrightarrow> ?R\<^sup>*\<^sup>* m (goto m h t Out)) \<and>
    ((\<exists>e. release lk (ms m) = Panic e) \<longleftrightarrow> (\<exists>t. ?R\<^sup>*\<^sup>* m (goto m h t Dead)))"
  proof (rule release_runs[OF o assms, of lk])
    fix t assume ok: "release lk (ms m) = Ok () t" "?R\<^sup>*\<^sup>* m (goto m h t Out)"
    then show ?thesis by (auto simp: hart_end_iff[OF ok(2) nB(1)] nB)
  next
    fix e t assume dead: "release lk (ms m) = Panic e" "?R\<^sup>*\<^sup>* m (goto m h t Dead)"
    then show ?thesis by (simp add: hart_end_iff[OF dead(2) nB(2)] nB)
  qed
qed

theorem lock_code_refines_steps_witness:
  "(hart_step KmemLock acquiring 0)\<^sup>*\<^sup>* demo_start (goto demo_start 0 (acq KmemLock (ms demo_start)) In) \<and>
   (hart_step KmemLock releasing 0)\<^sup>*\<^sup>* demo_owner (goto demo_owner 0 (sync (ms demo_start)) Out) \<and>
   (\<exists>t. (hart_step KmemLock acquiring 0)\<^sup>*\<^sup>* (goto demo_owner 0 (ms demo_owner) Out) (goto demo_owner 0 t Dead))"
proof -
  let ?m = "goto demo_owner 0 (ms demo_owner) Out"
  have h: "hart (ms demo_start) = 0" "hart (ms demo_owner) = 0" "hart (ms ?m) = 0"
    by (simp_all add: demo_start_def demo_owner_def, simp_all add: boot_state_def)
  have "acquire KmemLock (ms demo_start) = Ok () (acq KmemLock (ms demo_start))"
    "release KmemLock (ms demo_owner) = Ok () (sync (ms demo_start))"
    by (simp_all add: demo_start_def demo_owner_def)
  moreover have "acquire KmemLock (ms ?m) = Panic ''acquire''"
    by (rule acquire_self) (use h(1) in \<open>simp_all add: demo_owner_def acq_def\<close>)
  moreover have "pcs demo_start 0 = Out" "pcs demo_owner 0 = In" "pcs ?m 0 = Out" by (simp_all add: demo_start_def demo_owner_def)
  ultimately show ?thesis
    using lock_code_refines_steps[OF h(1), of KmemLock] lock_code_refines_steps[OF h(2), of KmemLock]
      lock_code_refines_steps[OF h(3), of KmemLock] by simp
qed

end
