(* ===== verification/Cstring.thy ===== *)
theory Cstring
  imports Prelude
begin

text \<open>
  The memory and string functions of \<^verbatim>\<open>string.c\<close>. Functions that write take the memory they write and
  return it changed: physical memory is indexed by addresses (\<^typ>\<open>u64\<close>), a buffer by its
  index (\<^typ>\<open>nat\<close>). A pointer that is only read is the view \<open>\<lambda>i. p[i]\<close>. Bytes are
  compared as \<open>uchar\<close>, as the code does.
\<close>

section \<open>Blocks of memory\<close>

definition memset :: "('i::semiring_1 \<Rightarrow> byte) \<Rightarrow> 'i \<Rightarrow> byte \<Rightarrow> nat \<Rightarrow> ('i \<Rightarrow> byte)" where
  "memset m dst c n = fold (\<lambda>i m. m(dst + of_nat i := c)) [0..<n] m"

fun memcmp :: "(nat \<Rightarrow> byte) \<Rightarrow> (nat \<Rightarrow> byte) \<Rightarrow> nat \<Rightarrow> int" where
  "memcmp s1 s2 0 = 0"
| "memcmp s1 s2 (Suc n) =
     (if s1 0 \<noteq> s2 0 then uint (s1 0) - uint (s2 0)
      else memcmp (\<lambda>i. s1 (Suc i)) (\<lambda>i. s2 (Suc i)) n)"

text \<open>
  \<open>memmove\<close> copies from the end when the source starts below the destination and reaches into it,
  from the start otherwise; each byte is read after the earlier ones are written.
\<close>

definition copy_loop :: "('i \<Rightarrow> byte) \<Rightarrow> (nat \<Rightarrow> 'i) \<Rightarrow> (nat \<Rightarrow> 'i) \<Rightarrow> nat list \<Rightarrow> ('i \<Rightarrow> byte)" where
  "copy_loop m d s is = fold (\<lambda>i m. m(d i := m (s i))) is m"

definition memmove :: "('i::{semiring_1, ord} \<Rightarrow> byte) \<Rightarrow> 'i \<Rightarrow> 'i \<Rightarrow> nat \<Rightarrow> ('i \<Rightarrow> byte)" where
  "memmove m dst src n =
     (if n = 0 then m
      else if src < dst \<and> dst < src + of_nat n
      then copy_loop m (\<lambda>i. dst + of_nat i) (\<lambda>i. src + of_nat i) (rev [0..<n])
      else copy_loop m (\<lambda>i. dst + of_nat i) (\<lambda>i. src + of_nat i) [0..<n])"

definition memcpy :: "('i::{semiring_1, ord} \<Rightarrow> byte) \<Rightarrow> 'i \<Rightarrow> 'i \<Rightarrow> nat \<Rightarrow> ('i \<Rightarrow> byte)" where
  "memcpy m dst src n = memmove m dst src n"

section \<open>Strings\<close>

fun strncmp :: "(nat \<Rightarrow> byte) \<Rightarrow> (nat \<Rightarrow> byte) \<Rightarrow> nat \<Rightarrow> int" where
  "strncmp p q 0 = 0"
| "strncmp p q (Suc n) =
     (if p 0 \<noteq> 0 \<and> p 0 = q 0 then strncmp (\<lambda>i. p (Suc i)) (\<lambda>i. q (Suc i)) n
      else uint (p 0) - uint (q 0))"

text \<open>
  \<open>strncpy\<close> is two loops: the first copies up to and including the terminator, the second
  fills what is left of the \<open>n\<close> bytes with zeros. \<open>i\<close> is how far \<open>s\<close> and \<open>t\<close> have moved.
\<close>

fun strncpy_pad :: "(nat \<Rightarrow> byte) \<Rightarrow> nat \<Rightarrow> nat \<Rightarrow> (nat \<Rightarrow> byte)" where
  "strncpy_pad s i 0 = s"
| "strncpy_pad s i (Suc n) = strncpy_pad (s(i := 0)) (Suc i) n"

fun strncpy_copy :: "(nat \<Rightarrow> byte) \<Rightarrow> (nat \<Rightarrow> byte) \<Rightarrow> nat \<Rightarrow> nat \<Rightarrow> (nat \<Rightarrow> byte)" where
  "strncpy_copy s t i 0 = s"
| "strncpy_copy s t i (Suc n) =
     (if t i \<noteq> 0 then strncpy_copy (s(i := t i)) t (Suc i) n
      else strncpy_pad (s(i := t i)) (Suc i) n)"

definition strncpy :: "(nat \<Rightarrow> byte) \<Rightarrow> (nat \<Rightarrow> byte) \<Rightarrow> int \<Rightarrow> (nat \<Rightarrow> byte)" where
  "strncpy s t n = strncpy_copy s t 0 (nat n)"

fun safestrcpy_loop :: "(nat \<Rightarrow> byte) \<Rightarrow> (nat \<Rightarrow> byte) \<Rightarrow> nat \<Rightarrow> nat \<Rightarrow> (nat \<Rightarrow> byte)" where
  "safestrcpy_loop s t i 0 = s(i := 0)"
| "safestrcpy_loop s t i (Suc n) =
     (if t i \<noteq> 0 then safestrcpy_loop (s(i := t i)) t (Suc i) n
      else (s(i := t i))(Suc i := 0))"

definition safestrcpy :: "(nat \<Rightarrow> byte) \<Rightarrow> (nat \<Rightarrow> byte) \<Rightarrow> int \<Rightarrow> (nat \<Rightarrow> byte)" where
  "safestrcpy s t n = (if n \<le> 0 then s else safestrcpy_loop s t 0 (nat (n - 1)))"

partial_function (option) strlen_loop :: "(nat \<Rightarrow> byte) \<Rightarrow> nat \<Rightarrow> nat option" where
  "strlen_loop s n = (if s n = 0 then Some n else strlen_loop s (Suc n))"

definition strlen :: "(nat \<Rightarrow> byte) \<Rightarrow> nat option" where
  "strlen s = strlen_loop s 0"

section \<open>Lemmas\<close>

text \<open>The view of a pointer to the string whose bytes before the terminator are \<open>xs\<close>.\<close>

definition cstr :: "byte list \<Rightarrow> nat \<Rightarrow> byte" where
  "cstr xs i = (if i < length xs then xs ! i else 0)"

lemma cstr_simps [simp]: "cstr [] i = 0" "cstr (x # xs) 0 = x" "cstr (x # xs) (Suc i) = cstr xs i"
  by (simp_all add: cstr_def)

lemma cstr_shift [simp]: "(\<lambda>i. cstr (x # xs) (Suc i)) = cstr xs"
  by (rule ext) simp

lemma memset_apply:
  "memset m dst c n = (\<lambda>a. if \<exists>i<n. a = dst + of_nat i then c else m a)"
proof (induction n)
  case 0
  then show ?case by (simp add: memset_def)
next
  case (Suc n)
  then show ?case by (auto simp: memset_def fun_eq_iff less_Suc_eq)
qed

lemma copy_loop_other: "(\<And>i. i \<in> set is \<Longrightarrow> a \<noteq> d i) \<Longrightarrow> copy_loop m d s is a = m a"
proof (induction "is" arbitrary: m)
  case (Cons i "is")
  then have "copy_loop (m(d i := m (s i))) d s is a = (m(d i := m (s i))) a"
    by (intro Cons.IH) auto
  with Cons.prems show ?case by (simp add: copy_loop_def)
qed (simp add: copy_loop_def)

text \<open>
  A copying loop behaves as a simultaneous copy when no byte is written before it is read: in the order of the list,
  no earlier destination is a later source.
\<close>

lemma copy_loop_apply:
  assumes "sorted_wrt (\<lambda>i j. d i \<noteq> d j \<and> d i \<noteq> s j) is" and "k \<in> set is"
  shows "copy_loop m d s is (d k) = m (s k)"
  using assms
proof (induction "is" arbitrary: m)
  case (Cons i "is")
  let ?m = "m(d i := m (s i))"
  show ?case
  proof (cases "k = i")
    case True
    have "copy_loop ?m d s is (d i) = ?m (d i)"
      by (rule copy_loop_other) (use Cons.prems in auto)
    with True show ?thesis by (simp add: copy_loop_def)
  next
    case False
    with Cons have "copy_loop ?m d s is (d k) = ?m (s k)" by simp
    with False Cons.prems show ?thesis by (auto simp: copy_loop_def)
  qed
qed simp

lemma u64_offset: "unat (p :: u64) + n \<le> 2 ^ 64 \<Longrightarrow> i < n \<Longrightarrow> unat (p + of_nat i) = unat p + i"
  by (simp add: unat_word_ariths unat_of_nat)

lemma strncpy_pad_apply: "strncpy_pad s i n j = (if i \<le> j \<and> j < i + n then 0 else s j)"
  by (induction n arbitrary: s i) auto

text \<open>The first \<open>n\<close> bytes of a string, the terminator and everything after it read as zero.\<close>

definition upto_nul :: "(nat \<Rightarrow> byte) \<Rightarrow> nat \<Rightarrow> byte" where
  "upto_nul t i = (if \<exists>j\<le>i. t j = 0 then 0 else t i)"

lemma strncpy_copy_apply:
  assumes "\<forall>k<i. t k \<noteq> 0"
  shows "strncpy_copy s t i n j = (if i \<le> j \<and> j < i + n then upto_nul t j else s j)"
  using assms
proof (induction n arbitrary: s i)
  case (Suc n)
  show ?case
  proof (cases "t i = 0")
    case True
    then show ?thesis by (auto simp: strncpy_pad_apply upto_nul_def)
  next
    case False
    with Suc have "strncpy_copy (s(i := t i)) t (Suc i) n j =
        (if Suc i \<le> j \<and> j < Suc i + n then upto_nul t j else (s(i := t i)) j)"
      by (simp add: less_Suc_eq)
    moreover have "upto_nul t i = t i"
      using False Suc.prems by (auto simp: upto_nul_def le_less)
    ultimately show ?thesis using False by auto
  qed
qed auto

lemma strncpy_apply: "strncpy s t n j = (if j < nat n then upto_nul t j else s j)"
  by (simp add: strncpy_def strncpy_copy_apply)

lemma safestrcpy_loop_apply:
  assumes "\<forall>k<i. t k \<noteq> 0"
  shows "(\<forall>j. i \<le> j \<and> j < i + n \<and> (\<forall>k\<le>j. t k \<noteq> 0) \<longrightarrow> safestrcpy_loop s t i n j = t j)
    \<and> (\<exists>e. i \<le> e \<and> e \<le> i + n \<and> safestrcpy_loop s t i n e = 0 \<and> (e = i + n \<or> t e = 0))
    \<and> (\<forall>j. j < i \<or> i + n < j \<longrightarrow> safestrcpy_loop s t i n j = s j)"
  using assms
proof (induction n arbitrary: s i)
  case 0
  then show ?case by auto
next
  case (Suc n)
  show ?case
  proof (cases "t i = 0")
    case True
    then show ?thesis by auto
  next
    case False
    let ?r = "safestrcpy_loop (s(i := t i)) t (Suc i) n"
    have "\<forall>k<Suc i. t k \<noteq> 0" using False Suc.prems by (simp add: less_Suc_eq)
    note IH = Suc.IH[OF this, of "s(i := t i)"]
    from IH obtain e where "Suc i \<le> e" "e \<le> Suc i + n" "?r e = 0" "e = Suc i + n \<or> t e = 0" by blast
    moreover have frame: "?r j = (s(i := t i)) j" if "j < Suc i \<or> Suc i + n < j" for j
      using IH that by blast
    moreover have "?r j = t j" if "i \<le> j" "j < i + Suc n" "\<forall>k\<le>j. t k \<noteq> 0" for j
      using IH that frame[of i] by (cases "j = i") (simp, metis Suc_leI add_Suc_right add_Suc le_neq_implies_less)
    moreover have "?r j = s j" if "j < i \<or> i + Suc n < j" for j
      using frame[of j] that by auto
    ultimately show ?thesis using False
      by (auto intro!: exI[of _ e])
  qed
qed

lemma strncmp_zero_iff: "strncmp p q n = 0 \<longleftrightarrow> (\<forall>i<n. upto_nul p i = upto_nul q i)"
proof (induction p q n rule: strncmp.induct)
  case (2 p q n)
  have 0: "upto_nul p 0 = p 0" "upto_nul q 0 = q 0" by (auto simp: upto_nul_def)
  have S: "upto_nul r (Suc i) = (if r 0 = 0 then 0 else upto_nul (\<lambda>i. r (Suc i)) i)" for r i
    by (auto simp: upto_nul_def less_Suc_eq_0_disj Suc_le_eq elim: less_SucE)
      (metis Suc_le_mono bot_nat_0.extremum old.nat.exhaust)+
  show ?case
  proof (cases "p 0 \<noteq> 0 \<and> p 0 = q 0")
    case True
    with 2 show ?thesis by (simp add: All_less_Suc2 0 S)
  next
    case False
    then show ?thesis
      by (cases "p 0 = q 0") (auto simp: All_less_Suc2 0 S simp flip: word_uint_eq_iff)
  qed
qed simp

lemma strlen_loop_Some:
  assumes "s k = 0" "\<forall>j<k. s j \<noteq> 0" "i \<le> k"
  shows "strlen_loop s i = Some k"
  using assms(3)
proof (induction "k - i" arbitrary: i)
  case 0
  with assms(1) show ?case by (simp add: strlen_loop.simps)
next
  case (Suc x)
  then have "s i \<noteq> 0" using assms(2) by auto
  moreover have "strlen_loop s (Suc i) = Some k" using Suc by (intro Suc.hyps) auto
  ultimately show ?case by (simp add: strlen_loop.simps[of s i])
qed

section \<open>Theorems\<close>

text \<open>
  C16: \<open>memmove\<close> is right also when the two ranges overlap: unless a range runs over the top of the address space,
  every destination byte gets the source byte as it was before the call, and no other byte changes.
\<close>

theorem memmove_correct:
  fixes m :: "u64 \<Rightarrow> byte"
  assumes src: "unat src + n < 2 ^ 64" and dst: "unat dst + n < 2 ^ 64"
  shows "(\<forall>i<n. memmove m dst src n (dst + of_nat i) = m (src + of_nat i)) \<and>
    (\<forall>a. (\<forall>i<n. a \<noteq> dst + of_nat i) \<longrightarrow> memmove m dst src n a = m a)"
proof -
  let ?d = "\<lambda>i. dst + of_nat i" and ?s = "\<lambda>i. src + of_nat i"
  have d: "unat (?d i) = unat dst + i" and s: "unat (?s i) = unat src + i" if "i < n" for i
    using that src dst u64_offset[of dst n i] u64_offset[of src n i] by simp_all
  have len: "unat (src + of_nat n) = unat src + n"
    using src by (simp add: unat_word_ariths unat_of_nat)
  have dd: "?d i \<noteq> ?d j" if "i < n" "j < n" "i \<noteq> j" for i j
    using d[OF that(1)] d[OF that(2)] that(3) by (metis add_left_cancel)
  have fwd: "?d i \<noteq> ?s j" if "i < j" "j < n" "\<not> (src < dst \<and> dst < src + of_nat n)" for i j
  proof
    assume "?d i = ?s j"
    then have "unat dst + i = unat src + j" using d[of i] s[of j] that by simp
    then have "unat src < unat dst" "unat dst < unat src + n" using that by auto
    then show False using that(3) len by (simp add: word_less_nat_alt)
  qed
  have bwd: "?d i \<noteq> ?s j" if "j < i" "i < n" "src < dst" for i j
  proof
    assume "?d i = ?s j"
    then have "unat dst + i = unat src + j" using d[of i] s[of j] that by simp
    then show False using that by (simp add: word_less_nat_alt)
  qed
  have up: "sorted_wrt (\<lambda>i j. ?d i \<noteq> ?d j \<and> ?d i \<noteq> ?s j) [0..<n]" if "\<not> (src < dst \<and> dst < src + of_nat n)"
    using that dd fwd by (auto simp: sorted_wrt_iff_nth_less)
  have dn: "sorted_wrt (\<lambda>i j. ?d i \<noteq> ?d j \<and> ?d i \<noteq> ?s j) (rev [0..<n])" if "src < dst"
    unfolding sorted_wrt_rev using that dd bwd by (auto simp: sorted_wrt_iff_nth_less)
  show ?thesis
    using copy_loop_apply[OF up, of _ m] copy_loop_apply[OF dn, of _ m]
      copy_loop_other[of "[0..<n]" _ ?d m ?s] copy_loop_other[of "rev [0..<n]" _ ?d m ?s]
    by (auto simp: memmove_def)
qed

theorem memmove_correct_witness:
  "memmove (\<lambda>a :: u64. if a = 4096 then 7 else if a = 4097 then 8 else 0) 4097 4096 2 (4097 + of_nat 1) = 8"
proof -
  let ?m = "\<lambda>a :: u64. if a = 4096 then 7 else if a = 4097 then 8 else (0 :: byte)"
  have h: "unat (4096 :: u64) + 2 < 2 ^ 64" "unat (4097 :: u64) + 2 < 2 ^ 64" by simp_all
  have "\<forall>i<2. memmove ?m 4097 4096 2 (4097 + of_nat i) = ?m (4096 + of_nat i)"
    using memmove_correct[OF h, of ?m] by blast
  then have "memmove ?m 4097 4096 2 (4097 + of_nat 1) = ?m (4096 + of_nat 1)" by (rule allE[of _ 1]) simp
  then show ?thesis by simp
qed

text \<open>
  C17: \<open>safestrcpy\<close> into a buffer of \<open>n > 0\<close> bytes always leaves a terminated string in the buffer: some byte \<open>e < n\<close> is
  zero, every byte of \<open>t\<close> before its own terminator and before \<open>n - 1\<close> is copied, the copy ends at \<open>t\<close>'s
  terminator or at the last byte of the buffer, and nothing outside the buffer is written.
\<close>

theorem safestrcpy_terminates_string:
  assumes "0 < n"
  shows "(\<exists>e<nat n. safestrcpy s t n e = 0 \<and> (e = nat n - 1 \<or> t e = 0)) \<and>
    (\<forall>j. j < nat n - 1 \<and> (\<forall>k\<le>j. t k \<noteq> 0) \<longrightarrow> safestrcpy s t n j = t j) \<and>
    (\<forall>j\<ge>nat n. safestrcpy s t n j = s j)"
proof -
  have n: "nat (n - 1) = nat n - 1" "0 < nat n" using assms by auto
  let ?r = "safestrcpy_loop s t 0 (nat n - 1)"
  have r: "safestrcpy s t n = ?r" using assms n by (simp add: safestrcpy_def)
  note L = safestrcpy_loop_apply[of 0 t "nat n - 1" s, simplified]
  from L obtain e where "e \<le> nat n - 1" "?r e = 0" "e = nat n - 1 \<or> t e = 0" by auto
  with n have "\<exists>e<nat n. ?r e = 0 \<and> (e = nat n - 1 \<or> t e = 0)" by (intro exI[of _ e]) auto
  moreover have "?r j = s j" if "nat n \<le> j" for j using L that n by auto
  ultimately show ?thesis unfolding r using L by auto
qed

theorem safestrcpy_terminates_string_witness:
  "\<exists>e<nat 4. safestrcpy (\<lambda>_. 9) (\<lambda>_. 1) 4 e = 0 \<and> (e = nat 4 - 1 \<or> (1::byte) = 0)"
  using safestrcpy_terminates_string[of 4 "\<lambda>_. 9" "\<lambda>_. 1"] by simp

text \<open>
  C18: Copying a name with \<open>strncpy\<close> and comparing it with \<open>strncmp\<close> agree: the copy compares equal to
  the original on \<open>n\<close> bytes, and \<open>strncmp\<close> returns 0 exactly when the two strings agree on their first \<open>n\<close>
  bytes up to the terminator; \<open>strncpy\<close> writes the \<open>n\<close> bytes of the buffer and no other.
\<close>

theorem strncpy_strncmp:
  "strncmp (strncpy s t (int n)) t n = 0 \<and>
   (strncmp p q n = 0 \<longleftrightarrow> (\<forall>i<n. upto_nul p i = upto_nul q i)) \<and>
   (strncpy s t (int n) j = (if j < n then upto_nul t j else s j))"
proof -
  have "upto_nul (strncpy s t (int n)) i = upto_nul t i" if "i < n" for i
  proof -
    have "strncpy s t (int n) k = upto_nul t k" if "k \<le> i" for k
      using that \<open>i < n\<close> by (simp add: strncpy_apply)
    then show ?thesis by (auto simp: upto_nul_def cong: conj_cong)
  qed
  then show ?thesis by (simp add: strncmp_zero_iff strncpy_apply)
qed

theorem strncpy_strncmp_witness:
  "strncmp (strncpy (\<lambda>_. 255) (cstr [97]) (int 14)) (cstr [97]) 14 = 0 \<and>
   strncpy (\<lambda>_. 255) (cstr [97]) (int 14) 3 = 0"
  using strncpy_strncmp[of "\<lambda>_. 255" "cstr [97]" 14 "cstr [97]" "cstr [97]" 3]
  by (auto simp: upto_nul_def cstr_def)

text \<open>
  C19: \<open>strlen\<close> returns on every terminated string, with the index of its first zero byte.
\<close>

theorem strlen_first_nul:
  assumes "s k = 0"
  shows "strlen s = Some (LEAST i. s i = 0)"
proof -
  let ?k = "LEAST i. s i = 0"
  have "s ?k = 0" using assms by (rule LeastI)
  moreover have "\<forall>j<?k. s j \<noteq> 0" using not_less_Least by blast
  ultimately show ?thesis unfolding strlen_def by (rule strlen_loop_Some) simp
qed

theorem strlen_first_nul_witness: "strlen (cstr [104, 105]) = Some (LEAST i. cstr [104, 105] i = 0)"
proof -
  have "cstr [104, 105] 2 = 0" by (simp add: cstr_def)
  then show ?thesis by (rule strlen_first_nul)
qed

end
