(* ===== verification/Memlayout.thy ===== *)
theory Memlayout
  imports Kstate Cstring
begin

text \<open>
  The address space: the physical memory map of \<^verbatim>\<open>memlayout.h\<close> and the page and page-table macros of
  \<^verbatim>\<open>riscv.h\<close>, as functions on 64-bit words, with the arithmetic of pages that the allocator and
  the virtual memory code rest on.
\<close>

named_theorems layout "the constants of the address space"

section \<open>memlayout.h\<close>

definition UART0 :: u64 where [layout]: "UART0 = 0x10000000"
definition UART0_IRQ :: u32 where [layout]: "UART0_IRQ = 10"
definition VIRTIO0 :: u64 where [layout]: "VIRTIO0 = 0x10001000"
definition VIRTIO0_IRQ :: u32 where [layout]: "VIRTIO0_IRQ = 1"
definition PLIC :: u64 where [layout]: "PLIC = 0x0c000000"
definition PLIC_SENABLE :: "u64 \<Rightarrow> u64" where [layout]: "PLIC_SENABLE hartid = PLIC + 0x2080 + hartid * 0x100"
definition PLIC_SPRIORITY :: "u64 \<Rightarrow> u64" where [layout]: "PLIC_SPRIORITY hartid = PLIC + 0x201000 + hartid * 0x2000"
definition PLIC_SCLAIM :: "u64 \<Rightarrow> u64" where [layout]: "PLIC_SCLAIM hartid = PLIC + 0x201004 + hartid * 0x2000"
definition KERNBASE :: u64 where [layout]: "KERNBASE = 0x80000000"
definition PHYSTOP :: u64 where [layout]: "PHYSTOP = KERNBASE + 128 * 1024 * 1024"

section \<open>riscv.h: pages and page table entries\<close>

definition PGSIZE :: u64 where [layout]: "PGSIZE = 4096"
definition PGSHIFT :: nat where [layout]: "PGSHIFT = 12"

definition PGROUNDUP :: "u64 \<Rightarrow> u64" where
  "PGROUNDUP sz = (sz + PGSIZE - 1) AND NOT (PGSIZE - 1)"

definition PGROUNDDOWN :: "u64 \<Rightarrow> u64" where
  "PGROUNDDOWN a = a AND NOT (PGSIZE - 1)"

definition PTE_V :: u64 where "PTE_V = push_bit 0 1"
definition PTE_R :: u64 where "PTE_R = push_bit 1 1"
definition PTE_W :: u64 where "PTE_W = push_bit 2 1"
definition PTE_X :: u64 where "PTE_X = push_bit 3 1"
definition PTE_U :: u64 where "PTE_U = push_bit 4 1"

definition PA2PTE :: "u64 \<Rightarrow> u64" where
  "PA2PTE pa = push_bit 10 (drop_bit 12 pa)"

definition PTE2PA :: "u64 \<Rightarrow> u64" where
  "PTE2PA pte = push_bit 12 (drop_bit 10 pte)"

definition PTE_FLAGS :: "u64 \<Rightarrow> u64" where
  "PTE_FLAGS pte = pte AND 0x3FF"

definition PXMASK :: u64 where "PXMASK = 0x1FF"

definition PXSHIFT :: "nat \<Rightarrow> nat" where
  "PXSHIFT level = PGSHIFT + 9 * level"

definition PX :: "nat \<Rightarrow> u64 \<Rightarrow> u64" where
  "PX level va = drop_bit (PXSHIFT level) va AND PXMASK"

definition MAXVA :: u64 where [layout]: "MAXVA = push_bit (9 + 9 + 9 + 12 - 1) 1"

definition TRAMPOLINE :: u64 where [layout]: "TRAMPOLINE = MAXVA - PGSIZE"

definition KSTACK :: "nat \<Rightarrow> u64" where [layout]:
  "KSTACK p = TRAMPOLINE - (of_nat p + 1) * 2 * PGSIZE"

definition TRAPFRAME :: u64 where [layout]: "TRAPFRAME = TRAMPOLINE - PGSIZE"

lemmas pte_bit_defs = PTE_V_def PTE_R_def PTE_W_def PTE_X_def PTE_U_def
lemmas pte_defs = PA2PTE_def PTE2PA_def PTE_FLAGS_def

section \<open>Page arithmetic\<close>

text \<open>\<open>pgalign a\<close>: the address is a multiple of the page size; \<open>pgno a\<close>: the number of its page.\<close>

definition pgalign :: "u64 \<Rightarrow> bool" where
  "pgalign a = (a mod PGSIZE = 0)"

definition pgno :: "u64 \<Rightarrow> nat" where
  "pgno a = unat a div 4096"

lemma u64_max: "unat (a :: u64) < 2 ^ 64"
  using unsigned_less[where ?'a=nat, of a] by simp

lemma pgalign_unat: "pgalign a \<longleftrightarrow> unat a mod 4096 = 0"
  by (simp add: pgalign_def PGSIZE_def unat_mod word_unat_eq_iff)

lemma pgalign_room: "pgalign a \<Longrightarrow> unat a + 4096 \<le> 2 ^ 64"
proof -
  assume "pgalign a"
  then obtain k where "unat a = 4096 * k" by (auto simp: pgalign_unat mod_eq_0_iff_dvd)
  with u64_max[of a] show ?thesis by simp
qed

lemma unat_page_offset: "pgalign a \<Longrightarrow> i < 4096 \<Longrightarrow> unat (a + of_nat i) = unat a + i"
  using pgalign_room by (intro u64_offset) auto

lemma pgno_offset: "pgalign a \<Longrightarrow> i < 4096 \<Longrightarrow> pgno (a + of_nat i) = pgno a"
proof -
  assume h: "pgalign a" "i < 4096"
  then obtain k where "unat a = 4096 * k" by (auto simp: pgalign_unat mod_eq_0_iff_dvd)
  with unat_page_offset[OF h] h(2) show ?thesis by (simp add: pgno_def)
qed

lemma pgalign_eqI: "pgalign a \<Longrightarrow> pgalign b \<Longrightarrow> pgno a = pgno b \<Longrightarrow> a = b"
  unfolding pgno_def pgalign_unat word_unat_eq_iff by (metis div_mult_mod_eq)

lemma in_page_iff:
  assumes "pgalign a"
  shows "(\<exists>i<4096. b = a + of_nat i) \<longleftrightarrow> pgno b = pgno a"
proof
  assume "pgno b = pgno a"
  then have "unat b div 4096 = unat a div 4096" by (simp add: pgno_def)
  then have "unat b = unat a + unat b mod 4096"
    using assms unfolding pgalign_unat by (metis div_mult_mod_eq add_0_right)
  then have "unat b = unat (a + of_nat (unat b mod 4096))"
    using assms by (simp add: unat_page_offset)
  then have "b = a + of_nat (unat b mod 4096)" by (simp only: word_unat_eq_iff)
  moreover have "unat b mod 4096 < 4096" by simp
  ultimately show "\<exists>i<4096. b = a + of_nat i" by blast
qed (use assms in \<open>auto simp: pgno_offset\<close>)

lemma memset_page: "pgalign a \<Longrightarrow> memset m a c 4096 = (\<lambda>b. if pgno b = pgno a then c else m b)"
  by (simp add: memset_apply in_page_iff)

lemma le64_same_page:
  assumes "pgalign a" "i \<le> 4088" and "\<And>b. pgno b = pgno a \<Longrightarrow> m b = m' b"
  shows "le64 m (a + of_nat i) = le64 m' (a + of_nat i)"
proof (rule le64_cong)
  fix j :: nat assume "j < 8"
  then have "pgno (a + of_nat (i + j)) = pgno a" using assms by (intro pgno_offset) auto
  then show "m (a + of_nat i + of_nat j) = m' (a + of_nat i + of_nat j)"
    using assms(3) by (simp add: add.assoc)
qed

lemma put64_other_page:
  assumes "pgalign a" "i \<le> 4088" "pgno b \<noteq> pgno a"
  shows "put64 m (a + of_nat i) v b = m b"
proof (rule put64_other)
  fix j :: nat assume "j < 8"
  then have "pgno (a + of_nat (i + j)) = pgno a" using assms by (intro pgno_offset) auto
  then show "b \<noteq> a + of_nat i + of_nat j" using assms(3) by (auto simp: add.assoc)
qed

lemma pgmask: "(4095 :: u64) = mask 12"
  by (simp add: mask_eq_exp_minus_1)

lemma unat_PGROUNDDOWN: "unat (PGROUNDDOWN a) = unat a - unat a mod 4096"
proof -
  have "PGROUNDDOWN a = push_bit 12 (drop_bit 12 a)"
    by (rule bit_word_eqI) (auto simp: PGROUNDDOWN_def PGSIZE_def pgmask bit_simps)
  moreover have "unat (push_bit 12 (drop_bit 12 a)) = unat a div 4096 * 4096"
    using u64_max[of a] by (simp add: push_bit_eq_mult unat_word_ariths drop_bit_eq_div unat_div)
  ultimately show ?thesis by (simp add: minus_mod_eq_div_mult)
qed

lemma pgalign_PGROUNDDOWN [simp]: "pgalign (PGROUNDDOWN a)"
  by (simp add: pgalign_unat unat_PGROUNDDOWN minus_mod_eq_div_mult)

lemma PGROUNDDOWN_le: "PGROUNDDOWN a \<le> a"
  by (simp add: word_le_nat_alt unat_PGROUNDDOWN)

lemma PGROUNDDOWN_align [simp]: "pgalign a \<Longrightarrow> PGROUNDDOWN a = a"
  by (simp add: word_unat_eq_iff unat_PGROUNDDOWN pgalign_unat)

lemma PGROUNDUP_eq: "PGROUNDUP a = PGROUNDDOWN (a + 4095)"
  by (simp add: PGROUNDUP_def PGROUNDDOWN_def PGSIZE_def add.commute)

lemma unat_PGROUNDUP: "unat a + 4095 < 2 ^ 64 \<Longrightarrow> unat (PGROUNDUP a) = (unat a + 4095) div 4096 * 4096"
  by (simp add: PGROUNDUP_eq unat_PGROUNDDOWN unat_word_ariths minus_mod_eq_div_mult)

lemma pgalign_PGROUNDUP [simp]: "pgalign (PGROUNDUP a)"
  by (simp add: PGROUNDUP_eq)

end
