(* ===== verification/Sched.thy ===== *)
theory Sched
  imports Spinlock Memlayout
begin

text \<open>
  Processes giving up and getting the processor: the parts of \<^verbatim>\<open>proc.c\<close> that change a process's
  scheduling state. A kernel thread that calls \<open>sched()\<close> leaves the processor with the outcome \<open>Swtch\<close>; what the
  scheduler does then, and what the thread does when it is resumed, are definitions of their own.
\<close>

section \<open>The current process\<close>

definition myproc :: "nat option kernel" where
  "myproc =
     thn push_off (
     bnd mycpu (\<lambda>c.
     thn pop_off (ret (c_proc c))))"

definition getp :: "nat \<Rightarrow> proc kernel" where
  "getp p = gets (\<lambda>s. procs s p)"

definition setp :: "nat \<Rightarrow> (proc \<Rightarrow> proc) \<Rightarrow> unit kernel" where
  "setp p f = modify (\<lambda>s. s\<lparr>procs := (procs s)(p := f (procs s p))\<rparr>)"

definition procinit :: "unit kernel" where
  "procinit =
     thn (initlock PidLock ''nextpid'') (
     thn (initlock WaitLock ''wait_lock'') (
     foreach [0..<NPROC] (\<lambda>p.
       thn (initlock (ProcLock p) ''proc'') (
       setp p (\<lambda>q. q\<lparr>p_kstack := KSTACK p\<rparr>)))))"

definition allocpid :: "int kernel" where
  "allocpid =
     thn (acquire PidLock) (
     bnd (gets nextpid) (\<lambda>pid.
     thn (modify (\<lambda>s. s\<lparr>nextpid := nextpid s + 1\<rparr>)) (
     thn (release PidLock) (
     ret pid))))"

section \<open>Switching to and from the scheduler\<close>

text \<open>
  \<open>sched\<close> up to the call of \<open>swtch\<close>, and \<open>sched_resume\<close> from its return. The local variable \<open>intena\<close> is kept in
  \<open>p_intena\<close> in between, and cleared when it goes out of scope.
\<close>

definition sched :: "unit kernel" where
  "sched =
     bnd myproc (\<lambda>mp. bnd (deref mp) (\<lambda>p.
     bnd (holding (ProcLock p)) (\<lambda>h.
     if \<not> h then panic ''sched p->lock'' else
     bnd mycpu (\<lambda>c.
     if noff c \<noteq> 1 then panic ''sched locks'' else
     bnd (getp p) (\<lambda>q.
     if p_state q = RUNNING then panic ''sched running'' else
     bnd intr_get (\<lambda>on.
     if on then panic ''sched interruptible'' else
     bnd mycpu (\<lambda>c.
     thn (setp p (\<lambda>q. q\<lparr>p_intena := intena c\<rparr>))
     swtch)))))))"

definition sched_resume :: "nat \<Rightarrow> unit kernel" where
  "sched_resume p =
     bnd (getp p) (\<lambda>q.
     thn (set_mycpu (\<lambda>c. c\<lparr>intena := p_intena q\<rparr>))
     (setp p (\<lambda>q. q\<lparr>p_intena := False\<rparr>)))"

text \<open>
  One turn of the scheduler's inner loop: \<open>scheduler_pick\<close> up to the call of \<open>swtch\<close>, which it reaches with result
  \<open>True\<close>, and \<open>scheduler_back\<close> from its return to the end of the turn.
\<close>

definition scheduler_pick :: "nat \<Rightarrow> bool kernel" where
  "scheduler_pick p =
     thn (acquire (ProcLock p)) (
     bnd (getp p) (\<lambda>q.
     if p_state q = RUNNABLE then
       thn (setp p (\<lambda>q. q\<lparr>p_state := RUNNING\<rparr>)) (
       thn (set_mycpu (\<lambda>c. c\<lparr>c_proc := Some p\<rparr>))
       (ret True))
     else thn (release (ProcLock p)) (ret False)))"

definition scheduler_back :: "nat \<Rightarrow> unit kernel" where
  "scheduler_back p =
     thn (set_mycpu (\<lambda>c. c\<lparr>c_proc := None\<rparr>))
     (release (ProcLock p))"

definition scheduler_enter :: "unit kernel" where
  "scheduler_enter = thn (set_mycpu (\<lambda>c. c\<lparr>c_proc := None\<rparr>)) intr_on"

definition yield :: "unit kernel" where
  "yield =
     bnd myproc (\<lambda>mp. bnd (deref mp) (\<lambda>p.
     thn (acquire (ProcLock p)) (
     thn (setp p (\<lambda>q. q\<lparr>p_state := RUNNABLE\<rparr>))
     sched)))"

definition yield_resume :: "nat \<Rightarrow> unit kernel" where
  "yield_resume p = thn (sched_resume p) (release (ProcLock p))"

definition sleep :: "chan \<Rightarrow> lockid \<Rightarrow> unit kernel" where
  "sleep ch lk =
     bnd myproc (\<lambda>mp. bnd (deref mp) (\<lambda>p.
     thn (acquire (ProcLock p)) (
     thn (release lk) (
     thn (setp p (\<lambda>q. q\<lparr>p_chan := ch\<rparr>)) (
     thn (setp p (\<lambda>q. q\<lparr>p_state := SLEEPING\<rparr>))
     sched)))))"

definition sleep_resume :: "nat \<Rightarrow> lockid \<Rightarrow> unit kernel" where
  "sleep_resume p lk =
     thn (sched_resume p) (
     thn (setp p (\<lambda>q. q\<lparr>p_chan := NullChan\<rparr>)) (
     thn (release (ProcLock p))
     (acquire lk)))"

section \<open>Waking up and killing\<close>

definition wakeup_one :: "chan \<Rightarrow> nat \<Rightarrow> unit kernel" where
  "wakeup_one ch p =
     bnd myproc (\<lambda>me.
     whenM (Some p \<noteq> me) (
       thn (acquire (ProcLock p)) (
       bnd (getp p) (\<lambda>q.
       thn (whenM (p_state q = SLEEPING \<and> p_chan q = ch)
         (setp p (\<lambda>q. q\<lparr>p_state := RUNNABLE\<rparr>)))
       (release (ProcLock p))))))"

definition wakeup :: "chan \<Rightarrow> unit kernel" where
  "wakeup ch = foreach [0..<NPROC] (wakeup_one ch)"

definition kill_one :: "int \<Rightarrow> nat \<Rightarrow> int option kernel" where
  "kill_one pid p =
     thn (acquire (ProcLock p)) (
     bnd (getp p) (\<lambda>q.
     if p_pid q = pid then
       thn (setp p (\<lambda>q. q\<lparr>p_killed := True\<rparr>)) (
       thn (whenM (p_state q = SLEEPING) (setp p (\<lambda>q. q\<lparr>p_state := RUNNABLE\<rparr>))) (
       thn (release (ProcLock p))
       (ret (Some 0))))
     else thn (release (ProcLock p)) (ret None)))"

definition kill :: "int \<Rightarrow> int kernel" where
  "kill pid =
     bnd (forl [0..<NPROC] (kill_one pid))
     (\<lambda>r. ret (case r of Some v \<Rightarrow> v | None \<Rightarrow> -1))"

lemmas proc_access = getp_def setp_def

section \<open>The current process as a function of the state\<close>

definition curproc :: "kstate \<Rightarrow> nat option" where
  "curproc s = c_proc (cpus s (hart s))"

lemma curproc_update [simp]:
  "curproc (slocks_update f0 s) = curproc s"
  "curproc (kend_update f1 s) = curproc s"
  "curproc (ketext_update f2 s) = curproc s"
  "curproc (ktrampoline_update f3 s) = curproc s"
  "curproc (mem_update f4 s) = curproc s"
  "curproc (freelist_update f5 s) = curproc s"
  "curproc (procs_update f6 s) = curproc s"
  "curproc (initproc_update f7 s) = curproc s"
  "curproc (nextpid_update f8 s) = curproc s"
  "curproc (bufs_update f9 s) = curproc s"
  "curproc (bhead_prev_update f10 s) = curproc s"
  "curproc (bhead_next_update f11 s) = curproc s"
  "curproc (vdisk_update f12 s) = curproc s"
  "curproc (disk_img_update f13 s) = curproc s"
  "curproc (disk_hist_update f14 s) = curproc s"
  "curproc (sblk_update f15 s) = curproc s"
  "curproc (klog_update f16 s) = curproc s"
  "curproc (inodes_update f17 s) = curproc s"
  "curproc (files_update f18 s) = curproc s"
  "curproc (pipes_update f19 s) = curproc s"
  "curproc (kcons_update f20 s) = curproc s"
  "curproc (kuart_update f21 s) = curproc s"
  "curproc (uart_out_update f22 s) = curproc s"
  "curproc (kticks_update f23 s) = curproc s"
  "curproc (kernel_pagetable_update f24 s) = curproc s"
  "curproc (csrs_update f25 s) = curproc s"
  "curproc (mmio_update f26 s) = curproc s"
  "curproc (uart_in_update f27 s) = curproc s"
  "curproc (panicked_update f28 s) = curproc s"
  "curproc (pr_locking_update f29 s) = curproc s"
  "curproc (devsw_update f30 s) = curproc s"
  "curproc (started_update f31 s) = curproc s"
  "curproc (ksym_update f32 s) = curproc s"
  "curproc (vdev_update f33 s) = curproc s"
  "curproc (mmio_rd_update f34 s) = curproc s"
  "curproc (uart_room_update f90 s) = curproc s"
  "curproc (fs_first_update f91 s) = curproc s"
  "curproc (sstatus_update f35 s) = curproc s"
  "curproc (locks_update f36 s) = curproc s"
  "curproc (acq lk s) = curproc s"
  "curproc (sync s) = curproc s"
  by (simp_all add: curproc_def acq_def sync_def)

lemma push_off_eq: "push_off s = Ok () (s\<lparr>
     cpus := (cpus s)(hart s := (cpus s (hart s))\<lparr>noff := noff (cpus s (hart s)) + 1,
       intena := (if noff (cpus s (hart s)) = 0 then sie s else intena (cpus s (hart s)))\<rparr>),
     sstatus := (sstatus s)(hart s := sstatus s (hart s) AND NOT SSTATUS_SIE)\<rparr>)"
  by (auto simp: push_off_def intr_defs kmon sie_def intro!: kstate.equality)

lemma myproc_eq [simp]: "cpu_ok s \<Longrightarrow> myproc s = Ok (curproc s) (sync s)"
  by (auto simp: myproc_def push_off_eq pop_off_def intr_defs kmon sie_def sie_off cpu_ok_def curproc_def sync_def
      sie_restore_on sie_restore_off intro!: kstate.equality)

text \<open>
  \<open>plocks s\<close>: no process's lock is held, except possibly the one of \<open>me\<close>.
\<close>

definition plocks :: "nat option \<Rightarrow> kstate \<Rightarrow> bool" where
  "plocks me s = (\<forall>p<NPROC. Some p \<noteq> me \<longrightarrow> freelk (ProcLock p) s)"

lemma plocks_freelk [simp]: "plocks me s \<Longrightarrow> p < NPROC \<Longrightarrow> Some p \<noteq> me \<Longrightarrow> freelk (ProcLock p) s"
  by (simp add: plocks_def)

lemma plocks_update [simp]:
  "plocks me (sync s) = plocks me s"
  "plocks me (slocks_update f0 s) = plocks me s"
  "plocks me (kend_update f1 s) = plocks me s"
  "plocks me (ketext_update f2 s) = plocks me s"
  "plocks me (ktrampoline_update f3 s) = plocks me s"
  "plocks me (mem_update f4 s) = plocks me s"
  "plocks me (freelist_update f5 s) = plocks me s"
  "plocks me (procs_update f6 s) = plocks me s"
  "plocks me (initproc_update f7 s) = plocks me s"
  "plocks me (nextpid_update f8 s) = plocks me s"
  "plocks me (bufs_update f9 s) = plocks me s"
  "plocks me (bhead_prev_update f10 s) = plocks me s"
  "plocks me (bhead_next_update f11 s) = plocks me s"
  "plocks me (vdisk_update f12 s) = plocks me s"
  "plocks me (disk_img_update f13 s) = plocks me s"
  "plocks me (disk_hist_update f14 s) = plocks me s"
  "plocks me (sblk_update f15 s) = plocks me s"
  "plocks me (klog_update f16 s) = plocks me s"
  "plocks me (inodes_update f17 s) = plocks me s"
  "plocks me (files_update f18 s) = plocks me s"
  "plocks me (pipes_update f19 s) = plocks me s"
  "plocks me (kcons_update f20 s) = plocks me s"
  "plocks me (kuart_update f21 s) = plocks me s"
  "plocks me (uart_out_update f22 s) = plocks me s"
  "plocks me (kticks_update f23 s) = plocks me s"
  "plocks me (kernel_pagetable_update f24 s) = plocks me s"
  "plocks me (csrs_update f25 s) = plocks me s"
  "plocks me (mmio_update f26 s) = plocks me s"
  "plocks me (uart_in_update f27 s) = plocks me s"
  "plocks me (panicked_update f28 s) = plocks me s"
  "plocks me (pr_locking_update f29 s) = plocks me s"
  "plocks me (devsw_update f30 s) = plocks me s"
  "plocks me (started_update f31 s) = plocks me s"
  "plocks me (ksym_update f32 s) = plocks me s"
  "plocks me (vdev_update f33 s) = plocks me s"
  "plocks me (mmio_rd_update f34 s) = plocks me s"
  "plocks me (uart_room_update f90 s) = plocks me s"
  "plocks me (fs_first_update f91 s) = plocks me s"
  by (simp_all add: plocks_def)

lemma plocks_acq [simp]: "(\<And>p. lk \<noteq> ProcLock p) \<Longrightarrow> plocks me (acq lk s) = plocks me s"
  "plocks (Some p) s \<Longrightarrow> plocks (Some p) (acq (ProcLock p) s)"
  by (auto simp: plocks_def)

definition wake_in :: "nat set \<Rightarrow> chan \<Rightarrow> nat option \<Rightarrow> (nat \<Rightarrow> proc) \<Rightarrow> nat \<Rightarrow> proc" where
  "wake_in P ch me ps = (\<lambda>p. if p \<in> P \<and> Some p \<noteq> me \<and> p_state (ps p) = SLEEPING \<and> p_chan (ps p) = ch
     then (ps p)\<lparr>p_state := RUNNABLE\<rparr> else ps p)"

abbreviation wake_all :: "chan \<Rightarrow> nat option \<Rightarrow> (nat \<Rightarrow> proc) \<Rightarrow> nat \<Rightarrow> proc" where
  "wake_all \<equiv> wake_in {..<NPROC}"

lemma wakeup_one_eq:
  assumes "p < NPROC" "cpu_ok s" "plocks (curproc s) s"
  shows "wakeup_one ch p s = Ok () (sync (s\<lparr>procs := wake_in {p} ch (curproc s) (procs s)\<rparr>))"
  using assms
  by (auto simp: wakeup_one_def kmon proc_access wake_in_def fun_eq_iff
      intro!: arg_cong[where f=sync] kstate.equality)

lemma wakeup_list:
  assumes "xs \<noteq> []" "distinct xs" "\<forall>p\<in>set xs. p < NPROC" "cpu_ok s" "plocks (curproc s) s"
  shows "foreach xs (wakeup_one ch) s = Ok () (sync (s\<lparr>procs := wake_in (set xs) ch (curproc s) (procs s)\<rparr>))"
  using assms
proof (induction xs arbitrary: s)
  case (Cons p xs)
  let ?t = "s\<lparr>procs := wake_in {p} ch (curproc s) (procs s)\<rparr>"
  have one: "wakeup_one ch p s = Ok () (sync ?t)"
    using Cons.prems by (intro wakeup_one_eq) auto
  show ?case
  proof (cases "xs = []")
    case True
    with foreach_step[of "wakeup_one ch", OF one, of xs] show ?thesis by (simp add: ret_apply)
  next
    case False
    have "wake_in (set xs) ch (curproc s) (wake_in {p} ch (curproc s) (procs s))
      = wake_in (set (p # xs)) ch (curproc s) (procs s)"
      using Cons.prems(2) by (auto simp: wake_in_def fun_eq_iff)
    moreover have "foreach xs (wakeup_one ch) (sync ?t)
      = Ok () (sync (sync ?t\<lparr>procs := wake_in (set xs) ch (curproc (sync ?t)) (procs (sync ?t))\<rparr>))"
      using Cons.prems False by (intro Cons.IH) auto
    ultimately show ?thesis using foreach_step[of "wakeup_one ch", OF one, of xs] by simp
  qed
qed simp

lemma wakeup_eq [simp]:
  assumes "cpu_ok s" "plocks (curproc s) s"
  shows "wakeup ch s = Ok () (sync (s\<lparr>procs := wake_all ch (curproc s) (procs s)\<rparr>))"
  unfolding wakeup_def using assms
  by (subst wakeup_list) (auto simp: NPROC_def atLeast0LessThan)

section \<open>Sleeping\<close>

lemma sched_eq:
  assumes "freelk (ProcLock p) s" "cpu_ok s" "noff (cpus s (hart s)) = 0" "curproc s = Some p"
    "p_state (procs s p) \<noteq> RUNNING"
  shows "sched (acq (ProcLock p) s) = Swtch (acq (ProcLock p) (s\<lparr>procs := (procs s)(p := (procs s p)\<lparr>p_intena := sie s\<rparr>)\<rparr>))"
proof -
  have "locked (locks (acq (ProcLock p) s) (ProcLock p))" "lkcpu (locks (acq (ProcLock p) s) (ProcLock p)) = Some (hart s)"
    "intena (cpus (acq (ProcLock p) s) (hart s)) = sie s"
    using assms by (simp_all add: acq_def)
  moreover have "sstatus (acq (ProcLock p) s) (hart s) AND SSTATUS_SIE = 0"
    by (simp add: acq_def sie_off)
  ultimately show ?thesis using assms
    by (simp add: sched_def kmon holding_def intr_defs proc_access)
qed

lemma sleep_eq:
  assumes "freelk (ProcLock p) s" "freelk lk s" "lk \<noteq> ProcLock p" "cpu_ok s" "noff (cpus s (hart s)) = 0"
    "curproc s = Some p"
  shows "sleep ch lk (acq lk s) = Swtch (acq (ProcLock p) (s\<lparr>procs := (procs s)(p :=
     (procs s p)\<lparr>p_chan := ch, p_state := SLEEPING, p_intena := sie s\<rparr>)\<rparr>))"
  using assms by (simp add: sleep_def kmon proc_access sched_eq)

lemma yield_eq:
  assumes "freelk (ProcLock p) s" "cpu_ok s" "noff (cpus s (hart s)) = 0" "curproc s = Some p"
  shows "yield s = Swtch (acq (ProcLock p) (s\<lparr>procs := (procs s)(p :=
     (procs s p)\<lparr>p_state := RUNNABLE, p_intena := sie s\<rparr>)\<rparr>))"
  using assms by (simp add: yield_def kmon proc_access sched_eq)

section \<open>The scheduler's side\<close>

text \<open>
  \<open>setcur q s\<close> makes \<open>q\<close> the process of the current hart, \<open>set_sie b s\<close> sets its interrupt enable bit.
\<close>

definition setcur :: "nat option \<Rightarrow> kstate \<Rightarrow> kstate" where
  "setcur q s = s\<lparr>cpus := (cpus s)(hart s := (cpus s (hart s))\<lparr>c_proc := q\<rparr>)\<rparr>"

definition set_sie :: "bool \<Rightarrow> kstate \<Rightarrow> kstate" where
  "set_sie b s = s\<lparr>sstatus := (sstatus s)(hart s :=
     (if b then sstatus s (hart s) OR SSTATUS_SIE else sstatus s (hart s) AND NOT SSTATUS_SIE))\<rparr>"

lemma setcur_select [simp]:
  "slocks (setcur q s) = slocks s"
  "kend (setcur q s) = kend s"
  "ketext (setcur q s) = ketext s"
  "ktrampoline (setcur q s) = ktrampoline s"
  "mem (setcur q s) = mem s"
  "freelist (setcur q s) = freelist s"
  "procs (setcur q s) = procs s"
  "initproc (setcur q s) = initproc s"
  "nextpid (setcur q s) = nextpid s"
  "bufs (setcur q s) = bufs s"
  "bhead_prev (setcur q s) = bhead_prev s"
  "bhead_next (setcur q s) = bhead_next s"
  "vdisk (setcur q s) = vdisk s"
  "disk_img (setcur q s) = disk_img s"
  "disk_hist (setcur q s) = disk_hist s"
  "sblk (setcur q s) = sblk s"
  "klog (setcur q s) = klog s"
  "inodes (setcur q s) = inodes s"
  "files (setcur q s) = files s"
  "pipes (setcur q s) = pipes s"
  "kcons (setcur q s) = kcons s"
  "kuart (setcur q s) = kuart s"
  "uart_out (setcur q s) = uart_out s"
  "kticks (setcur q s) = kticks s"
  "kernel_pagetable (setcur q s) = kernel_pagetable s"
  "csrs (setcur q s) = csrs s"
  "mmio (setcur q s) = mmio s"
  "uart_in (setcur q s) = uart_in s"
  "panicked (setcur q s) = panicked s"
  "pr_locking (setcur q s) = pr_locking s"
  "devsw (setcur q s) = devsw s"
  "started (setcur q s) = started s"
  "ksym (setcur q s) = ksym s"
  "vdev (setcur q s) = vdev s"
  "mmio_rd (setcur q s) = mmio_rd s"
  "uart_room (setcur q s) = uart_room s"
  "fs_first (setcur q s) = fs_first s"
  "hart (setcur q s) = hart s"
  "locks (setcur q s) = locks s"
  "sstatus (setcur q s) = sstatus s"
  by (simp_all add: setcur_def)

lemma set_sie_select [simp]:
  "slocks (set_sie b s) = slocks s"
  "kend (set_sie b s) = kend s"
  "ketext (set_sie b s) = ketext s"
  "ktrampoline (set_sie b s) = ktrampoline s"
  "mem (set_sie b s) = mem s"
  "freelist (set_sie b s) = freelist s"
  "procs (set_sie b s) = procs s"
  "initproc (set_sie b s) = initproc s"
  "nextpid (set_sie b s) = nextpid s"
  "bufs (set_sie b s) = bufs s"
  "bhead_prev (set_sie b s) = bhead_prev s"
  "bhead_next (set_sie b s) = bhead_next s"
  "vdisk (set_sie b s) = vdisk s"
  "disk_img (set_sie b s) = disk_img s"
  "disk_hist (set_sie b s) = disk_hist s"
  "sblk (set_sie b s) = sblk s"
  "klog (set_sie b s) = klog s"
  "inodes (set_sie b s) = inodes s"
  "files (set_sie b s) = files s"
  "pipes (set_sie b s) = pipes s"
  "kcons (set_sie b s) = kcons s"
  "kuart (set_sie b s) = kuart s"
  "uart_out (set_sie b s) = uart_out s"
  "kticks (set_sie b s) = kticks s"
  "kernel_pagetable (set_sie b s) = kernel_pagetable s"
  "csrs (set_sie b s) = csrs s"
  "mmio (set_sie b s) = mmio s"
  "uart_in (set_sie b s) = uart_in s"
  "panicked (set_sie b s) = panicked s"
  "pr_locking (set_sie b s) = pr_locking s"
  "devsw (set_sie b s) = devsw s"
  "started (set_sie b s) = started s"
  "ksym (set_sie b s) = ksym s"
  "vdev (set_sie b s) = vdev s"
  "mmio_rd (set_sie b s) = mmio_rd s"
  "uart_room (set_sie b s) = uart_room s"
  "fs_first (set_sie b s) = fs_first s"
  "hart (set_sie b s) = hart s"
  "locks (set_sie b s) = locks s"
  "cpus (set_sie b s) = cpus s"
  by (simp_all add: set_sie_def)

lemma setcur_update [simp]:
  "slocks_update f0 (setcur q s) = setcur q (slocks_update f0 s)"
  "kend_update f1 (setcur q s) = setcur q (kend_update f1 s)"
  "ketext_update f2 (setcur q s) = setcur q (ketext_update f2 s)"
  "ktrampoline_update f3 (setcur q s) = setcur q (ktrampoline_update f3 s)"
  "mem_update f4 (setcur q s) = setcur q (mem_update f4 s)"
  "freelist_update f5 (setcur q s) = setcur q (freelist_update f5 s)"
  "procs_update f6 (setcur q s) = setcur q (procs_update f6 s)"
  "initproc_update f7 (setcur q s) = setcur q (initproc_update f7 s)"
  "nextpid_update f8 (setcur q s) = setcur q (nextpid_update f8 s)"
  "bufs_update f9 (setcur q s) = setcur q (bufs_update f9 s)"
  "bhead_prev_update f10 (setcur q s) = setcur q (bhead_prev_update f10 s)"
  "bhead_next_update f11 (setcur q s) = setcur q (bhead_next_update f11 s)"
  "vdisk_update f12 (setcur q s) = setcur q (vdisk_update f12 s)"
  "disk_img_update f13 (setcur q s) = setcur q (disk_img_update f13 s)"
  "disk_hist_update f14 (setcur q s) = setcur q (disk_hist_update f14 s)"
  "sblk_update f15 (setcur q s) = setcur q (sblk_update f15 s)"
  "klog_update f16 (setcur q s) = setcur q (klog_update f16 s)"
  "inodes_update f17 (setcur q s) = setcur q (inodes_update f17 s)"
  "files_update f18 (setcur q s) = setcur q (files_update f18 s)"
  "pipes_update f19 (setcur q s) = setcur q (pipes_update f19 s)"
  "kcons_update f20 (setcur q s) = setcur q (kcons_update f20 s)"
  "kuart_update f21 (setcur q s) = setcur q (kuart_update f21 s)"
  "uart_out_update f22 (setcur q s) = setcur q (uart_out_update f22 s)"
  "kticks_update f23 (setcur q s) = setcur q (kticks_update f23 s)"
  "kernel_pagetable_update f24 (setcur q s) = setcur q (kernel_pagetable_update f24 s)"
  "csrs_update f25 (setcur q s) = setcur q (csrs_update f25 s)"
  "mmio_update f26 (setcur q s) = setcur q (mmio_update f26 s)"
  "uart_in_update f27 (setcur q s) = setcur q (uart_in_update f27 s)"
  "panicked_update f28 (setcur q s) = setcur q (panicked_update f28 s)"
  "pr_locking_update f29 (setcur q s) = setcur q (pr_locking_update f29 s)"
  "devsw_update f30 (setcur q s) = setcur q (devsw_update f30 s)"
  "started_update f31 (setcur q s) = setcur q (started_update f31 s)"
  "ksym_update f32 (setcur q s) = setcur q (ksym_update f32 s)"
  "vdev_update f33 (setcur q s) = setcur q (vdev_update f33 s)"
  "mmio_rd_update f34 (setcur q s) = setcur q (mmio_rd_update f34 s)"
  "uart_room_update f90 (setcur q s) = setcur q (uart_room_update f90 s)"
  "fs_first_update f91 (setcur q s) = setcur q (fs_first_update f91 s)"
  "slocks_update f0 (set_sie b s) = set_sie b (slocks_update f0 s)"
  "kend_update f1 (set_sie b s) = set_sie b (kend_update f1 s)"
  "ketext_update f2 (set_sie b s) = set_sie b (ketext_update f2 s)"
  "ktrampoline_update f3 (set_sie b s) = set_sie b (ktrampoline_update f3 s)"
  "mem_update f4 (set_sie b s) = set_sie b (mem_update f4 s)"
  "freelist_update f5 (set_sie b s) = set_sie b (freelist_update f5 s)"
  "procs_update f6 (set_sie b s) = set_sie b (procs_update f6 s)"
  "initproc_update f7 (set_sie b s) = set_sie b (initproc_update f7 s)"
  "nextpid_update f8 (set_sie b s) = set_sie b (nextpid_update f8 s)"
  "bufs_update f9 (set_sie b s) = set_sie b (bufs_update f9 s)"
  "bhead_prev_update f10 (set_sie b s) = set_sie b (bhead_prev_update f10 s)"
  "bhead_next_update f11 (set_sie b s) = set_sie b (bhead_next_update f11 s)"
  "vdisk_update f12 (set_sie b s) = set_sie b (vdisk_update f12 s)"
  "disk_img_update f13 (set_sie b s) = set_sie b (disk_img_update f13 s)"
  "disk_hist_update f14 (set_sie b s) = set_sie b (disk_hist_update f14 s)"
  "sblk_update f15 (set_sie b s) = set_sie b (sblk_update f15 s)"
  "klog_update f16 (set_sie b s) = set_sie b (klog_update f16 s)"
  "inodes_update f17 (set_sie b s) = set_sie b (inodes_update f17 s)"
  "files_update f18 (set_sie b s) = set_sie b (files_update f18 s)"
  "pipes_update f19 (set_sie b s) = set_sie b (pipes_update f19 s)"
  "kcons_update f20 (set_sie b s) = set_sie b (kcons_update f20 s)"
  "kuart_update f21 (set_sie b s) = set_sie b (kuart_update f21 s)"
  "uart_out_update f22 (set_sie b s) = set_sie b (uart_out_update f22 s)"
  "kticks_update f23 (set_sie b s) = set_sie b (kticks_update f23 s)"
  "kernel_pagetable_update f24 (set_sie b s) = set_sie b (kernel_pagetable_update f24 s)"
  "csrs_update f25 (set_sie b s) = set_sie b (csrs_update f25 s)"
  "mmio_update f26 (set_sie b s) = set_sie b (mmio_update f26 s)"
  "uart_in_update f27 (set_sie b s) = set_sie b (uart_in_update f27 s)"
  "panicked_update f28 (set_sie b s) = set_sie b (panicked_update f28 s)"
  "pr_locking_update f29 (set_sie b s) = set_sie b (pr_locking_update f29 s)"
  "devsw_update f30 (set_sie b s) = set_sie b (devsw_update f30 s)"
  "started_update f31 (set_sie b s) = set_sie b (started_update f31 s)"
  "ksym_update f32 (set_sie b s) = set_sie b (ksym_update f32 s)"
  "vdev_update f33 (set_sie b s) = set_sie b (vdev_update f33 s)"
  "mmio_rd_update f34 (set_sie b s) = set_sie b (mmio_rd_update f34 s)"
  "uart_room_update f90 (set_sie b s) = set_sie b (uart_room_update f90 s)"
  "fs_first_update f91 (set_sie b s) = set_sie b (fs_first_update f91 s)"
  by (simp_all add: setcur_def set_sie_def)

lemma setcur_machine [simp]:
  "freelk lk (setcur q s) = freelk lk s" "cpu_ok (setcur q s) = cpu_ok s" "sie (setcur q s) = sie s"
  "curproc (setcur q s) = q" "plocks m (setcur q s) = plocks m s" "setcur q (sync s) = sync (setcur q s)" "setcur q (acq lk s) = acq lk (setcur q s)"
  "setcur q (setcur r s) = setcur q s" "noff (cpus (setcur q s) h) = noff (cpus s h)"
  "setcur q (set_sie b s) = set_sie b (setcur q s)"
  by (auto simp: setcur_def set_sie_def freelk_def cpu_ok_def sie_def curproc_def sync_def acq_def plocks_def intro!: kstate.equality)

lemma setcur_same: "curproc s = q \<Longrightarrow> setcur q s = s"
  by (auto simp: setcur_def curproc_def)

lemma SIE_nonzero [simp]: "SSTATUS_SIE \<noteq> 0"
  by (simp add: SSTATUS_SIE_def)

lemma SIE_or_ne: "(x OR SSTATUS_SIE) AND SSTATUS_SIE \<noteq> 0"
  unfolding sie_iff_bit by (simp add: SSTATUS_SIE_def bit_simps)

lemma SIE_or_off: "(x OR SSTATUS_SIE) AND NOT SSTATUS_SIE = x AND NOT SSTATUS_SIE"
  by (rule bit_word_eqI) (auto simp: bit_simps)

lemma SIE_off_on: "(x AND NOT SSTATUS_SIE) OR SSTATUS_SIE = x OR SSTATUS_SIE"
  by (rule bit_word_eqI) (auto simp: bit_simps)

lemma set_sie_machine [simp]:
  "freelk lk (set_sie b s) = freelk lk s" "sie (set_sie b s) = b" "curproc (set_sie b s) = curproc s"
  "set_sie b (set_sie c s) = set_sie b s" "plocks m (set_sie b s) = plocks m s"
  by (simp_all add: plocks_def set_sie_def freelk_def sie_def sie_off SIE_or_ne curproc_def SIE_or_off SIE_off_on)

lemma cpu_ok_set_sie [simp]: "noff (cpus s (hart s)) = 0 \<Longrightarrow> cpu_ok (set_sie b s)"
  by (simp add: cpu_ok_def)

lemma set_sie_same: "sie s = b \<Longrightarrow> set_sie b s = s"
  by (auto simp: set_sie_def sie_def sie_restore_off sie_restore_on[symmetric] SIE_off_on)
    (metis SIE_off_on sie_restore_on fun_upd_triv kstate.surjective kstate.update_convs(3))

lemma set_sie_sync [simp]:
  "noff (cpus s (hart s)) = 0 \<Longrightarrow> acq lk (set_sie b (sync s)) = acq lk (set_sie b s)"
  "noff (cpus s (hart s)) = 0 \<Longrightarrow> sync (set_sie b (sync s)) = sync (set_sie b s)"
  by (auto simp: acq_def sync_def set_sie_def sie_def intro!: kstate.equality)

lemma noff_sync [simp]: "noff (cpus (sync s) h) = noff (cpus s h)"
  by (simp add: sync_def)

lemma intr_on_eq: "intr_on s = Ok () (set_sie True s)"
  by (simp add: intr_defs kmon set_sie_def)

lemma intr_off_eq: "intr_off s = Ok () (set_sie False s)"
  by (simp add: intr_defs kmon set_sie_def)

lemma set_mycpu_cur: "set_mycpu (\<lambda>c. c\<lparr>c_proc := q\<rparr>) s = Ok () (setcur q s)"
  by (simp add: set_mycpu_def cpuid_def kmon setcur_def)

lemma scheduler_back_eq:
  "freelk (ProcLock p) s \<Longrightarrow> cpu_ok s \<Longrightarrow> scheduler_back p (acq (ProcLock p) s) = Ok () (sync (setcur None s))"
  by (simp add: scheduler_back_def kmon set_mycpu_cur)

lemma scheduler_pick_eq:
  assumes "freelk (ProcLock p) s" "cpu_ok s"
  shows "scheduler_pick p s = (if p_state (procs s p) = RUNNABLE
    then Ok True (acq (ProcLock p) (setcur (Some p) (s\<lparr>procs := (procs s)(p := (procs s p)\<lparr>p_state := RUNNING\<rparr>)\<rparr>)))
    else Ok False (sync s))"
  using assms by (simp add: scheduler_pick_def kmon set_mycpu_cur proc_access)

lemma resume_release:
  assumes "freelk (ProcLock p) s" "noff (cpus s (hart s)) = 0"
  shows "thn (sched_resume p) (thn (setp p f) (release (ProcLock p))) (acq (ProcLock p) s)
    = Ok () (sync (set_sie (p_intena (procs s p)) (s\<lparr>procs := (procs s)(p := f ((procs s p)\<lparr>p_intena := False\<rparr>))\<rparr>)))"
  using assms lock_restore[OF assms(1)]
  by (auto simp: sched_resume_def release_unfold proc_access set_sie_def SIE_off_on SIE_or_ne fun_eq_iff
      intro!: kstate.equality cpu.equality)

lemma yield_resume_eq:
  assumes "freelk (ProcLock p) s" "noff (cpus s (hart s)) = 0"
  shows "yield_resume p (acq (ProcLock p) s)
    = Ok () (sync (set_sie (p_intena (procs s p)) (s\<lparr>procs := (procs s)(p := (procs s p)\<lparr>p_intena := False\<rparr>)\<rparr>)))"
  using resume_release[OF assms, of "\<lambda>q. q"]
  by (simp add: yield_resume_def thn_apply setp_def modify_apply split: outcome.splits)

lemma sleep_resume_eq:
  assumes "freelk (ProcLock p) s" "noff (cpus s (hart s)) = 0" "freelk lk s"
  shows "sleep_resume p lk (acq (ProcLock p) s) = Ok () (acq lk (set_sie (p_intena (procs s p))
     (s\<lparr>procs := (procs s)(p := (procs s p)\<lparr>p_intena := False, p_chan := NullChan\<rparr>)\<rparr>)))"
proof -
  let ?m = "thn (sched_resume p) (thn (setp p (\<lambda>q. q\<lparr>p_chan := NullChan\<rparr>)) (release (ProcLock p)))"
  have "sleep_resume p lk = thn ?m (acquire lk)"
    by (simp only: sleep_resume_def thn_assoc)
  then show ?thesis
    using thn_Ok[of ?m, OF resume_release[OF assms(1,2)], of "acquire lk"] assms(3) by simp
qed

section \<open>Allocating process ids and killing\<close>

lemma allocpid_eq:
  "freelk PidLock s \<Longrightarrow> cpu_ok s \<Longrightarrow> allocpid s = Ok (nextpid s) (sync (s\<lparr>nextpid := nextpid s + 1\<rparr>))"
  by (simp add: allocpid_def kmon)

definition kill_proc :: "proc \<Rightarrow> proc" where
  "kill_proc q = q\<lparr>p_killed := True, p_state := (if p_state q = SLEEPING then RUNNABLE else p_state q)\<rparr>"

lemma kill_one_eq:
  assumes "freelk (ProcLock p) s" "cpu_ok s"
  shows "kill_one pid p s = (if p_pid (procs s p) = pid
    then Ok (Some 0) (sync (s\<lparr>procs := (procs s)(p := kill_proc (procs s p))\<rparr>)) else Ok None (sync s))"
  using assms
  by (auto simp: kill_one_def kmon proc_access kill_proc_def
      intro!: arg_cong[where f=sync] kstate.equality proc.equality simp: fun_eq_iff)

lemma kill_list:
  assumes "\<forall>p\<in>set xs. freelk (ProcLock p) s" "cpu_ok s" "xs \<noteq> []"
  shows "forl xs (kill_one pid) s = (case find (\<lambda>p. p_pid (procs s p) = pid) xs of
      None \<Rightarrow> Ok None (sync s)
    | Some p \<Rightarrow> Ok (Some 0) (sync (s\<lparr>procs := (procs s)(p := kill_proc (procs s p))\<rparr>)))"
  using assms
proof (induction xs arbitrary: s)
  case (Cons p xs)
  then have one: "freelk (ProcLock p) s" "cpu_ok s" by auto
  show ?case
  proof (cases "p_pid (procs s p) = pid")
    case True
    then show ?thesis using kill_one_eq[OF one, of pid] by (simp add: bnd_apply ret_apply)
  next
    case False
    then have "kill_one pid p s = Ok None (sync s)" using kill_one_eq[OF one, of pid] by simp
    from forl_next[of "kill_one pid", OF this, of xs] show ?thesis
      using False Cons by (cases "xs = []") (auto simp: ret_apply split: option.split)
  qed
qed simp

lemma kill_eq:
  assumes "plocks None s" "cpu_ok s"
  shows "kill pid s = (case find (\<lambda>p. p_pid (procs s p) = pid) [0..<NPROC] of
      None \<Rightarrow> Ok (-1) (sync s)
    | Some p \<Rightarrow> Ok 0 (sync (s\<lparr>procs := (procs s)(p := kill_proc (procs s p))\<rparr>)))"
proof -
  have "[0..<NPROC] \<noteq> []" by (simp add: NPROC_def)
  with assms show ?thesis
    by (simp add: kill_def bnd_apply kill_list plocks_def ret_apply split: option.split)
qed

section \<open>A kernel thread outside critical sections\<close>

text \<open>
  \<open>quiet s\<close> describes the state in which a kernel thread calls into the file system while no other thread is inside it:
  no spin lock is held, the current process runs, and no process waits on a channel of the disk, the buffers, the log
  or a sleep lock.
\<close>

definition iochan :: "chan \<Rightarrow> bool" where
  "iochan ch = (case ch of BufChan _ \<Rightarrow> True | DiskFreeChan \<Rightarrow> True | LogChan \<Rightarrow> True | SleepChan _ \<Rightarrow> True | _ \<Rightarrow> False)"

definition quiet :: "kstate \<Rightarrow> bool" where
  "quiet s = ((\<forall>lk. freelk lk s) \<and> cpu_ok s \<and> noff (cpus s (hart s)) = 0 \<and>
     (\<exists>p<NPROC. curproc s = Some p \<and> p_state (procs s p) = RUNNING \<and> p_chan (procs s p) = NullChan \<and> \<not> p_intena (procs s p)) \<and>
     (\<forall>q<NPROC. p_state (procs s q) = SLEEPING \<longrightarrow> \<not> iochan (p_chan (procs s q))))"

lemma quiet_update [simp]:
  "quiet (slocks_update f0 s) = quiet s"
  "quiet (kend_update f1 s) = quiet s"
  "quiet (ketext_update f2 s) = quiet s"
  "quiet (ktrampoline_update f3 s) = quiet s"
  "quiet (mem_update f4 s) = quiet s"
  "quiet (freelist_update f5 s) = quiet s"
  "quiet (initproc_update f6 s) = quiet s"
  "quiet (nextpid_update f7 s) = quiet s"
  "quiet (bufs_update f8 s) = quiet s"
  "quiet (bhead_prev_update f9 s) = quiet s"
  "quiet (bhead_next_update f10 s) = quiet s"
  "quiet (vdisk_update f11 s) = quiet s"
  "quiet (disk_img_update f12 s) = quiet s"
  "quiet (disk_hist_update f13 s) = quiet s"
  "quiet (sblk_update f14 s) = quiet s"
  "quiet (klog_update f15 s) = quiet s"
  "quiet (inodes_update f16 s) = quiet s"
  "quiet (files_update f17 s) = quiet s"
  "quiet (pipes_update f18 s) = quiet s"
  "quiet (kcons_update f19 s) = quiet s"
  "quiet (kuart_update f20 s) = quiet s"
  "quiet (uart_out_update f21 s) = quiet s"
  "quiet (kticks_update f22 s) = quiet s"
  "quiet (kernel_pagetable_update f23 s) = quiet s"
  "quiet (csrs_update f24 s) = quiet s"
  "quiet (mmio_update f25 s) = quiet s"
  "quiet (uart_in_update f26 s) = quiet s"
  "quiet (panicked_update f27 s) = quiet s"
  "quiet (pr_locking_update f28 s) = quiet s"
  "quiet (devsw_update f29 s) = quiet s"
  "quiet (started_update f30 s) = quiet s"
  "quiet (ksym_update f31 s) = quiet s"
  "quiet (vdev_update f32 s) = quiet s"
  "quiet (mmio_rd_update f33 s) = quiet s"
  "quiet (uart_room_update f90 s) = quiet s"
  "quiet (fs_first_update f91 s) = quiet s"
  "quiet (sync s) = quiet s"
  by (simp_all add: quiet_def)

lemma quiet_lock [simp]: "quiet s \<Longrightarrow> freelk lk s" "quiet s \<Longrightarrow> cpu_ok s" "quiet s \<Longrightarrow> noff (cpus s (hart s)) = 0"
  "quiet s \<Longrightarrow> plocks m s"
  unfolding quiet_def plocks_def by blast+

lemma quietE:
  assumes "quiet s"
  obtains p where "p < NPROC" "curproc s = Some p" "p_state (procs s p) = RUNNING" "p_chan (procs s p) = NullChan"
    "\<not> p_intena (procs s p)"
  using assms unfolding quiet_def by blast

lemma quiet_nosleep: "quiet s \<Longrightarrow> q < NPROC \<Longrightarrow> p_state (procs s q) = SLEEPING \<Longrightarrow> \<not> iochan (p_chan (procs s q))"
  unfolding quiet_def by blast

lemma quiet_cur:
  assumes "quiet s" "curproc s = Some p"
  shows "p < NPROC" "p_state (procs s p) = RUNNING" "p_chan (procs s p) = NullChan" "\<not> p_intena (procs s p)"
  using assms by (auto elim: quietE)

lemma quiet_wake [simp]: "quiet s \<Longrightarrow> iochan ch \<Longrightarrow> wake_all ch m (procs s) = procs s"
  unfolding quiet_def wake_in_def by (rule ext) auto

lemma quiet_wake_self:
  assumes "quiet s" "curproc s = Some p" "iochan ch" "p_state q = SLEEPING" "p_chan q = ch"
  shows "wake_all ch None ((procs s)(p := q)) = (procs s)(p := q\<lparr>p_state := RUNNABLE\<rparr>)"
proof -
  have "\<forall>r<NPROC. p_state (procs s r) = SLEEPING \<longrightarrow> p_chan (procs s r) \<noteq> ch"
    using quiet_nosleep[OF assms(1)] assms(3) by fastforce
  with quiet_cur(1)[OF assms(1,2)] assms(4,5) show ?thesis by (auto simp: wake_in_def fun_eq_iff)
qed

lemma iochan_simps [simp]: "iochan (BufChan b)" "iochan DiskFreeChan" "iochan LogChan" "iochan (SleepChan x)" "\<not> iochan NullChan"
  by (simp_all add: iochan_def)

definition mypid :: "kstate \<Rightarrow> int" where
  "mypid s = p_pid (procs s (the (curproc s)))"

lemma mypid_update [simp]:
  "mypid (slocks_update f0 s) = mypid s"
  "mypid (kend_update f1 s) = mypid s"
  "mypid (ketext_update f2 s) = mypid s"
  "mypid (ktrampoline_update f3 s) = mypid s"
  "mypid (mem_update f4 s) = mypid s"
  "mypid (freelist_update f5 s) = mypid s"
  "mypid (initproc_update f6 s) = mypid s"
  "mypid (nextpid_update f7 s) = mypid s"
  "mypid (bufs_update f8 s) = mypid s"
  "mypid (bhead_prev_update f9 s) = mypid s"
  "mypid (bhead_next_update f10 s) = mypid s"
  "mypid (vdisk_update f11 s) = mypid s"
  "mypid (disk_img_update f12 s) = mypid s"
  "mypid (disk_hist_update f13 s) = mypid s"
  "mypid (sblk_update f14 s) = mypid s"
  "mypid (klog_update f15 s) = mypid s"
  "mypid (inodes_update f16 s) = mypid s"
  "mypid (files_update f17 s) = mypid s"
  "mypid (pipes_update f18 s) = mypid s"
  "mypid (kcons_update f19 s) = mypid s"
  "mypid (kuart_update f20 s) = mypid s"
  "mypid (uart_out_update f21 s) = mypid s"
  "mypid (kticks_update f22 s) = mypid s"
  "mypid (kernel_pagetable_update f23 s) = mypid s"
  "mypid (csrs_update f24 s) = mypid s"
  "mypid (mmio_update f25 s) = mypid s"
  "mypid (uart_in_update f26 s) = mypid s"
  "mypid (panicked_update f27 s) = mypid s"
  "mypid (pr_locking_update f28 s) = mypid s"
  "mypid (devsw_update f29 s) = mypid s"
  "mypid (started_update f30 s) = mypid s"
  "mypid (ksym_update f31 s) = mypid s"
  "mypid (vdev_update f32 s) = mypid s"
  "mypid (mmio_rd_update f33 s) = mypid s"
  "mypid (uart_room_update f90 s) = mypid s"
  "mypid (fs_first_update f91 s) = mypid s"
  "mypid (sync s) = mypid s"
  "mypid (acq lk s) = mypid s"
  by (simp_all add: mypid_def)

text \<open>A state for examples: the kernel's initial data with process 0 running on hart 0.\<close>

definition demo_run :: "u64 \<Rightarrow> (nat \<Rightarrow> bdata) \<Rightarrow> kstate" where
  "demo_run e img = (setcur (Some 0) (boot_state e 0 0 img))\<lparr>procs := (\<lambda>_. zero_proc)(0 := zero_proc\<lparr>p_state := RUNNING, p_pid := 1\<rparr>)\<rparr>"

lemma quiet_demo_run [simp]: "quiet (demo_run e img)" "curproc (demo_run e img) = Some 0"
proof -
  let ?b = "boot_state e 0 0 img"
  have "noff (cpus (demo_run e img) (hart (demo_run e img))) = 0"
    by (simp add: demo_run_def setcur_def boot_state_def)
  then show "quiet (demo_run e img)"
    unfolding quiet_def by (simp add: demo_run_def NPROC_def zero_proc_def)
qed (simp add: demo_run_def)

section \<open>Theorems\<close>

text \<open>
  C22: \<open>wakeup\<close> returns and makes runnable exactly the other processes that sleep on the channel: no sleeper on it is
  missed, no other process changes state, and nothing else in the kernel changes.
\<close>

theorem wakeup_wakes_exactly:
  assumes "cpu_ok s" "plocks (curproc s) s"
  shows "\<exists>t. wakeup ch s = Ok () t \<and>
    (\<forall>p<NPROC. Some p \<noteq> curproc s \<longrightarrow>
       (p_state (procs s p) = SLEEPING \<and> p_chan (procs s p) = ch \<longrightarrow> procs t p = (procs s p)\<lparr>p_state := RUNNABLE\<rparr>) \<and>
       (\<not> (p_state (procs s p) = SLEEPING \<and> p_chan (procs s p) = ch) \<longrightarrow> procs t p = procs s p)) \<and>
    (\<forall>p. p \<ge> NPROC \<or> Some p = curproc s \<longrightarrow> procs t p = procs s p) \<and>
    t\<lparr>procs := procs s\<rparr> = sync s"
  using assms by (auto simp: wake_in_def)

theorem wakeup_wakes_exactly_witness:
  "\<exists>t. wakeup TicksChan ((boot_state 0 0 0 (\<lambda>_ _. 0))\<lparr>procs := (\<lambda>_. zero_proc\<lparr>p_state := SLEEPING, p_chan := TicksChan\<rparr>)\<rparr>)
     = Ok () t \<and> p_state (procs t 5) = RUNNABLE"
proof -
  let ?s = "(boot_state 0 0 0 (\<lambda>_ _. 0))\<lparr>procs := (\<lambda>_. zero_proc\<lparr>p_state := SLEEPING, p_chan := TicksChan\<rparr>)\<rparr>"
  have "curproc ?s = None" "plocks (curproc ?s) ?s" "cpu_ok ?s"
    by (simp_all add: plocks_def curproc_def[of "boot_state _ _ _ _"] boot_state_def[THEN arg_cong[where f=cpus]])
  with wakeup_wakes_exactly[of ?s TicksChan] show ?thesis
    by (auto simp: NPROC_def dest!: spec[of _ "5::nat"])
qed

text \<open>
  C23: \<open>kill\<close> marks the first process with the given id as killed, wakes it if it sleeps, and returns 0; if no process has the id it
  returns -1 and changes no process.
\<close>

theorem kill_marks_and_wakes:
  assumes "plocks None s" "cpu_ok s"
  shows "\<exists>r t. kill pid s = Ok r t \<and>
    (if \<exists>p<NPROC. p_pid (procs s p) = pid
     then r = 0 \<and> (\<exists>p<NPROC. p_pid (procs s p) = pid \<and> (\<forall>q<p. p_pid (procs s q) \<noteq> pid) \<and>
       procs t = (procs s)(p := (procs s p)\<lparr>p_killed := True,
         p_state := (if p_state (procs s p) = SLEEPING then RUNNABLE else p_state (procs s p))\<rparr>))
     else r = -1 \<and> procs t = procs s)"
proof (cases "find (\<lambda>p. p_pid (procs s p) = pid) [0..<NPROC]")
  case None
  then have "\<forall>p<NPROC. p_pid (procs s p) \<noteq> pid" by (auto simp: find_None_iff)
  moreover have "kill pid s = Ok (-1) (sync s)" using kill_eq[OF assms, of pid] None by simp
  ultimately show ?thesis by auto
next
  case (Some p)
  then have "p < NPROC" "p_pid (procs s p) = pid" "\<forall>q<p. p_pid (procs s q) \<noteq> pid"
    by (auto simp: find_Some_iff)
  with Some show ?thesis using kill_eq[OF assms, of pid] by (auto simp: kill_proc_def)
qed

theorem kill_marks_and_wakes_witness:
  "\<exists>r t. kill 7 (boot_state 0 0 0 (\<lambda>_ _. 0)) = Ok r t \<and> r = -1"
proof -
  let ?s = "boot_state 0 0 0 (\<lambda>_ _. 0)"
  have "plocks None ?s" "cpu_ok ?s" "\<And>p. p_pid (procs ?s p) = 0"
    by (simp_all add: plocks_def) (simp add: boot_state_def zero_proc_def)
  with kill_marks_and_wakes[of ?s 7] show ?thesis by force
qed

end
