(* ===== verification/Kalloc.thy ===== *)
theory Kalloc
  imports Spinlock Memlayout
begin

text \<open>
  The physical page allocator (\<^verbatim>\<open>kalloc.c\<close>). The free list is threaded through the free pages: the first eight
  bytes of a free page hold the address of the next one. \<open>kmem_list\<close> relates that chain in memory to
  a list of pages, and the operations are shown to work as a stack of pages on it.
\<close>

section \<open>The code\<close>

definition kfree :: "u64 \<Rightarrow> unit kernel" where
  "kfree pa =
     bnd (gets kend) (\<lambda>end.
     if pa mod PGSIZE \<noteq> 0 \<or> pa < end \<or> PHYSTOP \<le> pa then panic ''kfree'' else
     thn (modify (\<lambda>s. s\<lparr>mem := memset (mem s) pa 1 (unat PGSIZE)\<rparr>)) (
     thn (acquire KmemLock) (
     thn (modify (\<lambda>s. s\<lparr>mem := put64 (mem s) pa (freelist s)\<rparr>)) (
     thn (modify (\<lambda>s. s\<lparr>freelist := pa\<rparr>))
     (release KmemLock)))))"

definition kalloc :: "u64 kernel" where
  "kalloc =
     thn (acquire KmemLock) (
     bnd (gets freelist) (\<lambda>r.
     thn (whenM (r \<noteq> 0) (modify (\<lambda>s. s\<lparr>freelist := le64 (mem s) r\<rparr>))) (
     thn (release KmemLock) (
     thn (whenM (r \<noteq> 0) (modify (\<lambda>s. s\<lparr>mem := memset (mem s) r 5 (unat PGSIZE)\<rparr>)))
     (ret r)))))"

text \<open>
  The loop of \<open>freerange\<close> advances by a page at a time, so \<open>2 ^ 52\<close> rounds cover the whole address space.
\<close>

definition freerange :: "u64 \<Rightarrow> u64 \<Rightarrow> unit kernel" where
  "freerange pa_start pa_end =
     loopf (2 ^ 52) (\<lambda>p. if p + PGSIZE \<le> pa_end then thn (kfree p) (ret (Inl (p + PGSIZE))) else ret (Inr ()))
       (PGROUNDUP pa_start)"

definition kinit :: "unit kernel" where
  "kinit =
     thn (initlock KmemLock ''kmem'') (
     bnd (gets kend) (\<lambda>end. freerange end PHYSTOP))"

section \<open>The free list in memory\<close>

fun chain :: "(u64 \<Rightarrow> byte) \<Rightarrow> u64 \<Rightarrow> u64 list \<Rightarrow> bool" where
  "chain m p [] = (p = 0)"
| "chain m p (x # xs) = (p = x \<and> x \<noteq> 0 \<and> chain m (le64 m x) xs)"

definition ram_page :: "kstate \<Rightarrow> u64 \<Rightarrow> bool" where
  "ram_page s pa = (pgalign pa \<and> kend s \<le> pa \<and> pa < PHYSTOP)"

definition kmem_list :: "kstate \<Rightarrow> u64 list \<Rightarrow> bool" where
  "kmem_list s xs = (chain (mem s) (freelist s) xs \<and> distinct xs \<and> (\<forall>x\<in>set xs. ram_page s x) \<and> 0 < kend s)"

lemma chain_cong:
  assumes "\<And>x b. x \<in> set xs \<Longrightarrow> pgno b = pgno x \<Longrightarrow> m b = m' b" and "\<forall>x\<in>set xs. pgalign x"
  shows "chain m p xs = chain m' p xs"
  using assms
proof (induction xs arbitrary: p)
  case (Cons x xs)
  have "le64 m (x + of_nat 0) = le64 m' (x + of_nat 0)"
    by (rule le64_same_page) (use Cons.prems in auto)
  with Cons show ?case by auto
qed simp

lemma ram_page_select [simp]:
  "ram_page (s\<lparr>mem := m\<rparr>) = ram_page s" "ram_page (s\<lparr>freelist := p\<rparr>) = ram_page s"
  "ram_page (sync s) = ram_page s" "ram_page (acq lk s) = ram_page s"
  by (simp_all add: fun_eq_iff ram_page_def)

lemma kmem_list_sync [simp]: "kmem_list (sync s) xs = kmem_list s xs"
  by (simp add: kmem_list_def)

lemma kmem_list_outside:
  assumes "kmem_list s xs" and "\<And>x b. x \<in> set xs \<Longrightarrow> pgno b = pgno x \<Longrightarrow> m b = mem s b"
  shows "kmem_list (s\<lparr>mem := m\<rparr>) xs"
proof -
  have "chain m (freelist s) xs = chain (mem s) (freelist s) xs"
    by (rule chain_cong) (use assms in \<open>auto simp: kmem_list_def ram_page_def\<close>)
  with assms show ?thesis by (simp add: kmem_list_def)
qed

lemma unat_PGSIZE [simp]: "unat PGSIZE = 4096"
  by (simp add: PGSIZE_def)

lemma kfree_invalid: "\<not> ram_page s pa \<Longrightarrow> kfree pa s = Panic ''kfree''"
  unfolding ram_page_def pgalign_def de_Morgan_conj not_le not_less by (auto simp: kfree_def kmon)

lemma kfree_valid:
  assumes "ram_page s pa" "freelk KmemLock s" "cpu_ok s"
  shows "kfree pa s = Ok () (sync (s\<lparr>mem := put64 (memset (mem s) pa 1 4096) pa (freelist s), freelist := pa\<rparr>))"
  using assms by (simp add: kfree_def kmon ram_page_def pgalign_def not_less not_le)

lemma kalloc_empty:
  assumes "freelist s = 0" "freelk KmemLock s" "cpu_ok s"
  shows "kalloc s = Ok 0 (sync s)"
  using assms by (simp add: kalloc_def kmon)

lemma kalloc_some:
  assumes "freelist s = r" "r \<noteq> 0" "freelk KmemLock s" "cpu_ok s"
  shows "kalloc s = Ok r (sync (s\<lparr>freelist := le64 (mem s) r, mem := memset (mem s) r 5 4096\<rparr>))"
  using assms by (simp add: kalloc_def kmon)

lemma kmem_list_push:
  assumes inv: "kmem_list s xs" and pa: "ram_page s pa" "pa \<notin> set xs"
  shows "kmem_list (s\<lparr>mem := put64 (memset (mem s) pa 1 4096) pa (freelist s), freelist := pa\<rparr>) (pa # xs)"
proof -
  let ?m = "put64 (memset (mem s) pa 1 4096) pa (freelist s)"
  have al: "pgalign pa" "\<forall>x\<in>set xs. pgalign x" using inv pa by (auto simp: kmem_list_def ram_page_def)
  have "?m b = mem s b" if "x \<in> set xs" "pgno b = pgno x" for x b
  proof -
    have "pgno b \<noteq> pgno pa" using that al pa(2) pgalign_eqI by metis
    then show ?thesis using al(1) put64_other_page[of pa 0 b] by (simp add: memset_page)
  qed
  then have "chain ?m (freelist s) xs = chain (mem s) (freelist s) xs"
    using al(2) by (intro chain_cong) auto
  moreover have "pa \<noteq> 0" using inv pa(1) by (auto simp: kmem_list_def ram_page_def)
  ultimately show ?thesis using inv pa by (simp add: kmem_list_def)
qed

lemma kmem_list_pop:
  assumes inv: "kmem_list s (x # xs)"
  shows "kmem_list (s\<lparr>freelist := le64 (mem s) x, mem := memset (mem s) x 5 4096\<rparr>) xs"
proof -
  have al: "pgalign x" "\<forall>y\<in>set xs. pgalign y" "x \<notin> set xs"
    using inv by (auto simp: kmem_list_def ram_page_def)
  have "kmem_list (s\<lparr>freelist := le64 (mem s) x\<rparr>) xs" using inv by (simp add: kmem_list_def)
  moreover have "memset (mem s) x 5 4096 b = mem s b" if "y \<in> set xs" "pgno b = pgno y" for y b
    using that al pgalign_eqI[of x y] by (auto simp: memset_page)
  ultimately show ?thesis using kmem_list_outside by fastforce
qed

section \<open>The contract of a page allocator\<close>

text \<open>
  What the rest of the kernel relies on: the pool of free pages behaves as a stack, allocation takes its top page and
  fails only when there is none, and freeing a page that is not in the pool puts it on top.
\<close>

locale page_allocator =
  fixes alloc :: "'s \<Rightarrow> ('s, u64) outcome"
    and free :: "u64 \<Rightarrow> 's \<Rightarrow> ('s, unit) outcome"
    and pool :: "'s \<Rightarrow> u64 list \<Rightarrow> bool"
    and page :: "'s \<Rightarrow> u64 \<Rightarrow> bool"
  assumes alloc_none: "pool s [] \<Longrightarrow> \<exists>t. alloc s = Ok 0 t \<and> pool t [] \<and> page t = page s"
    and alloc_top: "pool s (x # xs) \<Longrightarrow> \<exists>t. alloc s = Ok x t \<and> pool t xs \<and> page t = page s"
    and free_push: "pool s xs \<Longrightarrow> page s x \<Longrightarrow> x \<notin> set xs \<Longrightarrow> \<exists>t. free x s = Ok () t \<and> pool t (x # xs) \<and> page t = page s"
    and pool_pages: "pool s xs \<Longrightarrow> distinct xs \<and> (\<forall>x\<in>set xs. page s x \<and> x \<noteq> 0)"
begin

fun alloc_many :: "nat \<Rightarrow> ('s, u64 list) kmon" where
  "alloc_many 0 = ret []"
| "alloc_many (Suc n) = bnd alloc (\<lambda>x. bnd (alloc_many n) (\<lambda>xs. ret (x # xs)))"

fun free_many :: "u64 list \<Rightarrow> ('s, unit) kmon" where
  "free_many [] = ret ()"
| "free_many (x # xs) = thn (free x) (free_many xs)"

lemma alloc_many_take:
  assumes "pool s xs" "n \<le> length xs"
  shows "\<exists>t. alloc_many n s = Ok (take n xs) t \<and> pool t (drop n xs) \<and> page t = page s"
  using assms
proof (induction n arbitrary: s xs)
  case (Suc n)
  then obtain x ys where xs: "xs = x # ys" by (cases xs) auto
  with Suc.prems alloc_top obtain u where u: "alloc s = Ok x u" "pool u ys" "page u = page s" by blast
  with Suc.IH[of u ys] Suc.prems xs obtain t
    where "alloc_many n u = Ok (take n ys) t" "pool t (drop n ys)" "page t = page u" by auto
  with u xs show ?case by (simp add: kmon)
qed (simp add: kmon)

lemma free_many_push:
  assumes "pool s xs" "distinct ys" "\<forall>y\<in>set ys. page s y" "set ys \<inter> set xs = {}"
  shows "\<exists>t. free_many ys s = Ok () t \<and> pool t (rev ys @ xs) \<and> page t = page s"
  using assms
proof (induction ys arbitrary: s xs)
  case (Cons y ys)
  then obtain u where u: "free y s = Ok () u" "pool u (y # xs)" "page u = page s"
    using free_push[of s xs y] by auto
  then obtain t where "free_many ys u = Ok () t" "pool t (rev ys @ y # xs)" "page t = page u"
    using Cons.IH[of u "y # xs"] Cons.prems by auto
  with u show ?case by (simp add: kmon)
qed (simp add: kmon)

text \<open>Pages that were allocated and are freed in the reverse order restore the pool.\<close>

lemma alloc_free_restores:
  assumes "pool s xs" "n \<le> length xs"
  shows "\<exists>ps t. bnd (alloc_many n) (\<lambda>ps. thn (free_many (rev ps)) (ret ps)) s = Ok ps t
    \<and> length ps = n \<and> distinct ps \<and> pool t xs"
proof -
  obtain u where u: "alloc_many n s = Ok (take n xs) u" "pool u (drop n xs)" "page u = page s"
    using alloc_many_take[OF assms] by blast
  have d: "distinct xs" "\<forall>x\<in>set xs. page s x" using pool_pages[OF assms(1)] by auto
  have "distinct (take n xs @ drop n xs)" using d by simp
  then have "set (take n xs) \<inter> set (drop n xs) = {}" by (simp only: distinct_append)
  then obtain t where "free_many (rev (take n xs)) u = Ok () t" "pool t (take n xs @ drop n xs)"
    using free_many_push[OF u(2), of "rev (take n xs)"] d u(3) by (auto dest: in_set_takeD)
  with u d assms(2) show ?thesis by (simp add: kmon)
qed

end

text \<open>
  \<open>kmem_pool\<close>: the allocator between two calls. The lock is free and the chain in memory is the list.
\<close>

definition kmem_pool :: "kstate \<Rightarrow> u64 list \<Rightarrow> bool" where
  "kmem_pool s xs = (kmem_list s xs \<and> freelk KmemLock s \<and> cpu_ok s)"

lemma kmem_pool_nonzero: "kmem_list s xs \<Longrightarrow> x \<in> set xs \<Longrightarrow> x \<noteq> 0"
  by (auto simp: kmem_list_def ram_page_def)

interpretation km: page_allocator kalloc kfree kmem_pool ram_page
proof
  fix s :: kstate and x and xs
  show "\<exists>t. kalloc s = Ok 0 t \<and> kmem_pool t [] \<and> ram_page t = ram_page s" if "kmem_pool s []"
    using that kalloc_empty[of s] by (auto simp: kmem_pool_def kmem_list_def)
  show "\<exists>t. kalloc s = Ok x t \<and> kmem_pool t xs \<and> ram_page t = ram_page s" if "kmem_pool s (x # xs)"
    using that kalloc_some[of s x] kmem_list_pop[of s x xs] kmem_pool_nonzero[of s "x # xs" x]
    by (auto simp: kmem_pool_def kmem_list_def[of s])
  show "\<exists>t. kfree x s = Ok () t \<and> kmem_pool t (x # xs) \<and> ram_page t = ram_page s"
    if "kmem_pool s xs" "ram_page s x" "x \<notin> set xs"
    using that kfree_valid[of s x] kmem_list_push[of s xs x] by (auto simp: kmem_pool_def)
  show "distinct xs \<and> (\<forall>x\<in>set xs. ram_page s x \<and> x \<noteq> 0)" if "kmem_pool s xs"
    using that by (auto simp: kmem_pool_def kmem_list_def ram_page_def)
qed

section \<open>Initialisation\<close>

definition pages :: "u64 \<Rightarrow> nat \<Rightarrow> u64 list" where
  "pages p n = map (\<lambda>i. p + of_nat (i * 4096)) [0..<n]"

lemma pages_Suc: "pages p (Suc n) = p # pages (p + PGSIZE) n"
  by (simp add: pages_def upt_conv_Cons map_Suc_upt[symmetric] PGSIZE_def algebra_simps del: upt_Suc)

lemma pages_mem: "x \<in> set (pages p n) \<longleftrightarrow> (\<exists>i<n. x = p + of_nat (i * 4096))"
  by (auto simp: pages_def)

lemma unat_page_step:
  fixes p :: u64
  assumes "unat p + n * 4096 < 2 ^ 64" "i \<le> n"
  shows "unat (p + of_nat (i * 4096)) = unat p + i * 4096"
proof -
  have "i * 4096 \<le> n * 4096" using assms(2) by simp
  with assms(1) have "i * 4096 < 2 ^ 64" "unat p + i * 4096 < 2 ^ 64" by linarith+
  then show ?thesis by (simp add: unat_word_ariths unat_of_nat del: of_nat_mult)
qed

lemma distinct_pages: "unat p + n * 4096 < 2 ^ 64 \<Longrightarrow> distinct (pages p n)"
  unfolding pages_def
  by (auto simp: distinct_map inj_on_def word_unat_eq_iff unat_page_step simp del: of_nat_mult)

lemma freerange_loop:
  assumes "unat p + n * 4096 \<le> unat pe" "unat pe < unat p + n * 4096 + 4096" "unat pe + 4096 < 2 ^ 64" "n < k"
  shows "loopf k (\<lambda>p. if p + PGSIZE \<le> pe then thn (kfree p) (ret (Inl (p + PGSIZE))) else ret (Inr ())) p s
    = km.free_many (pages p n) s"
  using assms
proof (induction n arbitrary: p k s)
  case 0
  then have "\<not> p + PGSIZE \<le> pe"
    using unat_page_step[of p 1 1] by (simp add: word_le_nat_alt PGSIZE_def)
  moreover obtain j where "k = Suc j" using 0 by (cases k) auto
  ultimately show ?case by (simp add: kmon pages_def)
next
  case (Suc n)
  have step: "unat (p + PGSIZE) = unat p + 4096"
    using unat_page_step[of p 1 1] Suc.prems by (simp add: PGSIZE_def)
  then have "p + PGSIZE \<le> pe" using Suc.prems by (simp add: word_le_nat_alt)
  moreover obtain j where "k = Suc j" "n < j" using Suc.prems by (cases k) auto
  moreover note Suc.IH[of "p + PGSIZE" j] step Suc.prems
  ultimately show ?case
    by (simp add: kmon pages_Suc split: outcome.split)
qed

lemma initlock_free [simp]: "freelk lk (s\<lparr>locks := (locks s)(lk := (locks s lk)\<lparr>lkname := n, locked := False, lkcpu := None\<rparr>)\<rparr>)"
  by (simp add: freelk_def)

lemma cpu_ok_locks [simp]: "cpu_ok (locks_update f s) = cpu_ok s"
  by (simp add: cpu_ok_def sie_def)

lemma unat_PHYSTOP: "unat PHYSTOP = 34816 * 65536"
  by (simp add: PHYSTOP_def KERNBASE_def)

lemma ram_pages:
  assumes "kend s \<le> PHYSTOP"
  obtains n where "unat (PGROUNDUP (kend s)) + n * 4096 = unat PHYSTOP"
    and "set (pages (PGROUNDUP (kend s)) n) = {pa. ram_page s pa}"
proof
  let ?p = "PGROUNDUP (kend s)" and ?n = "557056 - (unat (kend s) + 4095) div 4096"
  have e: "unat (kend s) \<le> unat PHYSTOP" using assms by (simp add: word_le_nat_alt)
  have up: "unat ?p = (unat (kend s) + 4095) div 4096 * 4096"
    using e unat_PHYSTOP by (intro unat_PGROUNDUP) simp
  show n: "unat ?p + ?n * 4096 = unat PHYSTOP"
    using e unfolding up unat_PHYSTOP by (simp add: algebra_simps)
  then have small: "unat ?p + ?n * 4096 < 2 ^ 64" by (simp add: unat_PHYSTOP)
  have ge: "unat (kend s) \<le> unat ?p" "unat ?p < unat (kend s) + 4096" unfolding up by linarith+
  show "set (pages ?p ?n) = {pa. ram_page s pa}"
  proof (intro set_eqI iffI; clarsimp)
    fix x assume "x \<in> set (pages ?p ?n)"
    then obtain i where i: "i < ?n" "unat x = unat ?p + i * 4096"
      using unat_page_step[OF small] by (auto simp: pages_mem simp del: of_nat_mult)
    have "i * 4096 + 4096 \<le> ?n * 4096" using i by simp
    with i n ge show "ram_page s x"
      using pgalign_PGROUNDUP[of "kend s"]
      by (simp add: ram_page_def pgalign_unat word_le_nat_alt word_less_nat_alt mod_add_eq)
  next
    fix x assume x: "ram_page s x"
    then obtain k where k: "unat x = k * 4096"
      by (auto simp: ram_page_def pgalign_unat mod_eq_0_iff_dvd mult.commute)
    obtain j where j: "unat ?p = j * 4096" using up by auto
    have "unat (kend s) \<le> k * 4096" "k * 4096 < unat PHYSTOP"
      using x k by (auto simp: ram_page_def word_le_nat_alt word_less_nat_alt)
    then have jk: "j \<le> k" "k - j < ?n" using n ge j by simp_all
    then have "x = ?p + of_nat ((k - j) * 4096)"
      using j k unat_page_step[OF small, of "k - j"]
      by (simp add: word_unat_eq_iff diff_mult_distrib del: of_nat_mult)
    with jk show "x \<in> set (pages ?p ?n)" by (auto simp: pages_mem simp del: of_nat_mult)
  qed
qed

section \<open>Theorems\<close>

text \<open>
  C20: \<open>kinit\<close> returns and leaves every whole page between the end of the kernel and \<open>PHYSTOP\<close> in the free list, each
  exactly once, whatever the memory held before.
\<close>

theorem kinit_frees_all_pages:
  assumes "0 < kend s" "kend s \<le> PHYSTOP" "freelist s = 0" "cpu_ok s"
  shows "\<exists>t xs. kinit s = Ok () t \<and> kmem_pool t xs \<and> distinct xs \<and> set xs = {pa. ram_page s pa}"
proof -
  let ?p = "PGROUNDUP (kend s)" and ?l = "(locks s KmemLock)\<lparr>lkname := ''kmem'', locked := False, lkcpu := None\<rparr>"
  let ?s = "s\<lparr>locks := (locks s)(KmemLock := ?l)\<rparr>"
  obtain n where n: "unat ?p + n * 4096 = unat PHYSTOP" and pg: "set (pages ?p n) = {pa. ram_page s pa}"
    using ram_pages[OF assms(2)] by blast
  have d: "distinct (pages ?p n)" using n by (intro distinct_pages) (simp add: unat_PHYSTOP)
  have "kmem_pool ?s []" using assms by (simp add: kmem_pool_def kmem_list_def)
  moreover have "ram_page ?s = ram_page s" by (simp add: fun_eq_iff ram_page_def)
  ultimately obtain t where "km.free_many (pages ?p n) ?s = Ok () t" "kmem_pool t (rev (pages ?p n))"
    using km.free_many_push[of ?s "[]" "pages ?p n"] d pg by auto
  moreover have "kinit s = km.free_many (pages ?p n) ?s"
    using freerange_loop[of ?p n PHYSTOP "2 ^ 52" ?s] n unat_PHYSTOP
    by (simp add: kinit_def freerange_def initlock_def set_lock_def kmon)
  ultimately show ?thesis using pg d by (intro exI[of _ t] exI[of _ "rev (pages ?p n)"]) simp
qed

theorem kinit_frees_all_pages_witness:
  "\<exists>t xs. kinit (boot_state 0x80020000 0 0 (\<lambda>_ _. 0)) = Ok () t \<and> kmem_pool t xs \<and> 0x80020000 \<in> set xs"
proof -
  let ?s = "boot_state 0x80020000 0 0 (\<lambda>_ _. 0)"
  have "0 < kend ?s" "kend ?s \<le> PHYSTOP" "freelist ?s = 0" "ram_page ?s 0x80020000"
    by (simp_all add: boot_state_def layout ram_page_def pgalign_def)
  with kinit_frees_all_pages[of ?s] show ?thesis by fastforce
qed

text \<open>
  C21: \<open>kalloc\<close> takes the top of the stack of free pages: with an empty free list it returns 0 and changes nothing; otherwise
  it returns the first free page, filled with the byte 5, keeps the others free, and changes no byte outside that page.
\<close>

theorem kalloc_takes_top:
  assumes "kmem_pool s xs"
  shows "case xs of
      [] \<Rightarrow> \<exists>t. kalloc s = Ok 0 t \<and> kmem_pool t [] \<and> mem t = mem s
    | x # ys \<Rightarrow> \<exists>t. kalloc s = Ok x t \<and> kmem_pool t ys \<and> x \<noteq> 0 \<and> x \<notin> set ys \<and> ram_page s x \<and>
        (\<forall>b. mem t b = (if pgno b = pgno x then 5 else mem s b))"
proof (cases xs)
  case Nil
  with assms kalloc_empty[of s] show ?thesis by (auto simp: kmem_pool_def kmem_list_def)
next
  case (Cons x ys)
  with assms have h: "freelist s = x" "x \<noteq> 0" "x \<notin> set ys" "ram_page s x" "pgalign x"
    by (auto simp: kmem_pool_def kmem_list_def ram_page_def)
  with assms Cons kalloc_some[of s x] kmem_list_pop[of s x ys] show ?thesis
    by (auto simp: kmem_pool_def memset_page)
qed

theorem kalloc_takes_top_witness:
  "\<exists>t. kalloc (boot_state 0x80020000 0 0 (\<lambda>_ _. 0)) = Ok 0 t \<and> kmem_pool t []"
proof -
  have "kmem_pool (boot_state 0x80020000 0 0 (\<lambda>_ _. 0)) []"
    by (simp add: kmem_pool_def kmem_list_def) (simp add: boot_state_def)
  from kalloc_takes_top[OF this] show ?thesis by auto
qed

text \<open>
  C13: \<open>kfree\<close> accepts exactly the whole pages of RAM above the kernel and panics on any other address; a page that is not already
  free is put on top of the free list, and no byte outside it changes.
\<close>

theorem kfree_pushes_or_panics:
  assumes "kmem_pool s xs" "pa \<notin> set xs"
  shows "if ram_page s pa
    then \<exists>t. kfree pa s = Ok () t \<and> kmem_pool t (pa # xs) \<and> (\<forall>b. pgno b \<noteq> pgno pa \<longrightarrow> mem t b = mem s b)
    else kfree pa s = Panic ''kfree''"
proof (cases "ram_page s pa")
  case True
  then have "put64 (memset (mem s) pa 1 4096) pa (freelist s) b = mem s b" if "pgno b \<noteq> pgno pa" for b
    using that put64_other_page[of pa 0 b] by (simp add: ram_page_def memset_page)
  with True assms kfree_valid[of s pa] kmem_list_push[of s xs pa] show ?thesis by (auto simp: kmem_pool_def)
qed (simp add: kfree_invalid)

theorem kfree_pushes_or_panics_witness:
  "\<exists>t. kfree 0x80021000 (boot_state 0x80020000 0 0 (\<lambda>_ _. 0)) = Ok () t \<and> kmem_pool t [0x80021000]"
proof -
  let ?s = "boot_state 0x80020000 0 0 (\<lambda>_ _. 0)"
  have "kmem_pool ?s []" by (simp add: kmem_pool_def kmem_list_def) (simp add: boot_state_def)
  moreover have "ram_page ?s 0x80021000" by (simp add: boot_state_def layout ram_page_def pgalign_def)
  ultimately show ?thesis using kfree_pushes_or_panics[of ?s "[]" "0x80021000"] by auto
qed

end
