(* ===== verification/Vm.thy ===== *)
theory Vm
  imports Sched Kalloc
begin

text \<open>
  Virtual memory (\<^verbatim>\<open>vm.c\<close>, and \<open>proc_mapstacks\<close> of \<^verbatim>\<open>proc.c\<close>). A page table is the physical address of its root page; its
  entries are words of the physical memory. A kernel buffer that \<open>copyout\<close> reads or \<open>copyin\<close> and \<open>copyinstr\<close> fill is a function of
  the byte's index; the two latter return it next to their result.
\<close>

section \<open>The code\<close>

definition SATP_SV39 :: u64 where "SATP_SV39 = push_bit 60 8"

definition MAKE_SATP :: "u64 \<Rightarrow> u64" where
  "MAKE_SATP pagetable = SATP_SV39 OR drop_bit 12 pagetable"

definition w_satp :: "u64 \<Rightarrow> unit kernel" where
  "w_satp x = modify (\<lambda>s. s\<lparr>csrs := (csrs s)(hart s := (csrs s (hart s))\<lparr>satp := x\<rparr>)\<rparr>)"

text \<open>Loads and stores through pointers to memory; the page at address 0 is not mapped, so that a null pointer faults.\<close>

definition load64 :: "u64 \<Rightarrow> u64 kernel" where
  "load64 a = (if a = 0 then panic ''kerneltrap'' else gets (\<lambda>s. le64 (mem s) a))"

definition store64 :: "u64 \<Rightarrow> u64 \<Rightarrow> unit kernel" where
  "store64 a v = (if a = 0 then panic ''kerneltrap'' else modify (\<lambda>s. s\<lparr>mem := put64 (mem s) a v\<rparr>))"

definition memset_at :: "u64 \<Rightarrow> byte \<Rightarrow> u64 \<Rightarrow> unit kernel" where
  "memset_at a c n = (if a = 0 then panic ''kerneltrap'' else modify (\<lambda>s. s\<lparr>mem := memset (mem s) a c (unat n)\<rparr>))"

definition pte_addr :: "u64 \<Rightarrow> nat \<Rightarrow> u64 \<Rightarrow> u64" where
  "pte_addr pagetable level va = pagetable + 8 * PX level va"

text \<open>One round of the loop of \<open>walk\<close>: the page table of the next level, or \<open>None\<close> when the function returns 0.\<close>

definition walk_level :: "u64 \<Rightarrow> bool \<Rightarrow> nat \<Rightarrow> u64 \<Rightarrow> u64 option kernel" where
  "walk_level va alloc level pagetable =
     bnd (load64 (pte_addr pagetable level va)) (\<lambda>pte.
     if pte AND PTE_V \<noteq> 0 then ret (Some (PTE2PA pte))
     else if \<not> alloc then ret None
     else
       bnd kalloc (\<lambda>page.
       if page = 0 then ret None else
       thn (memset_at page 0 PGSIZE) (
       thn (store64 (pte_addr pagetable level va) (PA2PTE page OR PTE_V))
       (ret (Some page)))))"

definition walk :: "u64 \<Rightarrow> u64 \<Rightarrow> bool \<Rightarrow> u64 kernel" where
  "walk pagetable va alloc =
     (if MAXVA \<le> va then panic ''walk'' else
     bnd (walk_level va alloc 2 pagetable) (\<lambda>r. case r of None \<Rightarrow> ret 0 | Some pagetable \<Rightarrow>
     bnd (walk_level va alloc 1 pagetable) (\<lambda>r. case r of None \<Rightarrow> ret 0 | Some pagetable \<Rightarrow>
     ret (pte_addr pagetable 0 va))))"

definition walkaddr :: "u64 \<Rightarrow> u64 \<Rightarrow> u64 kernel" where
  "walkaddr pagetable va =
     (if MAXVA \<le> va then ret 0 else
     bnd (walk pagetable va False) (\<lambda>pte.
     if pte = 0 then ret 0 else
     bnd (load64 pte) (\<lambda>e.
     if e AND PTE_V = 0 then ret 0
     else if e AND PTE_U = 0 then ret 0
     else ret (PTE2PA e))))"

text \<open>
  The loops below advance by one page, and a 64-bit address returns to its start after \<open>2 ^ 52\<close> pages, so that many rounds are enough.
\<close>

definition page_rounds :: nat where "page_rounds = 2 ^ 52 + 1"

definition map_one :: "u64 \<Rightarrow> u64 \<Rightarrow> u64 \<Rightarrow> u64 \<times> u64 \<Rightarrow> (u64 \<times> u64 + int) kernel" where
  "map_one pagetable lastva perm = (\<lambda>(a, pa).
     bnd (walk pagetable a True) (\<lambda>pte.
     if pte = 0 then ret (Inr (- 1)) else
     bnd (load64 pte) (\<lambda>e.
     if e AND PTE_V \<noteq> 0 then panic ''mappages: remap'' else
     thn (store64 pte (PA2PTE pa OR perm OR PTE_V)) (
     if a = lastva then ret (Inr 0)
     else ret (Inl (a + PGSIZE, pa + PGSIZE))))))"

definition mappages :: "u64 \<Rightarrow> u64 \<Rightarrow> u64 \<Rightarrow> u64 \<Rightarrow> u64 \<Rightarrow> int kernel" where
  "mappages pagetable va sz pa perm =
     (if sz = 0 then panic ''mappages: size'' else
     loopf page_rounds (map_one pagetable (PGROUNDDOWN (va + sz - 1)) perm) (PGROUNDDOWN va, pa))"

definition kvmmap :: "u64 \<Rightarrow> u64 \<Rightarrow> u64 \<Rightarrow> u64 \<Rightarrow> u64 \<Rightarrow> unit kernel" where
  "kvmmap kpgtbl va pa sz perm =
     bnd (mappages kpgtbl va sz pa perm) (\<lambda>r. if r \<noteq> 0 then panic ''kvmmap'' else ret ())"

definition proc_mapstacks :: "u64 \<Rightarrow> unit kernel" where
  "proc_mapstacks kpgtbl = foreach [0..<NPROC] (\<lambda>p.
     bnd kalloc (\<lambda>pa.
     if pa = 0 then panic ''kalloc'' else
     kvmmap kpgtbl (KSTACK p) pa PGSIZE (PTE_R OR PTE_W)))"

definition kvmmake :: "u64 kernel" where
  "kvmmake =
     bnd kalloc (\<lambda>kpgtbl.
     thn (memset_at kpgtbl 0 PGSIZE) (
     thn (kvmmap kpgtbl UART0 UART0 PGSIZE (PTE_R OR PTE_W)) (
     thn (kvmmap kpgtbl VIRTIO0 VIRTIO0 PGSIZE (PTE_R OR PTE_W)) (
     thn (kvmmap kpgtbl PLIC PLIC 0x400000 (PTE_R OR PTE_W)) (
     bnd (gets ketext) (\<lambda>etext.
     thn (kvmmap kpgtbl KERNBASE KERNBASE (etext - KERNBASE) (PTE_R OR PTE_X)) (
     thn (kvmmap kpgtbl etext etext (PHYSTOP - etext) (PTE_R OR PTE_W)) (
     bnd (gets ktrampoline) (\<lambda>trampoline.
     thn (kvmmap kpgtbl TRAMPOLINE trampoline PGSIZE (PTE_R OR PTE_X)) (
     thn (proc_mapstacks kpgtbl)
     (ret kpgtbl)))))))))))"

definition kvminit :: "unit kernel" where
  "kvminit = bnd kvmmake (\<lambda>p. modify (\<lambda>s. s\<lparr>kernel_pagetable := p\<rparr>))"

text \<open>\<open>sfence_vma\<close> flushes the TLB, which the model does not have.\<close>

definition kvminithart :: "unit kernel" where
  "kvminithart = bnd (gets kernel_pagetable) (\<lambda>p. w_satp (MAKE_SATP p))"

definition unmap_one :: "u64 \<Rightarrow> u64 \<Rightarrow> bool \<Rightarrow> u64 \<Rightarrow> (u64 + unit) kernel" where
  "unmap_one pagetable stop do_free a =
     (if \<not> a < stop then ret (Inr ()) else
     bnd (walk pagetable a False) (\<lambda>pte.
     if pte = 0 then panic ''uvmunmap: walk'' else
     bnd (load64 pte) (\<lambda>e.
     if e AND PTE_V = 0 then panic ''uvmunmap: not mapped'' else
     if PTE_FLAGS e = PTE_V then panic ''uvmunmap: not a leaf'' else
     thn (whenM do_free (kfree (PTE2PA e))) (
     thn (store64 pte 0)
     (ret (Inl (a + PGSIZE)))))))"

definition uvmunmap :: "u64 \<Rightarrow> u64 \<Rightarrow> u64 \<Rightarrow> bool \<Rightarrow> unit kernel" where
  "uvmunmap pagetable va npages do_free =
     (if va mod PGSIZE \<noteq> 0 then panic ''uvmunmap: not aligned'' else
     loopf page_rounds (unmap_one pagetable (va + npages * PGSIZE) do_free) va)"

definition uvmcreate :: "u64 kernel" where
  "uvmcreate =
     bnd kalloc (\<lambda>pagetable.
     if pagetable = 0 then ret 0 else
     thn (memset_at pagetable 0 PGSIZE) (ret pagetable))"

text \<open>Copying \<open>n\<close> bytes between memory and a kernel buffer, which never overlap.\<close>

definition mem_write :: "(u64 \<Rightarrow> byte) \<Rightarrow> u64 \<Rightarrow> (nat \<Rightarrow> byte) \<Rightarrow> nat \<Rightarrow> (u64 \<Rightarrow> byte)" where
  "mem_write m dst src n = fold (\<lambda>i m. m(dst + of_nat i := src i)) [0..<n] m"

definition mem_read :: "(u64 \<Rightarrow> byte) \<Rightarrow> (nat \<Rightarrow> byte) \<Rightarrow> nat \<Rightarrow> u64 \<Rightarrow> nat \<Rightarrow> (nat \<Rightarrow> byte)" where
  "mem_read m dst k src n = fold (\<lambda>i d. d(k + i := m (src + of_nat i))) [0..<n] dst"

definition uvminit :: "u64 \<Rightarrow> (nat \<Rightarrow> byte) \<Rightarrow> u32 \<Rightarrow> unit kernel" where
  "uvminit pagetable src sz =
     (if PGSIZE \<le> ucast sz then panic ''inituvm: more than a page'' else
     bnd kalloc (\<lambda>page.
     thn (memset_at page 0 PGSIZE) (
     bnd (mappages pagetable 0 PGSIZE page (PTE_W OR PTE_R OR PTE_X OR PTE_U)) (\<lambda>_.
     modify (\<lambda>s. s\<lparr>mem := mem_write (mem s) page src (unat sz)\<rparr>)))))"

text \<open>\<open>npages\<close> is an \<open>int\<close>, which the call converts to \<open>uint64\<close>.\<close>

definition uvmdealloc :: "u64 \<Rightarrow> u64 \<Rightarrow> u64 \<Rightarrow> u64 kernel" where
  "uvmdealloc pagetable oldsz newsz =
     (if oldsz \<le> newsz then ret oldsz else
     thn (whenM (PGROUNDUP newsz < PGROUNDUP oldsz) (
       let npages = (ucast ((PGROUNDUP oldsz - PGROUNDUP newsz) div PGSIZE) :: u32) in
       uvmunmap pagetable (PGROUNDUP newsz) (scast npages) True))
     (ret newsz))"

definition alloc_one :: "u64 \<Rightarrow> u64 \<Rightarrow> u64 \<Rightarrow> u64 \<Rightarrow> (u64 + u64) kernel" where
  "alloc_one pagetable oldsz newsz a =
     (if \<not> a < newsz then ret (Inr newsz) else
     bnd kalloc (\<lambda>page.
     if page = 0 then bnd (uvmdealloc pagetable a oldsz) (\<lambda>_. ret (Inr 0)) else
     thn (memset_at page 0 PGSIZE) (
     bnd (mappages pagetable a PGSIZE page (PTE_W OR PTE_X OR PTE_R OR PTE_U)) (\<lambda>r.
     if r \<noteq> 0 then thn (kfree page) (bnd (uvmdealloc pagetable a oldsz) (\<lambda>_. ret (Inr 0)))
     else ret (Inl (a + PGSIZE))))))"

definition uvmalloc :: "u64 \<Rightarrow> u64 \<Rightarrow> u64 \<Rightarrow> u64 kernel" where
  "uvmalloc pagetable oldsz newsz =
     (if newsz < oldsz then ret oldsz
      else loopf page_rounds (alloc_one pagetable (PGROUNDUP oldsz) newsz) (PGROUNDUP oldsz))"

text \<open>The recursion of \<open>freewalk\<close> goes as deep as the page table, which has three levels.\<close>

fun freewalk_at :: "nat \<Rightarrow> u64 \<Rightarrow> unit kernel" where
  "freewalk_at 0 pagetable = hang ''recursion bound''"
| "freewalk_at (Suc n) pagetable =
     thn (foreach [0..<512] (\<lambda>i.
       bnd (load64 (pagetable + 8 * of_nat i)) (\<lambda>pte.
       if pte AND PTE_V \<noteq> 0 \<and> pte AND (PTE_R OR PTE_W OR PTE_X) = 0
       then thn (freewalk_at n (PTE2PA pte)) (store64 (pagetable + 8 * of_nat i) 0)
       else if pte AND PTE_V \<noteq> 0 then panic ''freewalk: leaf''
       else ret ())))
     (kfree pagetable)"

definition freewalk :: "u64 \<Rightarrow> unit kernel" where
  "freewalk pagetable = freewalk_at 3 pagetable"

definition uvmfree :: "u64 \<Rightarrow> u64 \<Rightarrow> unit kernel" where
  "uvmfree pagetable sz =
     thn (whenM (0 < sz) (uvmunmap pagetable 0 (PGROUNDUP sz div PGSIZE) True))
     (freewalk pagetable)"

definition copy_one :: "u64 \<Rightarrow> u64 \<Rightarrow> u64 \<Rightarrow> u64 \<Rightarrow> (u64 + int) kernel" where
  "copy_one old new sz i =
     (if \<not> i < sz then ret (Inr 0) else
     bnd (walk old i False) (\<lambda>pte.
     if pte = 0 then panic ''uvmcopy: pte should exist'' else
     bnd (load64 pte) (\<lambda>e.
     if e AND PTE_V = 0 then panic ''uvmcopy: page not present'' else
     bnd kalloc (\<lambda>page.
     if page = 0 then thn (uvmunmap new 0 (i div PGSIZE) True) (ret (Inr (- 1))) else
     thn (modify (\<lambda>s. s\<lparr>mem := memmove (mem s) page (PTE2PA e) (unat PGSIZE)\<rparr>)) (
     bnd (mappages new i PGSIZE page (PTE_FLAGS e)) (\<lambda>r.
     if r \<noteq> 0 then thn (kfree page) (thn (uvmunmap new 0 (i div PGSIZE) True) (ret (Inr (- 1))))
     else ret (Inl (i + PGSIZE))))))))"

definition uvmcopy :: "u64 \<Rightarrow> u64 \<Rightarrow> u64 \<Rightarrow> int kernel" where
  "uvmcopy old new sz = loopf page_rounds (copy_one old new sz) 0"

definition uvmclear :: "u64 \<Rightarrow> u64 \<Rightarrow> unit kernel" where
  "uvmclear pagetable va =
     bnd (walk pagetable va False) (\<lambda>pte.
     if pte = 0 then panic ''uvmclear'' else
     bnd (load64 pte) (\<lambda>e. store64 pte (e AND NOT PTE_U)))"

text \<open>
  The loop variables are the current user address, the position in the kernel buffer and the number of bytes left; every round
  but the last copies at least one byte.
\<close>

definition chunk :: "u64 \<Rightarrow> u64 \<Rightarrow> u64" where
  "chunk va len = (let n = PGSIZE - (va - PGROUNDDOWN va) in if len < n then len else n)"

definition copyout_one :: "u64 \<Rightarrow> (nat \<Rightarrow> byte) \<Rightarrow> u64 \<times> nat \<times> u64 \<Rightarrow> (u64 \<times> nat \<times> u64 + int) kernel" where
  "copyout_one pagetable src = (\<lambda>(dstva, k, len).
     if len = 0 then ret (Inr 0) else
     let va0 = PGROUNDDOWN dstva in
     bnd (walkaddr pagetable va0) (\<lambda>pa0.
     if pa0 = 0 then ret (Inr (- 1)) else
     let n = chunk dstva len in
     thn (modify (\<lambda>s. s\<lparr>mem := mem_write (mem s) (pa0 + (dstva - va0)) (\<lambda>i. src (k + i)) (unat n)\<rparr>))
     (ret (Inl (va0 + PGSIZE, k + unat n, len - n)))))"

definition copyout :: "u64 \<Rightarrow> u64 \<Rightarrow> (nat \<Rightarrow> byte) \<Rightarrow> u64 \<Rightarrow> int kernel" where
  "copyout pagetable dstva src len = loopf (unat len + 1) (copyout_one pagetable src) (dstva, 0, len)"

definition copyin_one :: "u64 \<Rightarrow> u64 \<times> nat \<times> u64 \<times> (nat \<Rightarrow> byte) \<Rightarrow> (u64 \<times> nat \<times> u64 \<times> (nat \<Rightarrow> byte) + int \<times> (nat \<Rightarrow> byte)) kernel" where
  "copyin_one pagetable = (\<lambda>(srcva, k, len, dst).
     if len = 0 then ret (Inr (0, dst)) else
     let va0 = PGROUNDDOWN srcva in
     bnd (walkaddr pagetable va0) (\<lambda>pa0.
     if pa0 = 0 then ret (Inr (- 1, dst)) else
     let n = chunk srcva len in
     bnd (gets (\<lambda>s. mem_read (mem s) dst k (pa0 + (srcva - va0)) (unat n))) (\<lambda>dst.
     ret (Inl (va0 + PGSIZE, k + unat n, len - n, dst)))))"

definition copyin :: "u64 \<Rightarrow> (nat \<Rightarrow> byte) \<Rightarrow> u64 \<Rightarrow> u64 \<Rightarrow> (int \<times> (nat \<Rightarrow> byte)) kernel" where
  "copyin pagetable dst srcva len = loopf (unat len + 1) (copyin_one pagetable) (srcva, 0, len, dst)"

text \<open>The inner loop of \<open>copyinstr\<close>: whether it met the terminator, the buffer and the position reached.\<close>

fun str_chunk :: "(u64 \<Rightarrow> byte) \<Rightarrow> u64 \<Rightarrow> nat \<Rightarrow> (nat \<Rightarrow> byte) \<Rightarrow> nat \<Rightarrow> bool \<times> (nat \<Rightarrow> byte) \<times> nat" where
  "str_chunk m p 0 dst k = (False, dst, k)"
| "str_chunk m p (Suc n) dst k =
     (if m p = 0 then (True, dst(k := 0), k) else str_chunk m (p + 1) n (dst(k := m p)) (Suc k))"

definition copyinstr_one ::
    "u64 \<Rightarrow> bool \<times> u64 \<times> nat \<times> u64 \<times> (nat \<Rightarrow> byte) \<Rightarrow> (bool \<times> u64 \<times> nat \<times> u64 \<times> (nat \<Rightarrow> byte) + int \<times> (nat \<Rightarrow> byte)) kernel" where
  "copyinstr_one pagetable = (\<lambda>(got_null, srcva, k, maxn, dst).
     if got_null then ret (Inr (0, dst)) else if maxn = 0 then ret (Inr (- 1, dst)) else
     let va0 = PGROUNDDOWN srcva in
     bnd (walkaddr pagetable va0) (\<lambda>pa0.
     if pa0 = 0 then ret (Inr (- 1, dst)) else
     bnd (gets (\<lambda>s. str_chunk (mem s) (pa0 + (srcva - va0)) (unat (chunk srcva maxn)) dst k)) (\<lambda>(got_null, dst, k').
     ret (Inl (got_null, va0 + PGSIZE, k', maxn - of_nat (k' - k), dst)))))"

definition copyinstr :: "u64 \<Rightarrow> (nat \<Rightarrow> byte) \<Rightarrow> u64 \<Rightarrow> u64 \<Rightarrow> (int \<times> (nat \<Rightarrow> byte)) kernel" where
  "copyinstr pagetable dst srcva maxn = loopf (unat maxn + 2) (copyinstr_one pagetable) (False, srcva, 0, maxn, dst)"

end
