(* ===== verification/Pagetable.thy ===== *)
theory Pagetable
  imports Vm
begin

text \<open>
  Page tables as trees, for the code of theory Vm: the tree of table pages in memory, the map from virtual page numbers to leaf entries that it
  stands for, and what \<open>walk\<close>, \<open>mappages\<close>, \<open>uvmunmap\<close> and the copies between user and kernel memory do to that map.
\<close>

section \<open>Page table trees\<close>

text \<open>
  \<open>pt_entry m p i\<close> is entry \<open>i\<close> of the page table page \<open>p\<close>; \<open>pt_node m root is\<close> is the page reached from the root through the valid entries
  \<open>is\<close>, and \<open>pt_leaf m root is i\<close> the entry for the indices \<open>is\<close> and \<open>i\<close>, 0 if there is none.
\<close>

definition pt_entry :: "(u64 \<Rightarrow> byte) \<Rightarrow> u64 \<Rightarrow> nat \<Rightarrow> u64" where
  "pt_entry m p i = le64 m (p + of_nat (8 * i))"

definition pt_child :: "(u64 \<Rightarrow> byte) \<Rightarrow> u64 \<Rightarrow> nat \<Rightarrow> u64 option" where
  "pt_child m p i = (if pt_entry m p i AND PTE_V \<noteq> 0 then Some (PTE2PA (pt_entry m p i)) else None)"

definition pt_node :: "(u64 \<Rightarrow> byte) \<Rightarrow> u64 \<Rightarrow> nat list \<Rightarrow> u64 option" where
  "pt_node m root is = fold (\<lambda>i p. Option.bind p (\<lambda>p. pt_child m p i)) is (Some root)"

definition pt_leaf :: "(u64 \<Rightarrow> byte) \<Rightarrow> u64 \<Rightarrow> nat list \<Rightarrow> nat \<Rightarrow> u64" where
  "pt_leaf m root is i = (case pt_node m root is of None \<Rightarrow> 0 | Some p \<Rightarrow> pt_entry m p i)"

lemma pt_node_simps [simp]: "pt_node m root [] = Some root"
  "pt_node m root (is @ [i]) = Option.bind (pt_node m root is) (\<lambda>p. pt_child m p i)"
  by (simp_all add: pt_node_def)

lemma pt_node_one [simp]: "pt_node m root [i] = pt_child m root i"
  using pt_node_simps(2)[of m root "[]" i] by simp

lemma pt_node_two: "pt_node m root [i, j] = Option.bind (pt_child m root i) (\<lambda>p. pt_child m p j)"
  using pt_node_simps(2)[of m root "[i]" j] by simp

text \<open>A path of the tree: at most two indices below 512.\<close>

definition pt_path :: "nat list \<Rightarrow> bool" where
  "pt_path is = (length is \<le> 2 \<and> (\<forall>i\<in>set is. i < 512))"

text \<open>
  \<open>pt_ok s root xs\<close>: every page of the tree is a page of RAM, different paths lead to different pages, and none of them is in the list \<open>xs\<close> of
  free pages.
\<close>

definition pt_ok :: "kstate \<Rightarrow> u64 \<Rightarrow> u64 list \<Rightarrow> bool" where
  "pt_ok s root xs = ((\<forall>is p. pt_path is \<longrightarrow> pt_node (mem s) root is = Some p \<longrightarrow> ram_page s p \<and> p \<noteq> 0 \<and> p \<notin> set xs) \<and>
     (\<forall>is js p. pt_path is \<longrightarrow> pt_path js \<longrightarrow> pt_node (mem s) root is = Some p \<longrightarrow> pt_node (mem s) root js = Some p \<longrightarrow> is = js))"

lemma pt_okD:
  assumes "pt_ok s root xs" "pt_path is" "pt_node (mem s) root is = Some p"
  shows "ram_page s p" "pgalign p" "p \<noteq> 0" "p \<notin> set xs" "pt_path js \<Longrightarrow> pt_node (mem s) root js = Some p \<Longrightarrow> js = is"
  using assms unfolding pt_ok_def ram_page_def by blast+

lemma pt_entry_cong:
  assumes "pgalign p" "i < 512" "\<And>b. pgno b = pgno p \<Longrightarrow> m' b = m b"
  shows "pt_entry m' p i = pt_entry m p i"
  unfolding pt_entry_def using assms by (intro le64_same_page) auto

lemma pt_child_cong:
  assumes "pgalign p" "i < 512" "\<And>b. pgno b = pgno p \<Longrightarrow> m' b = m b"
  shows "pt_child m' p i = pt_child m p i"
  using pt_entry_cong[of p i m' m, OF assms] by (simp add: pt_child_def)

lemma slot_offset:
  assumes "pgalign p" "i < 512" "k < 8"
  shows "unat (p + of_nat (8 * i) + of_nat k) = unat p + 8 * i + k"
proof -
  have "p + of_nat (8 * i) + of_nat k = p + of_nat (8 * i + k)" by simp
  then show ?thesis using unat_page_offset[OF assms(1), of "8 * i + k"] assms(2,3) by (simp add: add.assoc)
qed

lemma pt_entry_put:
  assumes "pgalign p" "i < 512" "j < 512"
  shows "pt_entry (put64 m (p + of_nat (8 * i)) v) p j = (if j = i then v else pt_entry m p j)"
proof (cases "j = i")
  case False
  have "le64 (put64 m (p + of_nat (8 * i)) v) (p + of_nat (8 * j)) = le64 m (p + of_nat (8 * j))"
  proof (rule le64_cong, rule put64_other)
    fix k l :: nat assume kl: "k < 8" "l < 8"
    have "unat (p + of_nat (8 * j) + of_nat k) \<noteq> unat (p + of_nat (8 * i) + of_nat l)"
      unfolding slot_offset[OF assms(1,3) kl(1)] slot_offset[OF assms(1,2) kl(2)] using False kl by auto
    then show "p + of_nat (8 * j) + of_nat k \<noteq> p + of_nat (8 * i) + of_nat l" by metis
  qed
  with False show ?thesis by (simp add: pt_entry_def)
qed (simp add: pt_entry_def)

lemma pt_entry_put_other:
  assumes "pgalign p" "pgalign q" "p \<noteq> q" "i < 512" "j < 512"
  shows "pt_entry (put64 m (p + of_nat (8 * i)) v) q j = pt_entry m q j"
proof (rule pt_entry_cong[OF assms(2,5)])
  fix b assume "pgno b = pgno q"
  then have "pgno b \<noteq> pgno p" using pgalign_eqI[OF assms(1,2)] assms(3) by auto
  then show "put64 m (p + of_nat (8 * i)) v b = m b" using assms(1,4) by (intro put64_other_page) auto
qed

section \<open>Adding a page to the tree\<close>

lemma page_bound: "pa < PHYSTOP \<Longrightarrow> unat pa < 2 ^ 32"
  by (simp add: word_less_nat_alt unat_PHYSTOP)

lemma high_bit: "unat (a :: u64) < 2 ^ k \<Longrightarrow> k \<le> n \<Longrightarrow> \<not> bit a n"
proof -
  assume "unat a < 2 ^ k" "k \<le> n"
  then have "bit (take_bit k (unat a)) n = bit (unat a) n" "\<not> bit (take_bit k (unat a)) n"
    by (simp add: take_bit_nat_eq_self) (simp add: bit_take_bit_iff \<open>k \<le> n\<close> not_less)
  then have "\<not> bit (unat a) n" by blast
  then show ?thesis by (simp add: bit_unsigned_iff possible_bit_def)
qed

lemma low_bit: "pgalign a \<Longrightarrow> n < 12 \<Longrightarrow> \<not> bit a n"
proof -
  assume a: "pgalign a" "n < 12"
  have "take_bit 12 a = a mod 4096" by (simp add: take_bit_eq_mod)
  then have "\<not> bit (take_bit 12 a) n" using a(1) by (simp add: pgalign_def PGSIZE_def)
  then show ?thesis using a(2) by (simp add: bit_take_bit_iff)
qed

lemma flag_mask: "(0x3FF :: u64) = mask 10"
  by (simp add: mask_eq_exp_minus_1)

lemma PTE2PA_make:
  assumes "pgalign pa" "unat pa < 2 ^ 56" "fl AND 0x3FF = fl"
  shows "PTE2PA (PA2PTE pa OR fl) = pa"
proof (rule bit_word_eqI)
  fix n assume n: "n < LENGTH(64)"
  have fl: "\<not> bit fl k" if "10 \<le> k" for k
  proof -
    have "bit (fl AND mask 10) k = bit fl k" using assms(3) unfolding flag_mask by simp
    then show ?thesis using that by (simp add: bit_and_iff bit_mask_iff)
  qed
  have "bit (PTE2PA (PA2PTE pa OR fl)) n \<longleftrightarrow> 12 \<le> n \<and> bit pa n"
    using n fl by (auto simp: pte_defs bit_simps)
  then show "bit (PTE2PA (PA2PTE pa OR fl)) n = bit pa n"
    using low_bit[OF assms(1), of n] high_bit[OF assms(2), of n] by (cases "n < 12"; cases "56 \<le> n"; auto)
qed

lemma PTE_V_bit: "e AND PTE_V \<noteq> 0 \<longleftrightarrow> bit e 0"
  by (simp add: PTE_V_def and_one_eq odd_iff_mod_2_eq_one[symmetric] bit_0)

lemma PTE_V_flag: "PTE_V AND 0x3FF = PTE_V" "(PA2PTE pa OR PTE_V) AND PTE_V \<noteq> 0"
  by (simp add: PTE_V_def) (simp add: PTE_V_bit bit_simps PTE_V_def)

text \<open>A free page \<open>x\<close> becomes the zeroed child \<open>i\<close> of the page \<open>p\<close>.\<close>

definition pt_add :: "(u64 \<Rightarrow> byte) \<Rightarrow> u64 \<Rightarrow> nat \<Rightarrow> u64 \<Rightarrow> (u64 \<Rightarrow> byte)" where
  "pt_add m p i x = put64 (memset m x 0 4096) (p + of_nat (8 * i)) (PA2PTE x OR PTE_V)"

lemma pt_add_entry:
  assumes "pgalign p" "pgalign x" "pgalign q" "p \<noteq> x" "i < 512" "j < 512"
  shows "pt_entry (pt_add m p i x) q j = (if q = x then 0 else if q = p \<and> j = i then PA2PTE x OR PTE_V else pt_entry m q j)"
proof -
  have z: "pt_entry (memset m x 0 4096) q j = (if q = x then 0 else pt_entry m q j)"
  proof (cases "q = x")
    case True
    have "pt_entry (memset m x 0 4096) q j = pt_entry (\<lambda>_. 0) q j"
      by (rule pt_entry_cong[OF assms(3,6)]) (simp add: True memset_page[OF assms(2)])
    then show ?thesis using True by (simp add: pt_entry_def le64_def le32_def)
  next
    case False
    then have "pgno q \<noteq> pgno x" using pgalign_eqI[OF assms(3,2)] by blast
    then have "pt_entry (memset m x 0 4096) q j = pt_entry m q j"
      by (intro pt_entry_cong[OF assms(3,6)]) (simp add: memset_page[OF assms(2)])
    then show ?thesis using False by simp
  qed
  show ?thesis
  proof (cases "q = p")
    case True
    then show ?thesis using pt_entry_put[OF assms(1,5,6)] z assms(4) by (simp add: pt_add_def)
  next
    case False
    then show ?thesis using pt_entry_put_other[OF assms(1,3) _ assms(5,6)] z by (simp add: pt_add_def)
  qed
qed

lemma pt_add_child:
  assumes "pgalign p" "ram_page s x" "pgalign q" "p \<noteq> x" "i < 512" "j < 512"
  shows "pt_child (pt_add m p i x) q j = (if q = x then None else if q = p \<and> j = i then Some x else pt_child m q j)"
proof -
  have x: "pgalign x" "unat x < 2 ^ 56" using assms(2) page_bound[of x] by (auto simp: ram_page_def)
  show ?thesis
    using PTE2PA_make[OF x PTE_V_flag(1)] PTE_V_flag(2)[of x]
    unfolding pt_child_def pt_add_entry[OF assms(1) x(1) assms(3-6)] by simp
qed

lemma pt_path_snoc: "pt_path (is @ [i]) \<Longrightarrow> pt_path is \<and> i < 512"
  by (auto simp: pt_path_def)

lemma pt_add_node:
  assumes ok: "pt_ok s root xs" and x: "ram_page s x" "x \<in> set xs"
    and ps: "pt_path ps" "pt_node (mem s) root ps = Some p" "pt_child (mem s) p i = None" "i < 512"
    and "pt_path qs"
  shows "pt_node (pt_add (mem s) p i x) root qs = (if qs = ps @ [i] then Some x else pt_node (mem s) root qs)"
  using assms(8)
proof (induction qs rule: rev_induct)
  case (snoc j qs)
  let ?m = "pt_add (mem s) p i x"
  have j: "pt_path qs" "j < 512" using pt_path_snoc[OF snoc.prems] by auto
  note IH = snoc.IH[OF j(1)] and P = pt_okD[OF ok ps(1,2)]
  have px: "p \<noteq> x" using P(4) x(2) by auto
  show ?case unfolding pt_node_simps(2) IH
  proof (cases "qs = ps @ [i]")
    case True
    have "pt_child ?m x j = None" using pt_add_child[OF P(2) x(1) _ px ps(4) j(2)] x(1) by (simp add: ram_page_def)
    then show "Option.bind (if qs = ps @ [i] then Some x else pt_node (mem s) root qs) (\<lambda>p. pt_child ?m p j) =
      (if qs @ [j] = ps @ [i] then Some x else Option.bind (pt_node (mem s) root qs) (\<lambda>p. pt_child (mem s) p j))"
      using True ps(2,3) by simp
  next
    case False
    then show "Option.bind (if qs = ps @ [i] then Some x else pt_node (mem s) root qs) (\<lambda>p. pt_child ?m p j) =
      (if qs @ [j] = ps @ [i] then Some x else Option.bind (pt_node (mem s) root qs) (\<lambda>p. pt_child (mem s) p j))"
    proof (cases "pt_node (mem s) root qs")
      case None
      then show ?thesis using False ps(2) by auto
    next
      case (Some q)
      note Q = pt_okD[OF ok j(1) Some]
      have "q \<noteq> x" using Q(4) x(2) by auto
      moreover have "q = p \<longleftrightarrow> qs = ps" using Q(5)[OF ps(1)] ps(2) Some by auto
      ultimately show ?thesis using False Some pt_add_child[OF P(2) x(1) Q(2) px ps(4) j(2)] by simp
    qed
  qed
qed simp

lemma pt_okI:
  assumes "\<And>is p. pt_path is \<Longrightarrow> pt_node (mem s) root is = Some p \<Longrightarrow> ram_page s p \<and> p \<noteq> 0 \<and> p \<notin> set xs"
    and "\<And>is js p. pt_path is \<Longrightarrow> pt_path js \<Longrightarrow> pt_node (mem s) root is = Some p \<Longrightarrow> pt_node (mem s) root js = Some p \<Longrightarrow> is = js"
  shows "pt_ok s root xs"
  using assms unfolding pt_ok_def by blast

lemma pt_ok_cong:
  assumes "pt_ok s root xs" "\<And>is. pt_path is \<Longrightarrow> pt_node (mem t) root is = pt_node (mem s) root is" "ram_page t = ram_page s" "set ys \<subseteq> set xs"
  shows "pt_ok t root ys"
proof (rule pt_okI)
  fix "is" p assume "pt_path is" "pt_node (mem t) root is = Some p"
  then show "ram_page t p \<and> p \<noteq> 0 \<and> p \<notin> set ys" using pt_okD[OF assms(1)] assms(2,3,4) by auto
next
  fix "is" js p
  assume "pt_path is" "pt_path js" "pt_node (mem t) root is = Some p" "pt_node (mem t) root js = Some p"
  then show "is = js" using pt_okD(5)[OF assms(1), of js p "is"] assms(2) by simp
qed

lemma pt_add_ok:
  assumes ok: "pt_ok s root (x # xs)" and x: "ram_page s x" "x \<noteq> 0" "x \<notin> set xs"
    and ps: "pt_path ps" "pt_node (mem s) root ps = Some p" "pt_child (mem s) p i = None" "i < 512"
    and t: "mem t = pt_add (mem s) p i x" "ram_page t = ram_page s"
  shows "pt_ok t root xs"
proof -
  have node: "pt_node (mem t) root qs = (if qs = ps @ [i] then Some x else pt_node (mem s) root qs)" if "pt_path qs" for qs
    unfolding t(1) by (rule pt_add_node[OF ok x(1) _ ps that]) simp
  show ?thesis
  proof (rule pt_okI)
    fix qs q assume "pt_path qs" "pt_node (mem t) root qs = Some q"
    then show "ram_page t q \<and> q \<noteq> 0 \<and> q \<notin> set xs"
      using node[of qs] pt_okD(1,3,4)[OF ok, of qs q] x t(2) by (cases "qs = ps @ [i]") auto
  next
    fix qs rs q
    assume h: "pt_path qs" "pt_path rs" "pt_node (mem t) root qs = Some q" "pt_node (mem t) root rs = Some q"
    have "pt_node (mem s) root us \<noteq> Some x" if "pt_path us" for us using pt_okD(4)[OF ok that, of x] by auto
    then show "qs = rs"
      using h node[of qs] node[of rs] pt_okD(5)[OF ok h(1), of q rs]
      by (cases "qs = ps @ [i]"; cases "rs = ps @ [i]") (simp, metis, metis, metis)
  qed
qed

text \<open>The leaf entries stay the same: those below the new page were absent and are zero.\<close>

lemma pt_add_leaf:
  assumes ok: "pt_ok s root xs" and x: "ram_page s x" "x \<in> set xs"
    and ps: "pt_path ps" "pt_node (mem s) root ps = Some p" "pt_child (mem s) p i = None" "i < 512" "length ps < 2"
    and q: "pt_path qs" "length qs = 2" "j < 512"
  shows "pt_leaf (pt_add (mem s) p i x) root qs j = pt_leaf (mem s) root qs j"
proof -
  note P = pt_okD[OF ok ps(1,2)]
  have px: "p \<noteq> x" using P(4) x(2) by auto
  have al: "pgalign x" using x(1) by (simp add: ram_page_def)
  note E = pt_add_entry[OF P(2) al _ px ps(4) q(3), of _ "mem s"]
  note N = pt_add_node[OF ok x ps(1-4) q(1)]
  show ?thesis
  proof (cases "qs = ps @ [i]")
    case True
    then have "pt_node (pt_add (mem s) p i x) root qs = Some x" "pt_node (mem s) root qs = None" using N ps(2,3) by simp_all
    then show ?thesis using E[OF al] by (simp add: pt_leaf_def)
  next
    case False
    show ?thesis
    proof (cases "pt_node (mem s) root qs")
      case (Some r)
      note Q = pt_okD[OF ok q(1) Some]
      have "r \<noteq> x" using Q(4) x(2) by auto
      moreover have "r \<noteq> p" using Q(5)[OF ps(1)] ps(2,5) q(2) by auto
      ultimately show ?thesis using Some False E[OF Q(2)] N by (simp add: pt_leaf_def)
    qed (use False N in \<open>simp add: pt_leaf_def\<close>)
  qed
qed

section \<open>Virtual page numbers\<close>

text \<open>The map a page table stands for: the leaf entry of every virtual page number below \<open>2 ^ 26\<close>, where \<open>MAXVA\<close> is.\<close>

definition pt_upper :: "nat \<Rightarrow> nat list" where
  "pt_upper n = [n div 262144, n div 512 mod 512]"

definition pt_abs :: "(u64 \<Rightarrow> byte) \<Rightarrow> u64 \<Rightarrow> nat \<Rightarrow> u64" where
  "pt_abs m root n = pt_leaf m root (pt_upper n) (n mod 512)"

lemma unat_PX: "unat (PX level va) = pgno va div 512 ^ level mod 512"
proof -
  have "PX level va = take_bit 9 (drop_bit (12 + 9 * level) va)"
    by (simp add: PX_def PXSHIFT_def PGSHIFT_def PXMASK_def take_bit_eq_mask mask_eq_exp_minus_1)
  moreover have "unat (take_bit 9 (drop_bit (12 + 9 * level) va)) = unat va div 2 ^ (12 + 9 * level) mod 512"
    using u64_max[of va] by (simp add: unsigned_take_bit_eq unsigned_drop_bit_eq take_bit_eq_mod[where 'a=nat] drop_bit_eq_div[where 'a=nat])
  moreover have "(2::nat) ^ (12 + 9 * level) = 4096 * 512 ^ level" by (simp add: power_add power_mult)
  ultimately show ?thesis by (simp add: pgno_def div_mult2_eq)
qed

lemma MAXVA_pgno: "va < MAXVA \<longleftrightarrow> pgno va < 67108864"
proof -
  have "unat MAXVA = 67108864 * 4096" by (simp add: MAXVA_def)
  then show ?thesis unfolding pgno_def word_less_nat_alt by (simp only: div_less_iff_less_mult[of 4096] zero_less_numeral)
qed

lemma pt_upper_PX:
  assumes "va < MAXVA"
  shows "pt_upper (pgno va) = [unat (PX 2 va), unat (PX 1 va)]" "unat (PX 0 va) = pgno va mod 512"
  using assms by (simp_all add: pt_upper_def unat_PX MAXVA_pgno)

lemma pt_upper_path: "n < 67108864 \<Longrightarrow> pt_path (pt_upper n)" "length (pt_upper n) = 2"
  by (simp_all add: pt_upper_def pt_path_def)

lemma pt_upper_inj: "pt_upper n = pt_upper k \<Longrightarrow> n mod 512 = k mod 512 \<Longrightarrow> n = k"
proof -
  assume h: "pt_upper n = pt_upper k" "n mod 512 = k mod 512"
  have "n div 512 div 512 = k div 512 div 512" "n div 512 mod 512 = k div 512 mod 512"
    using h(1) by (simp_all add: pt_upper_def div_mult2_eq[symmetric])
  then have "n div 512 = k div 512" by (metis div_mod_decomp)
  with h(2) show ?thesis by (metis div_mod_decomp)
qed

lemma pte_addr_eq: "pte_addr p level va = p + of_nat (8 * unat (PX level va))"
  by (simp add: pte_addr_def)

lemma entry_nonzero: "pgalign p \<Longrightarrow> p \<noteq> 0 \<Longrightarrow> i < 512 \<Longrightarrow> p + of_nat (8 * i) \<noteq> 0"
  using slot_offset[of p i 0] by (auto simp: word_unat_eq_iff)

section \<open>Walking\<close>

text \<open>Only the memory and the free list differ.\<close>

definition mem_frame :: "kstate \<Rightarrow> kstate \<Rightarrow> bool" where
  "mem_frame s t = (sync t = sync (s\<lparr>mem := mem t, freelist := freelist t\<rparr>))"

lemma mem_freelist: "s\<lparr>freelist := p, mem := m\<rparr> = s\<lparr>mem := m, freelist := p\<rparr>"
  by (rule kstate.equality) simp_all

lemma mem_frame_refl: "mem_frame s s" by (simp add: mem_frame_def)

lemma mem_frame_trans: "mem_frame s t \<Longrightarrow> mem_frame t u \<Longrightarrow> mem_frame s u"
proof -
  assume a: "mem_frame s t" and b: "mem_frame t u"
  let ?f = "\<lambda>x. x\<lparr>mem := mem u, freelist := freelist u\<rparr>"
  have "sync u = ?f (sync t)" using b unfolding mem_frame_def by simp
  also have "sync t = sync (s\<lparr>mem := mem t, freelist := freelist t\<rparr>)" (is "_ = ?t") using a unfolding mem_frame_def .
  also have "?f ?t = sync (?f s)" by simp
  finally show ?thesis unfolding mem_frame_def .
qed

lemma mem_frame_select:
  assumes "mem_frame s t" "\<And>u. f (sync u) = f u" "\<And>u a b. f (u\<lparr>mem := a, freelist := b\<rparr>) = f u"
  shows "f t = f s"
proof -
  have "f t = f (sync t)" by (simp add: assms(2))
  also have "\<dots> = f (s\<lparr>mem := mem t, freelist := freelist t\<rparr>)" using assms(1) unfolding mem_frame_def by (simp add: assms(2))
  finally show ?thesis by (simp add: assms(3))
qed

lemma mem_frame_page: "mem_frame s t \<Longrightarrow> ram_page t = ram_page s"
  by (erule mem_frame_select) simp_all

text \<open>
  \<open>pt_step root s xs t ys\<close>: from the pool \<open>xs\<close> of free pages some were taken, \<open>ys\<close> remain, and the table may have new pages; no byte changed
  outside the free pages and the pages of the table. \<open>pt_grow\<close>: moreover the table stands for the same map.
\<close>

definition pt_pages :: "(u64 \<Rightarrow> byte) \<Rightarrow> u64 \<Rightarrow> u64 set" where
  "pt_pages m root = {p. \<exists>is. pt_path is \<and> pt_node m root is = Some p}"

definition pt_step :: "u64 \<Rightarrow> kstate \<Rightarrow> u64 list \<Rightarrow> kstate \<Rightarrow> u64 list \<Rightarrow> bool" where
  "pt_step root s xs t ys = (kmem_pool t ys \<and> pt_ok t root ys \<and> set ys \<subseteq> set xs \<and> mem_frame s t \<and>
     pt_pages (mem t) root \<subseteq> pt_pages (mem s) root \<union> set xs \<and>
     (\<forall>b. pgno b \<notin> pgno ` (pt_pages (mem s) root \<union> set xs) \<longrightarrow> mem t b = mem s b))"

definition pt_grow :: "u64 \<Rightarrow> kstate \<Rightarrow> u64 list \<Rightarrow> kstate \<Rightarrow> u64 list \<Rightarrow> bool" where
  "pt_grow root s xs t ys = (pt_step root s xs t ys \<and> (\<forall>n<67108864. pt_abs (mem t) root n = pt_abs (mem s) root n))"

lemma pt_stepD:
  assumes "pt_step root s xs t ys"
  shows "kmem_pool t ys" "pt_ok t root ys" "set ys \<subseteq> set xs" "mem_frame s t"
    "pgno b \<notin> pgno ` (pt_pages (mem s) root \<union> set xs) \<Longrightarrow> mem t b = mem s b"
  using assms unfolding pt_step_def by blast+

lemma pt_step_refl: "kmem_pool s xs \<Longrightarrow> pt_ok s root xs \<Longrightarrow> pt_step root s xs s xs"
  by (simp add: pt_step_def mem_frame_refl)

lemma pt_step_trans:
  assumes a: "pt_step root s xs t ys" and b: "pt_step root t ys u zs"
  shows "pt_step root s xs u zs"
proof -
  note A = a[unfolded pt_step_def] and B = b[unfolded pt_step_def]
  have pg: "pt_pages (mem t) root \<union> set ys \<subseteq> pt_pages (mem s) root \<union> set xs" using A by auto
  show ?thesis unfolding pt_step_def
  proof (intro conjI allI impI)
    show "kmem_pool u zs" "pt_ok u root zs" using B by auto
    show "set zs \<subseteq> set xs" using A B by auto
    show "mem_frame s u" using A B mem_frame_trans by blast
    show "pt_pages (mem u) root \<subseteq> pt_pages (mem s) root \<union> set xs" using pg B by blast
    show "mem u b = mem s b" if h: "pgno b \<notin> pgno ` (pt_pages (mem s) root \<union> set xs)" for b
    proof -
      have "pgno b \<notin> pgno ` (pt_pages (mem t) root \<union> set ys)" using h pg by blast
      then show ?thesis using pt_stepD(5)[OF b] pt_stepD(5)[OF a h] by simp
    qed
  qed
qed

lemma pt_grow_refl: "kmem_pool s xs \<Longrightarrow> pt_ok s root xs \<Longrightarrow> pt_grow root s xs s xs"
  by (simp add: pt_grow_def pt_step_refl)

lemma pt_grow_trans: "pt_grow root s xs t ys \<Longrightarrow> pt_grow root t ys u zs \<Longrightarrow> pt_grow root s xs u zs"
  unfolding pt_grow_def using pt_step_trans by fastforce

lemma pt_path_snocI: "pt_path ps \<Longrightarrow> length ps < 2 \<Longrightarrow> i < 512 \<Longrightarrow> pt_path (ps @ [i])"
  by (auto simp: pt_path_def)

lemma kmem_pool_frame:
  assumes "kmem_pool s xs" "\<And>x b. x \<in> set xs \<Longrightarrow> pgno b = pgno x \<Longrightarrow> m b = mem s b"
  shows "kmem_pool (s\<lparr>mem := m\<rparr>) xs"
  using assms kmem_list_outside[of s xs m] by (simp add: kmem_pool_def)

lemma pt_grow_add:
  assumes pool: "kmem_pool s (x # xs)" and ok: "pt_ok s root (x # xs)"
    and ps: "pt_path ps" "pt_node (mem s) root ps = Some p" "pt_child (mem s) p i = None" "i < 512" "length ps < 2"
  defines "t \<equiv> sync (s\<lparr>freelist := le64 (mem s) x, mem := pt_add (mem s) p i x\<rparr>)"
  shows "pt_grow root s (x # xs) t xs" "pt_node (mem t) root (ps @ [i]) = Some x"
proof -
  have x: "ram_page s x" "x \<noteq> 0" "x \<notin> set xs" "pgalign x" using pool km.pool_pages[OF pool] by (auto simp: ram_page_def)
  note P = pt_okD[OF ok ps(1,2)]
  have px: "p \<noteq> x" using P(4) by simp
  have out: "pt_add (mem s) p i x b = mem s b" if "pgno b \<noteq> pgno p" "pgno b \<noteq> pgno x" for b
    using put64_other_page[OF P(2) _ that(1), of "8 * i"] ps(4) that(2) x(4) by (simp add: pt_add_def memset_page del: of_nat_mult)
  have t: "mem t = pt_add (mem s) p i x" "ram_page t = ram_page s" by (simp_all add: t_def)
  note node = pt_add_node[OF ok x(1) _ ps(1-4), simplified, folded t(1)]
  show "pt_node (mem t) root (ps @ [i]) = Some x" using node[OF pt_path_snocI[OF ps(1,5,4)]] by simp
  have "kmem_list (s\<lparr>freelist := le64 (mem s) x\<rparr>) xs" using pool by (simp add: kmem_pool_def kmem_list_def)
  then have "kmem_pool (s\<lparr>freelist := le64 (mem s) x\<rparr>) xs" using pool by (simp add: kmem_pool_def)
  then have pool': "kmem_pool (s\<lparr>freelist := le64 (mem s) x, mem := pt_add (mem s) p i x\<rparr>) xs"
  proof (rule kmem_pool_frame)
    fix y b assume y: "y \<in> set xs" "pgno b = pgno y"
    then have "y \<noteq> p" "y \<noteq> x" "pgalign y" using P(4) x(3) km.pool_pages[OF pool] by (auto simp: ram_page_def)
    then have "pgno b \<noteq> pgno p" "pgno b \<noteq> pgno x" using y(2) pgalign_eqI P(2) x(4) by metis+
    then show "pt_add (mem s) p i x b = mem (s\<lparr>freelist := le64 (mem s) x\<rparr>) b" using out by simp
  qed
  have pg: "p \<in> pt_pages (mem s) root" using ps(1,2) by (auto simp: pt_pages_def)
  show "pt_grow root s (x # xs) t xs" unfolding pt_grow_def pt_step_def
  proof (intro conjI allI impI)
    show "kmem_pool t xs" using pool' by (simp add: t_def kmem_pool_def)
    show "pt_ok t root xs" by (rule pt_add_ok[OF ok x(1-3) ps(1-4) t])
    show "mem_frame s t" by (simp add: mem_frame_def t_def mem_freelist)
    show "pt_pages (mem t) root \<subseteq> pt_pages (mem s) root \<union> set (x # xs)" using node by (auto simp: pt_pages_def split: if_splits)
    show "pt_abs (mem t) root n = pt_abs (mem s) root n" if "n < 67108864" for n unfolding pt_abs_def t(1)
      by (rule pt_add_leaf[OF ok x(1) _ ps]) (use that pt_upper_path[of n] in auto)
    show "mem t b = mem s b" if "pgno b \<notin> pgno ` (pt_pages (mem s) root \<union> set (x # xs))" for b
      using that pg out unfolding t(1) by auto
  qed auto
qed

lemma load_entry: "pgalign p \<Longrightarrow> p \<noteq> 0 \<Longrightarrow> i < 512 \<Longrightarrow> load64 (p + of_nat (8 * i)) s = Ok (pt_entry (mem s) p i) s"
  using entry_nonzero[of p i] by (simp add: load64_def pt_entry_def kmon del: of_nat_mult)

lemma store_entry: "pgalign p \<Longrightarrow> p \<noteq> 0 \<Longrightarrow> i < 512 \<Longrightarrow> store64 (p + of_nat (8 * i)) v s = Ok () (s\<lparr>mem := put64 (mem s) (p + of_nat (8 * i)) v\<rparr>)"
  using entry_nonzero[of p i] by (simp add: store64_def kmon del: of_nat_mult)

lemma PX_bound: "unat (PX level va) < 512"
  by (simp add: unat_PX)

lemma walk_level_found:
  assumes "pgalign p" "p \<noteq> 0" "pt_child (mem s) p (unat (PX level va)) = Some q \<or> \<not> alloc"
  shows "walk_level va alloc level p s = Ok (pt_child (mem s) p (unat (PX level va))) s"
  using assms(3) load_entry[OF assms(1,2) PX_bound, of level va s]
  by (auto simp: walk_level_def pte_addr_eq pt_child_def kmon simp del: of_nat_mult split: if_splits)

lemma memset_twice: "pgalign a \<Longrightarrow> memset (memset m a c 4096) a d 4096 = memset m a d 4096"
  by (simp add: memset_page fun_eq_iff)

lemma walk_level_alloc:
  assumes pool: "kmem_pool s xs" and ok: "pt_ok s root xs"
    and ps: "pt_path ps" "pt_node (mem s) root ps = Some p" "length ps < 2"
  shows "\<exists>t ys. walk_level va True level p s = Ok (pt_node (mem t) root (ps @ [unat (PX level va)])) t \<and> pt_grow root s xs t ys \<and>
    length xs \<le> Suc (length ys) \<and> (pt_node (mem t) root (ps @ [unat (PX level va)]) = None \<longrightarrow> xs = [] \<and> ys = [])"
proof -
  let ?i = "unat (PX level va)"
  note P = pt_okD[OF ok ps(1,2)]
  note L = load_entry[OF P(2,3) PX_bound, of level va s]
  consider q where "pt_child (mem s) p ?i = Some q" | "pt_child (mem s) p ?i = None" "xs = []"
    | x ys where "pt_child (mem s) p ?i = None" "xs = x # ys" by (cases "pt_child (mem s) p ?i"; cases xs) auto
  then show ?thesis
  proof cases
    case 1
    then show ?thesis using walk_level_found[OF P(2,3)] pt_grow_refl[OF pool ok] ps(2) by fastforce
  next
    case 2
    have fl: "freelist s = 0" "freelk KmemLock s" "cpu_ok s" using pool 2(2) by (auto simp: kmem_pool_def kmem_list_def)
    have "walk_level va True level p s = Ok None (sync s)"
      using 2(1) L kalloc_empty[OF fl] by (auto simp: walk_level_def pte_addr_eq pt_child_def kmon simp del: of_nat_mult split: if_splits)
    moreover have "pt_node (mem (sync s)) root (ps @ [?i]) = None" using ps(2) 2(1) by simp
    moreover have "pt_grow root s xs (sync s) xs"
      using pt_grow_refl[OF pool ok] by (simp add: pt_grow_def pt_step_def mem_frame_def kmem_pool_def pt_ok_def)
    ultimately show ?thesis using 2(2) by (intro exI[of _ "sync s"] exI[of _ "[]"]) (simp del: pt_node_simps)
  next
    case 3
    note G = pt_grow_add[OF pool[unfolded 3(2)] ok[unfolded 3(2)] ps(1,2) 3(1) PX_bound ps(3)]
    have fl: "freelist s = x" "x \<noteq> 0" "freelk KmemLock s" "cpu_ok s" "pgalign x"
      using pool 3(2) by (auto simp: kmem_pool_def kmem_list_def ram_page_def)
    have "walk_level va True level p s = Ok (Some x) (sync (s\<lparr>freelist := le64 (mem s) x, mem := pt_add (mem s) p ?i x\<rparr>))"
      using 3(1) L kalloc_some[OF fl(1-4)] fl(2) store_entry[OF P(2,3) PX_bound, of level va]
      by (auto simp: walk_level_def pte_addr_eq pt_child_def memset_at_def memset_twice[OF fl(5)] pt_add_def kmon simp del: of_nat_mult split: if_splits)
    then show ?thesis using G unfolding 3(2)
      by (intro exI[of _ "sync (s\<lparr>freelist := le64 (mem s) x, mem := pt_add (mem s) p ?i x\<rparr>)"] exI[of _ ys]) (simp del: pt_node_simps)
  qed
qed

text \<open>The address of the leaf entry of page \<open>n\<close>, or 0 if the table has no page for it.\<close>

definition leaf_addr :: "(u64 \<Rightarrow> byte) \<Rightarrow> u64 \<Rightarrow> nat \<Rightarrow> u64" where
  "leaf_addr m root n = (case pt_node m root (pt_upper n) of None \<Rightarrow> 0 | Some p \<Rightarrow> p + of_nat (8 * (n mod 512)))"

lemma pt_path_upper: "pt_path []" "pt_path [unat (PX level va)]"
  using PX_bound by (simp_all add: pt_path_def)

lemma walk_lookup:
  assumes ok: "pt_ok s root xs" and va: "va < MAXVA"
  shows "walk root va False s = Ok (leaf_addr (mem s) root (pgno va)) s"
proof -
  let ?i = "unat (PX 2 va)" and ?j = "unat (PX 1 va)"
  note R = pt_okD[OF ok pt_path_upper(1) pt_node_simps(1)]
  have l2: "walk_level va False 2 root s = Ok (pt_child (mem s) root ?i) s" using walk_level_found[OF R(2,3)] by simp
  note U = pt_upper_PX[OF va] and nva = va[folded not_le]
  show ?thesis
  proof (cases "pt_child (mem s) root ?i")
    case None
    then show ?thesis using l2 nva by (simp add: walk_def kmon leaf_addr_def U(1) pt_node_two)
  next
    case (Some p)
    then have "pt_node (mem s) root [?i] = Some p" by simp
    note P = pt_okD[OF ok pt_path_upper(2) this]
    have "walk_level va False 1 p s = Ok (pt_child (mem s) p ?j) s" using walk_level_found[OF P(2,3)] by simp
    then show ?thesis using l2 nva Some
      by (simp add: walk_def kmon leaf_addr_def U pt_node_two pte_addr_eq del: of_nat_mult split: option.split)
  qed
qed

lemma walk_alloc:
  assumes pool: "kmem_pool s xs" and ok: "pt_ok s root xs" and va: "va < MAXVA"
  shows "\<exists>t ys. walk root va True s = Ok (leaf_addr (mem t) root (pgno va)) t \<and> pt_grow root s xs t ys \<and>
    length xs \<le> length ys + 2 \<and> (pt_node (mem t) root (pt_upper (pgno va)) = None \<longrightarrow> length xs \<le> 1 \<and> ys = [])"
proof -
  let ?i = "unat (PX 2 va)" and ?j = "unat (PX 1 va)"
  note U = pt_upper_PX[OF va] and nva = va[folded not_le]
  obtain t ys where t: "walk_level va True 2 root s = Ok (pt_child (mem t) root ?i) t" "pt_grow root s xs t ys"
      "length xs \<le> Suc (length ys)" "pt_child (mem t) root ?i = None \<longrightarrow> xs = [] \<and> ys = []"
    using walk_level_alloc[OF pool ok pt_path_upper(1) pt_node_simps(1), of va 2] by auto
  have T: "kmem_pool t ys" "pt_ok t root ys" using t(2) by (auto simp: pt_grow_def pt_step_def)
  show ?thesis
  proof (cases "pt_child (mem t) root ?i")
    case None
    then have "walk root va True s = Ok (leaf_addr (mem t) root (pgno va)) t" "xs = []" "ys = []"
      using t nva by (simp_all add: walk_def kmon leaf_addr_def U(1) pt_node_two)
    then show ?thesis using t(2) by auto
  next
    case (Some p)
    then have p: "pt_node (mem t) root [?i] = Some p" by simp
    obtain u zs where u: "walk_level va True 1 p t = Ok (pt_node (mem u) root [?i, ?j]) u" "pt_grow root t ys u zs"
        "length ys \<le> Suc (length zs)" "pt_node (mem u) root [?i, ?j] = None \<longrightarrow> ys = [] \<and> zs = []"
      using walk_level_alloc[OF T pt_path_upper(2) p, of va 1] by auto
    have "walk root va True s = Ok (leaf_addr (mem u) root (pgno va)) u"
      using t(1) u(1) Some nva by (simp add: walk_def kmon leaf_addr_def U pte_addr_eq del: of_nat_mult split: option.split)
    then show ?thesis using pt_grow_trans[OF t(2) u(2)] u(3,4) t(3) unfolding U(1)
      by (intro exI[of _ u] exI[of _ zs] conjI) auto
  qed
qed

section \<open>Writing a leaf entry\<close>

lemma pt_set_node:
  assumes ok: "pt_ok s root xs" and p: "pt_node (mem s) root ps = Some p" "pt_path ps" "length ps = 2" and i: "i < 512" and q: "pt_path qs"
  shows "pt_node (put64 (mem s) (p + of_nat (8 * i)) v) root qs = pt_node (mem s) root qs"
  using q
proof (induction qs rule: rev_induct)
  case (snoc j qs)
  have j: "pt_path qs" "j < 512" "length qs < 2" using pt_path_snoc[OF snoc.prems] snoc.prems by (auto simp: pt_path_def)
  show ?case
  proof (cases "pt_node (mem s) root qs")
    case (Some q)
    note Q = pt_okD[OF ok j(1) Some] and P = pt_okD[OF ok p(2,1)]
    have "p \<noteq> q" using Q(5)[OF p(2)] p(1,3) j(3) by auto
    then show ?thesis using Some snoc.IH[OF j(1)] pt_entry_put_other[OF P(2) Q(2) _ i j(2)] by (simp add: pt_child_def del: of_nat_mult)
  qed (use snoc.IH[OF j(1)] in \<open>simp del: of_nat_mult\<close>)
qed simp

lemma pt_set_abs:
  assumes ok: "pt_ok s root xs" and p: "pt_node (mem s) root (pt_upper n) = Some p" and n: "n < 67108864" "k < 67108864"
  shows "pt_abs (put64 (mem s) (p + of_nat (8 * (n mod 512))) v) root k = (if k = n then v else pt_abs (mem s) root k)"
proof -
  note path = pt_upper_path(1)[OF n(1)] pt_upper_path(2)[of n] pt_upper_path(1)[OF n(2)]
  note P = pt_okD[OF ok path(1) p]
  note node = pt_set_node[OF ok p path(1,2) _ path(3), of "n mod 512", simplified]
  show ?thesis
  proof (cases "pt_node (mem s) root (pt_upper k)")
    case None
    then show ?thesis using node p by (auto simp: pt_abs_def pt_leaf_def)
  next
    case (Some q)
    note Q = pt_okD[OF ok path(3) Some]
    show ?thesis
    proof (cases "q = p")
      case True
      then have "pt_upper k = pt_upper n" using P(5)[OF path(3)] Some by simp
      then have "k mod 512 = n mod 512 \<longleftrightarrow> k = n" using pt_upper_inj by blast
      then show ?thesis using True Some node pt_entry_put[OF P(2), of "n mod 512" "k mod 512"] by (simp add: pt_abs_def pt_leaf_def)
    next
      case False
      then have "k \<noteq> n" using Some p by auto
      then show ?thesis using False Some node pt_entry_put_other[OF P(2) Q(2), of "n mod 512" "k mod 512"]
        by (simp add: pt_abs_def pt_leaf_def)
    qed
  qed
qed

lemma pt_set_step:
  assumes pool: "kmem_pool s xs" and ok: "pt_ok s root xs" and p: "pt_node (mem s) root (pt_upper n) = Some p" and n: "n < 67108864"
  shows "pt_step root s xs (s\<lparr>mem := put64 (mem s) (p + of_nat (8 * (n mod 512))) v\<rparr>) xs"
proof -
  note path = pt_upper_path(1)[OF n] pt_upper_path(2)[of n]
  note P = pt_okD[OF ok path(1) p]
  let ?m = "put64 (mem s) (p + of_nat (8 * (n mod 512))) v"
  have node: "pt_node ?m root qs = pt_node (mem s) root qs" if "pt_path qs" for qs
    by (rule pt_set_node[OF ok p path _ that]) simp
  have out: "?m b = mem s b" if "pgno b \<noteq> pgno p" for b by (rule put64_other_page[OF P(2) _ that]) simp
  have "kmem_pool (s\<lparr>mem := ?m\<rparr>) xs"
  proof (rule kmem_pool_frame[OF pool out])
    fix x b assume x: "x \<in> set xs" "pgno b = pgno x"
    then have "x \<noteq> p" "pgalign x" using P(4) km.pool_pages[OF pool] by (auto simp: ram_page_def)
    then show "pgno b \<noteq> pgno p" using x(2) pgalign_eqI P(2) by metis
  qed
  moreover have "pt_ok (s\<lparr>mem := ?m\<rparr>) root xs" by (rule pt_ok_cong[OF ok]) (simp_all add: node del: of_nat_mult)
  moreover have "p \<in> pt_pages (mem s) root" using p path(1) by (auto simp: pt_pages_def)
  moreover have "pt_pages ?m root = pt_pages (mem s) root" using node by (auto simp: pt_pages_def)
  moreover have "mem_frame s (s\<lparr>mem := ?m\<rparr>)" by (simp add: mem_frame_def)
  moreover have "?m b = mem s b" if "pgno b \<notin> pgno ` (pt_pages (mem s) root \<union> set xs)" for b
    using that \<open>p \<in> pt_pages (mem s) root\<close> by (intro out) auto
  ultimately show ?thesis by (simp add: pt_step_def del: of_nat_mult)
qed

section \<open>Mapping pages\<close>

lemma leaf_load:
  assumes "pt_ok s root xs" "n < 67108864" "pt_node (mem s) root (pt_upper n) = Some p"
  shows "leaf_addr (mem s) root n \<noteq> 0" "load64 (leaf_addr (mem s) root n) s = Ok (pt_abs (mem s) root n) s"
    "store64 (leaf_addr (mem s) root n) v s = Ok () (s\<lparr>mem := put64 (mem s) (p + of_nat (8 * (n mod 512))) v\<rparr>)"
proof -
  note P = pt_okD[OF assms(1) pt_upper_path(1)[OF assms(2)] assms(3)]
  show "leaf_addr (mem s) root n \<noteq> 0" using entry_nonzero[OF P(2,3), of "n mod 512"] assms(3) by (simp add: leaf_addr_def del: of_nat_mult)
  show "load64 (leaf_addr (mem s) root n) s = Ok (pt_abs (mem s) root n) s"
    using load_entry[OF P(2,3), of "n mod 512"] assms(3) by (simp add: leaf_addr_def pt_abs_def pt_leaf_def del: of_nat_mult)
  show "store64 (leaf_addr (mem s) root n) v s = Ok () (s\<lparr>mem := put64 (mem s) (p + of_nat (8 * (n mod 512))) v\<rparr>)"
    using store_entry[OF P(2,3), of "n mod 512"] assms(3) by (simp add: leaf_addr_def del: of_nat_mult)
qed

text \<open>\<open>mapped m m' root lo k pa perm\<close>: the \<open>k\<close> pages from \<open>lo\<close> on are mapped to the pages from \<open>pa\<close> on, and nothing else changed.\<close>

definition mapped :: "(u64 \<Rightarrow> byte) \<Rightarrow> (u64 \<Rightarrow> byte) \<Rightarrow> u64 \<Rightarrow> nat \<Rightarrow> nat \<Rightarrow> u64 \<Rightarrow> u64 \<Rightarrow> bool" where
  "mapped m m' root lo k pa perm = (\<forall>n<67108864. pt_abs m' root n =
     (if lo \<le> n \<and> n < lo + k then PA2PTE (pa + of_nat ((n - lo) * 4096)) OR perm OR PTE_V else pt_abs m root n))"

lemma map_one_ok:
  assumes pool: "kmem_pool s xs" and ok: "pt_ok s root xs" and a: "a < MAXVA" "pt_abs (mem s) root (pgno a) AND PTE_V = 0"
  shows "\<exists>t ys. pt_step root s xs t ys \<and> length xs \<le> length ys + 2 \<and>
    (map_one root l perm (a, pa) s = Ok (Inr (- 1)) t \<and> ys = [] \<and> length xs \<le> 1 \<and> mapped (mem s) (mem t) root (pgno a) 0 pa perm \<or>
     map_one root l perm (a, pa) s = Ok (if a = l then Inr 0 else Inl (a + PGSIZE, pa + PGSIZE)) t \<and>
       mapped (mem s) (mem t) root (pgno a) 1 pa perm)"
proof -
  obtain t ys where t: "walk root a True s = Ok (leaf_addr (mem t) root (pgno a)) t" "pt_grow root s xs t ys"
      "length xs \<le> length ys + 2" "pt_node (mem t) root (pt_upper (pgno a)) = None \<longrightarrow> length xs \<le> 1 \<and> ys = []"
    using walk_alloc[OF pool ok a(1)] by (elim exE conjE) (rule that)
  have n: "pgno a < 67108864" using a(1) by (simp add: MAXVA_pgno)
  have step: "pt_step root s xs t ys" and same: "\<And>k. k < 67108864 \<Longrightarrow> pt_abs (mem t) root k = pt_abs (mem s) root k"
    using t(2) by (auto simp: pt_grow_def)
  note T = pt_stepD(1,2)[OF step]
  show ?thesis
  proof (cases "pt_node (mem t) root (pt_upper (pgno a))")
    case None
    then have "map_one root l perm (a, pa) s = Ok (Inr (- 1)) t" using t(1) by (simp add: map_one_def kmon leaf_addr_def)
    moreover have "ys = []" "length xs \<le> 1" using None t(4) by simp_all
    moreover have "mapped (mem s) (mem t) root (pgno a) 0 pa perm" using same by (auto simp: mapped_def)
    ultimately show ?thesis using step t(3) by blast
  next
    case (Some p)
    let ?e = "PA2PTE pa OR perm OR PTE_V"
    let ?u = "t\<lparr>mem := put64 (mem t) (p + of_nat (8 * (pgno a mod 512))) ?e\<rparr>"
    note L = leaf_load[OF T(2) n Some]
    have "map_one root l perm (a, pa) s = Ok (if a = l then Inr 0 else Inl (a + PGSIZE, pa + PGSIZE)) ?u"
      using t(1) L a(2) same[OF n] by (simp add: map_one_def kmon del: of_nat_mult)
    moreover have "mapped (mem s) (mem ?u) root (pgno a) 1 pa perm" unfolding mapped_def
      using same pt_set_abs[OF T(2) Some n] by (auto simp del: of_nat_mult)
    ultimately show ?thesis using pt_step_trans[OF step pt_set_step[OF T Some n]] t(3) by blast
  qed
qed

lemma map_one_remap:
  assumes pool: "kmem_pool s xs" and ok: "pt_ok s root xs" and a: "a < MAXVA" "pt_abs (mem s) root (pgno a) AND PTE_V \<noteq> 0"
  shows "map_one root l perm (a, pa) s = Panic ''mappages: remap''"
proof -
  obtain t ys where t: "walk root a True s = Ok (leaf_addr (mem t) root (pgno a)) t" "pt_grow root s xs t ys"
    using walk_alloc[OF pool ok a(1)] by (elim exE conjE) (rule that)
  have n: "pgno a < 67108864" using a(1) by (simp add: MAXVA_pgno)
  have ok': "pt_ok t root ys" and same: "pt_abs (mem t) root (pgno a) = pt_abs (mem s) root (pgno a)"
    using t(2) n by (auto simp: pt_grow_def pt_step_def)
  then obtain p where p: "pt_node (mem t) root (pt_upper (pgno a)) = Some p"
    using a(2) by (cases "pt_node (mem t) root (pt_upper (pgno a))") (auto simp: pt_abs_def pt_leaf_def)
  show ?thesis using t(1) leaf_load[OF ok' n p] a(2) same by (simp add: map_one_def kmon)
qed

lemma pgno_next: "pgalign a \<Longrightarrow> pgno a + k < 67108864 \<Longrightarrow> pgno (a + of_nat (k * 4096)) = pgno a + k \<and> pgalign (a + of_nat (k * 4096))"
proof -
  assume a: "pgalign a" "pgno a + k < 67108864"
  then obtain c where c: "unat a = 4096 * c" by (auto simp: pgalign_unat mod_eq_0_iff_dvd)
  then have "unat a + k * 4096 < 2 ^ 64" using a(2) by (simp add: pgno_def)
  then have "unat (a + of_nat (k * 4096)) = 4096 * c + k * 4096" using unat_page_step[of a k k] c by simp
  then show ?thesis using c by (simp add: pgno_def pgalign_unat)
qed

lemma mapped_Suc:
  assumes "mapped m m1 root lo 1 pa perm" "mapped m1 m2 root (Suc lo) k (pa + PGSIZE) perm"
  shows "mapped m m2 root lo (Suc k) pa perm"
  unfolding mapped_def
proof (intro allI impI)
  fix n :: nat assume n: "n < 67108864"
  have e: "pa + PGSIZE + of_nat ((n - Suc lo) * 4096) = pa + of_nat ((n - lo) * 4096)" if "Suc lo \<le> n"
  proof -
    have "n - lo = Suc (n - Suc lo)" using that by simp
    then show ?thesis by (simp add: PGSIZE_def algebra_simps)
  qed
  show "pt_abs m2 root n = (if lo \<le> n \<and> n < lo + Suc k then PA2PTE (pa + of_nat ((n - lo) * 4096)) OR perm OR PTE_V else pt_abs m root n)"
    using assms n unfolding mapped_def by (cases "n = lo") (auto simp: e simp del: of_nat_mult)
qed

lemma map_loop:
  assumes "kmem_pool s xs" "pt_ok s root xs" "pgalign a" "pgno a + Suc k \<le> 67108864" "k < fuel" "l = a + of_nat (k * 4096)"
    and "\<forall>n. pgno a \<le> n \<and> n < pgno a + Suc k \<longrightarrow> pt_abs (mem s) root n AND PTE_V = 0"
  shows "\<exists>r t ys j. loopf fuel (map_one root l perm) (a, pa) s = Ok r t \<and> pt_step root s xs t ys \<and>
    mapped (mem s) (mem t) root (pgno a) j pa perm \<and> (r = 0 \<and> j = Suc k \<or> r = - 1 \<and> j < Suc k \<and> ys = [] \<and> length xs \<le> 2 * j + 1)"
  using assms
proof (induction k arbitrary: s xs a pa fuel)
  case 0
  then obtain f where f: "fuel = Suc f" by (cases fuel) auto
  have a: "a < MAXVA" using 0(4) by (simp add: MAXVA_pgno)
  have al: "a = l" using 0(6) by simp
  have v: "pt_abs (mem s) root (pgno a) AND PTE_V = 0" using 0(7) by simp
  obtain t ys where step: "pt_step root s xs t ys" "length xs \<le> length ys + 2" and
    c: "map_one root l perm (a, pa) s = Ok (Inr (- 1)) t \<and> ys = [] \<and> length xs \<le> 1 \<and> mapped (mem s) (mem t) root (pgno a) 0 pa perm \<or>
        map_one root l perm (a, pa) s = Ok (Inr 0) t \<and> mapped (mem s) (mem t) root (pgno a) 1 pa perm"
    using map_one_ok[OF 0(1,2) a v, of l perm pa] al by auto
  from c show ?case
  proof
    assume h: "map_one root l perm (a, pa) s = Ok (Inr (- 1)) t \<and> ys = [] \<and> length xs \<le> 1 \<and> mapped (mem s) (mem t) root (pgno a) 0 pa perm"
    then have "loopf fuel (map_one root l perm) (a, pa) s = Ok (- 1) t" unfolding f by (intro loopf_exit) simp
    then show ?thesis using h step by (intro exI[of _ "- 1"] exI[of _ t] exI[of _ ys] exI[of _ 0]) simp
  next
    assume h: "map_one root l perm (a, pa) s = Ok (Inr 0) t \<and> mapped (mem s) (mem t) root (pgno a) 1 pa perm"
    then have "loopf fuel (map_one root l perm) (a, pa) s = Ok 0 t" unfolding f by (intro loopf_exit) simp
    then show ?thesis using h step by (intro exI[of _ 0] exI[of _ t] exI[of _ ys] exI[of _ 1]) simp
  qed
next
  case (Suc k)
  then obtain f where f: "fuel = Suc f" "k < f" by (cases fuel) auto
  have a: "a < MAXVA" using Suc.prems(4) by (simp add: MAXVA_pgno)
  have nx: "pgno (a + PGSIZE) = Suc (pgno a)" "pgalign (a + PGSIZE)" using pgno_next[of a 1] Suc.prems(3,4) by (simp_all add: PGSIZE_def)
  have v: "pt_abs (mem s) root (pgno a) AND PTE_V = 0" using Suc.prems(7) by simp
  have "pgno l = pgno a + Suc k" using pgno_next[of a "Suc k"] Suc.prems(3,4,6) by simp
  then have al: "a \<noteq> l" by auto
  obtain t ys where step: "pt_step root s xs t ys" "length xs \<le> length ys + 2" and
    c: "map_one root l perm (a, pa) s = Ok (Inr (- 1)) t \<and> ys = [] \<and> length xs \<le> 1 \<and> mapped (mem s) (mem t) root (pgno a) 0 pa perm \<or>
        map_one root l perm (a, pa) s = Ok (Inl (a + PGSIZE, pa + PGSIZE)) t \<and> mapped (mem s) (mem t) root (pgno a) 1 pa perm"
    using map_one_ok[OF Suc.prems(1,2) a v, of l perm pa] al by auto
  from c show ?case
  proof
    assume h: "map_one root l perm (a, pa) s = Ok (Inr (- 1)) t \<and> ys = [] \<and> length xs \<le> 1 \<and> mapped (mem s) (mem t) root (pgno a) 0 pa perm"
    then have "loopf fuel (map_one root l perm) (a, pa) s = Ok (- 1) t" unfolding f by (intro loopf_exit) simp
    then show ?thesis using h step by (intro exI[of _ "- 1"] exI[of _ t] exI[of _ ys] exI[of _ 0]) simp
  next
    assume h: "map_one root l perm (a, pa) s = Ok (Inl (a + PGSIZE, pa + PGSIZE)) t \<and> mapped (mem s) (mem t) root (pgno a) 1 pa perm"
    then have run: "loopf fuel (map_one root l perm) (a, pa) s = loopf f (map_one root l perm) (a + PGSIZE, pa + PGSIZE) t"
      unfolding f by (intro loopf_next) simp
    have free: "\<forall>n. pgno (a + PGSIZE) \<le> n \<and> n < pgno (a + PGSIZE) + Suc k \<longrightarrow> pt_abs (mem t) root n AND PTE_V = 0"
      using h Suc.prems(4,7) nx(1) by (simp add: mapped_def)
    have b: "pgno (a + PGSIZE) + Suc k \<le> 67108864" using Suc.prems(4) nx(1) by simp
    have l: "l = a + PGSIZE + of_nat (k * 4096)" using Suc.prems(6) by (simp add: PGSIZE_def algebra_simps)
    obtain r u zs j where u: "loopf f (map_one root l perm) (a + PGSIZE, pa + PGSIZE) t = Ok r u" "pt_step root t ys u zs"
        "mapped (mem t) (mem u) root (pgno (a + PGSIZE)) j (pa + PGSIZE) perm" "r = 0 \<and> j = Suc k \<or> r = - 1 \<and> j < Suc k \<and> zs = [] \<and> length ys \<le> 2 * j + 1"
      using Suc.IH[OF pt_stepD(1,2)[OF step(1)] nx(2) b f(2) l free, of "pa + PGSIZE"] by (elim exE conjE) (rule that)
    have "mapped (mem s) (mem u) root (pgno a) (Suc j) pa perm" using mapped_Suc h u(3) unfolding nx(1) by blast
    then show ?thesis using run u(1,4) pt_step_trans[OF step(1) u(2)] step(2)
      by (intro exI[of _ r] exI[of _ u] exI[of _ zs] exI[of _ "Suc j"]) auto
  qed
qed

lemma unat_PGROUNDDOWN_pgno: "unat (PGROUNDDOWN a) = pgno a * 4096"
  by (simp add: unat_PGROUNDDOWN pgno_def minus_mod_eq_div_mult)

lemma pgno_PGROUNDDOWN [simp]: "pgno (PGROUNDDOWN a) = pgno a"
  by (simp add: pgno_def[of "PGROUNDDOWN a"] unat_PGROUNDDOWN_pgno)

lemma PGROUNDDOWN_later:
  assumes "pgno a \<le> pgno b"
  shows "PGROUNDDOWN b = PGROUNDDOWN a + of_nat ((pgno b - pgno a) * 4096)"
proof -
  have "unat (PGROUNDDOWN a) + (pgno b - pgno a) * 4096 < 2 ^ 64"
    using u64_max[of b] assms by (simp add: unat_PGROUNDDOWN_pgno diff_mult_distrib) (simp add: pgno_def)
  then have "unat (PGROUNDDOWN a + of_nat ((pgno b - pgno a) * 4096)) = pgno b * 4096"
    using unat_page_step[of "PGROUNDDOWN a" "pgno b - pgno a" "pgno b - pgno a"] assms by (simp add: unat_PGROUNDDOWN_pgno diff_mult_distrib)
  then show ?thesis by (simp add: word_unat_eq_iff unat_PGROUNDDOWN_pgno del: of_nat_mult)
qed

section \<open>Copying between user and kernel memory\<close>

text \<open>The physical page behind a user address, 0 if it has none, and the physical address of a user byte.\<close>

definition uframe :: "(u64 \<Rightarrow> byte) \<Rightarrow> u64 \<Rightarrow> u64 \<Rightarrow> u64" where
  "uframe m root va = (if va < MAXVA then
     let e = pt_abs m root (pgno va) in if e AND PTE_V \<noteq> 0 \<and> e AND PTE_U \<noteq> 0 then PTE2PA e else 0 else 0)"

definition uaddr :: "(u64 \<Rightarrow> byte) \<Rightarrow> u64 \<Rightarrow> u64 \<Rightarrow> u64" where
  "uaddr m root va = uframe m root va + (va - PGROUNDDOWN va)"

lemma walkaddr_eq: "pt_ok s root xs \<Longrightarrow> walkaddr root va s = Ok (uframe (mem s) root va) s"
proof -
  assume ok: "pt_ok s root xs"
  show ?thesis
  proof (cases "va < MAXVA")
    case True
    then have n: "pgno va < 67108864" "\<not> MAXVA \<le> va" by (simp_all add: MAXVA_pgno[symmetric] not_le)
    show ?thesis
    proof (cases "pt_node (mem s) root (pt_upper (pgno va))")
      case None
      then show ?thesis using walk_lookup[OF ok True] n(2) True
        by (simp add: walkaddr_def kmon leaf_addr_def uframe_def pt_abs_def pt_leaf_def)
    next
      case (Some p)
      then show ?thesis using walk_lookup[OF ok True] n(2) True leaf_load[OF ok n(1) Some] by (simp add: walkaddr_def kmon uframe_def Let_def)
    qed
  qed (simp add: walkaddr_def kmon uframe_def leI)
qed

lemma uframe_page: "pgno a = pgno b \<Longrightarrow> uframe m root a = uframe m root b"
  by (simp add: uframe_def MAXVA_pgno)

lemma chunk_props:
  assumes "0 < len" "va < MAXVA"
  defines "n \<equiv> unat (chunk va len)"
  shows "0 < n" "n \<le> unat len" "unat (len - chunk va len) = unat len - n"
    "\<And>i. i < n \<Longrightarrow> pgno (va + of_nat i) = pgno va \<and> va + of_nat i - PGROUNDDOWN (va + of_nat i) = va - PGROUNDDOWN va + of_nat i"
    "n < unat len \<Longrightarrow> PGROUNDDOWN va + PGSIZE = va + of_nat n"
proof -
  let ?o = "unat va mod 4096"
  have o: "unat (va - PGROUNDDOWN va) = ?o"
    by (simp add: unat_sub PGROUNDDOWN_le unat_PGROUNDDOWN)
  have r: "unat (PGSIZE - (va - PGROUNDDOWN va)) = 4096 - ?o"
  proof -
    have "va - PGROUNDDOWN va \<le> PGSIZE" unfolding word_le_nat_alt o by simp
    then show ?thesis by (simp add: unat_sub o)
  qed
  have n: "n = min (4096 - ?o) (unat len)" unfolding n_def chunk_def Let_def using r by (auto simp: word_less_nat_alt min_def)
  have len: "0 < unat len" using assms(1) by (simp add: word_less_nat_alt)
  show "0 < n" "n \<le> unat len" using n len by auto
  then show "unat (len - chunk va len) = unat len - n" by (simp add: n_def unat_sub word_le_nat_alt)
  have va: "unat va + 4096 < 2 ^ 64" using assms(2) by (simp add: word_less_nat_alt MAXVA_def)
  show "pgno (va + of_nat i) = pgno va \<and> va + of_nat i - PGROUNDDOWN (va + of_nat i) = va - PGROUNDDOWN va + of_nat i" if "i < n" for i
  proof -
    have "i < 4096 - ?o" using that n by simp
    then have i: "?o + i < 4096" by linarith
    then have u: "unat (va + of_nat i) = unat va + i" using va by (intro u64_offset[where n=4096]) simp_all
    have "pgno (va + of_nat i) = pgno va"
      using i unfolding pgno_def u div_add1_eq[of "unat va" i] by simp
    moreover from this have "PGROUNDDOWN (va + of_nat i) = PGROUNDDOWN va" by (simp add: word_unat_eq_iff unat_PGROUNDDOWN_pgno)
    ultimately show ?thesis by simp
  qed
  show "PGROUNDDOWN va + PGSIZE = va + of_nat n" if "n < unat len"
  proof -
    have e: "n = 4096 - ?o" using that n by auto
    have "unat (va + of_nat n) = unat va + n" using va e by (intro u64_offset[where n="Suc n"]) simp_all
    moreover have "unat (PGROUNDDOWN va + PGSIZE) = unat va - ?o + 4096"
      using va by (simp add: unat_word_ariths unat_PGROUNDDOWN)
    moreover have "unat va - ?o + 4096 = unat va + (4096 - ?o)" by (simp add: mod_less_eq_dividend)
    ultimately show ?thesis using e by (simp add: word_unat_eq_iff)
  qed
qed

lemma mem_read_apply: "mem_read m dst k src n = (\<lambda>j. if k \<le> j \<and> j < k + n then m (src + of_nat (j - k)) else dst j)"
proof (induction n)
  case (Suc n)
  have "mem_read m dst k src (Suc n) = (mem_read m dst k src n)(k + n := m (src + of_nat n))" by (simp add: mem_read_def)
  with Suc show ?case by (auto simp: fun_eq_iff)
qed (auto simp: mem_read_def fun_eq_iff)

lemma uaddr_chunk:
  assumes "0 < len" "va < MAXVA" "i < unat (chunk va len)"
  shows "uaddr m root (va + of_nat i) = uframe m root va + (va - PGROUNDDOWN va) + of_nat i" "uframe m root (va + of_nat i) = uframe m root va"
  using chunk_props(4)[OF assms(1,2), of i] assms(3) uframe_page[of "va + of_nat i" va m root] by (simp_all add: uaddr_def)

text \<open>The bytes that \<open>copyin\<close> reads, all of them mapped for the user.\<close>

definition umapped :: "(u64 \<Rightarrow> byte) \<Rightarrow> u64 \<Rightarrow> u64 \<Rightarrow> nat \<Rightarrow> bool" where
  "umapped m root va n = (\<forall>i<n. uframe m root (va + of_nat i) \<noteq> 0)"

lemma umapped_add: "umapped m root va (n + k) = (umapped m root va n \<and> umapped m root (va + of_nat n) k)"
proof
  assume h: "umapped m root va n \<and> umapped m root (va + of_nat n) k"
  show "umapped m root va (n + k)" unfolding umapped_def
  proof (intro allI impI)
    fix i assume i: "i < n + k"
    show "uframe m root (va + of_nat i) \<noteq> 0"
    proof (cases "i < n")
      case False
      then have "va + of_nat i = va + of_nat n + of_nat (i - n)" "i - n < k" using i by simp_all
      then show ?thesis using h unfolding umapped_def by metis
    qed (use h in \<open>simp add: umapped_def\<close>)
  qed
next
  assume h: "umapped m root va (n + k)"
  have "uframe m root (va + of_nat n + of_nat i) \<noteq> 0" if "i < k" for i
    using h[unfolded umapped_def, rule_format, of "n + i"] that by (simp add: add.assoc)
  then show "umapped m root va n \<and> umapped m root (va + of_nat n) k" using h by (simp add: umapped_def)
qed

lemma copy_cases:
  assumes "0 < unat len"
  obtains (fault) "uframe m root (PGROUNDDOWN va) = 0" "\<not> umapped m root va (unat len)"
    | (chunk) n where "n = unat (chunk va len)" "0 < n" "n \<le> unat len" "unat (len - chunk va len) = unat len - n" "va < MAXVA"
      "uframe m root (PGROUNDDOWN va) = uframe m root va" "uframe m root va \<noteq> 0" "umapped m root va n"
      "n < unat len \<Longrightarrow> PGROUNDDOWN va + PGSIZE = va + of_nat n"
proof -
  have e: "uframe m root (PGROUNDDOWN va) = uframe m root va" by (rule uframe_page) simp
  have len: "0 < len" using assms by (simp add: word_less_nat_alt)
  show ?thesis
  proof (cases "uframe m root va = 0")
    case True
    then have "uframe m root (va + of_nat 0) = 0" by simp
    then have "\<not> umapped m root va (unat len)" unfolding umapped_def using assms by blast
    with True e show ?thesis by (intro fault) simp_all
  next
    case False
    then have va: "va < MAXVA" by (auto simp: uframe_def split: if_splits)
    note C = chunk_props[OF len va]
    have "umapped m root va (unat (chunk va len))" unfolding umapped_def using uaddr_chunk(2)[OF len va] False by simp
    then show ?thesis by (rule chunk[OF refl C(1-3) va e False _ C(5)])
  qed
qed

definition copied :: "(u64 \<Rightarrow> byte) \<Rightarrow> u64 \<Rightarrow> u64 \<Rightarrow> nat \<Rightarrow> nat \<Rightarrow> (nat \<Rightarrow> byte) \<Rightarrow> (nat \<Rightarrow> byte)" where
  "copied m root va k n dst = (\<lambda>j. if k \<le> j \<and> j < k + n then m (uaddr m root (va + of_nat (j - k))) else dst j)"

lemma copied_0 [simp]: "copied m root va k 0 dst = dst"
  by (auto simp: copied_def fun_eq_iff)

lemma copied_all: "copied m root va 0 n dst = (\<lambda>j. if j < n then m (uaddr m root (va + of_nat j)) else dst j)"
  by (auto simp: copied_def fun_eq_iff)

lemma copied_add: "copied m root (va + of_nat n) (k + n) l (copied m root va k n dst) = copied m root va k (n + l) dst"
proof (rule ext)
  fix j
  have e: "va + of_nat n + of_nat (j - (k + n)) = va + of_nat (j - k)" if "k + n \<le> j"
  proof -
    have "j - k = n + (j - (k + n))" using that by simp
    then show ?thesis by (simp del: of_nat_diff)
  qed
  show "copied m root (va + of_nat n) (k + n) l (copied m root va k n dst) j = copied m root va k (n + l) dst j"
    by (cases "k + n \<le> j") (simp_all add: copied_def e del: of_nat_diff)
qed

lemma copied_chunk:
  assumes "0 < len" "va < MAXVA" "n = unat (chunk va len)"
  shows "mem_read m dst k (uframe m root va + (va - PGROUNDDOWN va)) n = copied m root va k n dst"
proof (rule ext)
  fix j
  show "mem_read m dst k (uframe m root va + (va - PGROUNDDOWN va)) n j = copied m root va k n dst j"
  proof (cases "k \<le> j \<and> j < k + n")
    case True
    then have "j - k < unat (chunk va len)" using assms(3) by auto
    then show ?thesis using True uaddr_chunk(1)[OF assms(1,2), of "j - k" m root] by (simp add: mem_read_apply copied_def del: of_nat_diff)
  next
    case False
    show ?thesis unfolding mem_read_apply copied_def if_not_P[OF False] by (rule refl)
  qed
qed

lemma copyin_loop:
  assumes ok: "pt_ok s root xs" and fuel: "unat len < fuel"
  shows "\<exists>d. loopf fuel (copyin_one root) (va, k, len, dst) s =
    Ok (if umapped (mem s) root va (unat len) then (0, copied (mem s) root va k (unat len) dst) else (- 1, d)) s"
  using fuel
proof (induction "unat len" arbitrary: len va k dst fuel rule: less_induct)
  case less
  then obtain f where f: "fuel = Suc f" by (cases fuel) auto
  show ?case
  proof (cases "unat len = 0")
    case True
    then have "len = 0" by (simp add: word_unat_eq_iff)
    then show ?thesis by (simp add: f copyin_one_def kmon umapped_def)
  next
    case False
    then have pos: "0 < unat len" by simp
    then have l0: "len \<noteq> 0" "0 < len" by (auto simp: word_less_nat_alt)
    note W = walkaddr_eq[OF ok, of "PGROUNDDOWN va"]
    from pos show ?thesis
    proof (cases rule: copy_cases[where m="mem s" and root=root and va=va])
      case fault
      have "copyin_one root (va, k, len, dst) s = Ok (Inr (- 1, dst)) s" using W fault(1) l0(1) by (simp add: copyin_one_def kmon Let_def)
      then have "loopf fuel (copyin_one root) (va, k, len, dst) s = Ok (- 1, dst) s" unfolding f by (rule loopf_exit)
      then show ?thesis using fault(2) by simp
    next
      case (chunk n)
      let ?va = "PGROUNDDOWN va + PGSIZE" and ?l = "len - chunk va len" and ?d = "copied (mem s) root va k n dst"
      have one: "copyin_one root (va, k, len, dst) s = Ok (Inl (?va, k + n, ?l, ?d)) s"
        using W chunk(1,6,7) l0(1) copied_chunk[OF l0(2) chunk(5,1)] by (simp add: copyin_one_def kmon Let_def)
      have sm: "unat ?l < unat len" "unat ?l < f" using chunk(2-4) less.prems f by auto
      obtain d where IH: "loopf f (copyin_one root) (?va, k + n, ?l, ?d) s =
          Ok (if umapped (mem s) root ?va (unat ?l) then (0, copied (mem s) root ?va (k + n) (unat ?l) ?d) else (- 1, d)) s"
        using less.hyps[OF sm] by blast
      have "umapped (mem s) root ?va (unat ?l) = umapped (mem s) root va (unat len) \<and>
          copied (mem s) root ?va (k + n) (unat ?l) ?d = copied (mem s) root va k (unat len) dst"
      proof (cases "n = unat len")
        case True
        then show ?thesis using chunk(4,8) by (simp add: umapped_def)
      next
        case False
        then have "?va = va + of_nat n" "n + unat ?l = unat len" using chunk(3,4,9) by simp_all
        then show ?thesis using umapped_add[of "mem s" root va n "unat ?l"] copied_add[of "mem s" root va n k "unat ?l" dst] chunk(8) by simp
      qed
      then show ?thesis using IH unfolding f loopf_next[of "copyin_one root", OF one] by (intro exI[of _ d]) simp
    qed
  qed
qed

lemma pgalign_uframe [simp]: "pgalign (uframe m root va)"
proof -
  have "pgalign (PTE2PA e)" for e
  proof -
    have "take_bit 12 (PTE2PA e) = 0" by (rule bit_word_eqI) (simp add: PTE2PA_def bit_simps)
    then show ?thesis by (simp add: pgalign_def PGSIZE_def take_bit_eq_mod)
  qed
  then show ?thesis by (simp add: uframe_def Let_def pgalign_def)
qed

lemma page_rest: "\<exists>i<4096. va - PGROUNDDOWN va = of_nat i"
proof (intro exI conjI)
  have "unat (va - PGROUNDDOWN va) = unat va mod 4096" by (simp add: unat_sub PGROUNDDOWN_le unat_PGROUNDDOWN)
  then show "unat (va - PGROUNDDOWN va) < 4096" by simp
qed simp

lemma pgno_uaddr: "pgno (uaddr m root va) = pgno (uframe m root va)"
  using page_rest[of va] pgno_offset[OF pgalign_uframe] by (auto simp: uaddr_def)

text \<open>The user's pages are distinct and none of them is a page of the table.\<close>

definition user_ok :: "(u64 \<Rightarrow> byte) \<Rightarrow> u64 \<Rightarrow> bool" where
  "user_ok m root = (\<forall>a b. uframe m root a \<noteq> 0 \<longrightarrow> uframe m root a \<notin> pt_pages m root \<and> (uframe m root b = uframe m root a \<longrightarrow> pgno b = pgno a))"

lemma uaddr_inj:
  assumes "user_ok m root" "uframe m root a \<noteq> 0" "uframe m root b \<noteq> 0" "uaddr m root a = uaddr m root b"
  shows "a = b"
proof -
  have "pgno (uframe m root a) = pgno (uframe m root b)" using assms(4) pgno_uaddr[of m root a] pgno_uaddr[of m root b] by simp
  then have f: "uframe m root a = uframe m root b" by (rule pgalign_eqI[OF pgalign_uframe pgalign_uframe])
  have "uframe m root b = uframe m root a \<longrightarrow> pgno b = pgno a" using assms(1,2) unfolding user_ok_def by blast
  then have "pgno a = pgno b" using f by simp
  then have "PGROUNDDOWN a = PGROUNDDOWN b" by (simp add: word_unat_eq_iff unat_PGROUNDDOWN_pgno)
  with f assms(4) show ?thesis by (simp add: uaddr_def)
qed

text \<open>Memory that agrees on the pages of the table has the same table.\<close>

definition pt_agree :: "(u64 \<Rightarrow> byte) \<Rightarrow> (u64 \<Rightarrow> byte) \<Rightarrow> u64 \<Rightarrow> bool" where
  "pt_agree m m' root = (\<forall>b. pgno b \<in> pgno ` pt_pages m root \<longrightarrow> m' b = m b)"

lemma pt_agreeD: "pt_agree m m' root \<Longrightarrow> pt_path qs \<Longrightarrow> pt_node m root qs = Some q \<Longrightarrow> pgno b = pgno q \<Longrightarrow> m' b = m b"
  by (auto simp: pt_agree_def pt_pages_def)

lemma pt_agree_node:
  assumes ok: "pt_ok s root xs" and ag: "pt_agree (mem s) m' root" and q: "pt_path qs"
  shows "pt_node m' root qs = pt_node (mem s) root qs"
  using q
proof (induction qs rule: rev_induct)
  case (snoc j qs)
  have j: "pt_path qs" "j < 512" using pt_path_snoc[OF snoc.prems] by auto
  show ?case
  proof (cases "pt_node (mem s) root qs")
    case (Some q)
    have "pt_child m' q j = pt_child (mem s) q j"
      by (rule pt_child_cong[OF pt_okD(2)[OF ok j(1) Some] j(2) pt_agreeD[OF ag j(1) Some]])
    then show ?thesis using Some snoc.IH[OF j(1)] by simp
  qed (use snoc.IH[OF j(1)] in simp)
qed simp

lemma pt_agree_same:
  assumes ok: "pt_ok s root xs" and ag: "pt_agree (mem s) m' root"
  shows "pt_ok (s\<lparr>mem := m'\<rparr>) root xs" "uframe m' root va = uframe (mem s) root va" "uaddr m' root va = uaddr (mem s) root va"
    "pt_pages m' root = pt_pages (mem s) root"
proof -
  note node = pt_agree_node[OF ok ag]
  show "pt_ok (s\<lparr>mem := m'\<rparr>) root xs" by (rule pt_ok_cong[OF ok]) (simp_all add: node)
  show "pt_pages m' root = pt_pages (mem s) root" using node by (auto simp: pt_pages_def)
  have "pt_abs m' root n = pt_abs (mem s) root n" if "n < 67108864" for n
  proof (cases "pt_node (mem s) root (pt_upper n)")
    case (Some q)
    note path = pt_upper_path(1)[OF that]
    have "pt_entry m' q (n mod 512) = pt_entry (mem s) q (n mod 512)"
      by (rule pt_entry_cong[OF pt_okD(2)[OF ok path Some] _ pt_agreeD[OF ag path Some]]) simp
    then show ?thesis using Some node[OF pt_upper_path(1)[OF that]] by (simp add: pt_abs_def pt_leaf_def)
  qed (simp add: pt_abs_def pt_leaf_def node[OF pt_upper_path(1)[OF that]])
  then show "uframe m' root va = uframe (mem s) root va" by (simp add: uframe_def MAXVA_pgno)
  then show "uaddr m' root va = uaddr (mem s) root va" by (simp add: uaddr_def)
qed

lemma pt_agree_trans: "pt_ok s root xs \<Longrightarrow> pt_agree (mem s) m1 root \<Longrightarrow> pt_agree m1 m2 root \<Longrightarrow> pt_agree (mem s) m2 root"
  using pt_agree_same(4)[of s root xs m1] by (simp add: pt_agree_def)

text \<open>Writing \<open>n\<close> bytes at a user address, translated by the table in the memory \<open>m\<close>.\<close>

definition uwrite :: "(u64 \<Rightarrow> byte) \<Rightarrow> u64 \<Rightarrow> u64 \<Rightarrow> (nat \<Rightarrow> byte) \<Rightarrow> nat \<Rightarrow> (u64 \<Rightarrow> byte)" where
  "uwrite m root va src n = fold (\<lambda>i m'. m'(uaddr m root (va + of_nat i) := src i)) [0..<n] m"

lemma uwrite_0 [simp]: "uwrite m root va src 0 = m"
  by (simp add: uwrite_def)

lemma uwrite_Suc: "uwrite m root va src (Suc n) = (uwrite m root va src n)(uaddr m root (va + of_nat n) := src n)"
  by (simp add: uwrite_def)

lemma uwrite_other: "(\<And>i. i < n \<Longrightarrow> b \<noteq> uaddr m root (va + of_nat i)) \<Longrightarrow> uwrite m root va src n b = m b"
  by (induction n) (auto simp: uwrite_Suc)

lemma uwrite_add:
  assumes "\<And>a. uaddr (uwrite m root va src n) root a = uaddr m root a"
  shows "uwrite (uwrite m root va src n) root (va + of_nat n) (\<lambda>i. src (n + i)) l = uwrite m root va src (n + l)"
  by (induction l) (simp_all add: uwrite_Suc assms add.assoc)

lemma uwrite_chunk:
  assumes "0 < len" "va < MAXVA" "n = unat (chunk va len)"
  shows "mem_write m (uframe m root va + (va - PGROUNDDOWN va)) src n = uwrite m root va src n"
  unfolding mem_write_def uwrite_def
  by (rule fold_cong) (use uaddr_chunk(1)[OF assms(1,2)] assms(3) in simp_all)

lemma uwrite_at:
  assumes "user_ok m root" "umapped m root va n" "n \<le> 2 ^ 64" "i < n"
  shows "uwrite m root va src n (uaddr m root (va + of_nat i)) = src i"
  using assms
proof (induction n)
  case (Suc n)
  show ?case
  proof (cases "i = n")
    case False
    then have i: "i < n" using Suc.prems(4) by simp
    have "(of_nat i :: u64) \<noteq> of_nat n"
    proof
      assume "(of_nat i :: u64) = of_nat n"
      then have "unat (of_nat i :: u64) = unat (of_nat n :: u64)" by simp
      then show False using i Suc.prems(3) by (simp add: unat_of_nat)
    qed
    then have "uaddr m root (va + of_nat i) \<noteq> uaddr m root (va + of_nat n)"
      using uaddr_inj[OF Suc.prems(1), of "va + of_nat i" "va + of_nat n"] Suc.prems(2,4) by (auto simp: umapped_def)
    then show ?thesis using Suc.IH Suc.prems i by (simp add: uwrite_Suc umapped_def)
  qed (simp add: uwrite_Suc)
qed simp

lemma uwrite_agree:
  assumes ok: "pt_ok s root xs" and u: "user_ok (mem s) root" "umapped (mem s) root va n"
  shows "pt_agree (mem s) (uwrite (mem s) root va src n) root"
  unfolding pt_agree_def
proof (intro allI impI, rule uwrite_other)
  fix b i assume b: "pgno b \<in> pgno ` pt_pages (mem s) root" and i: "i < n"
  let ?f = "uframe (mem s) root (va + of_nat i)"
  obtain q qs where q: "pgno b = pgno q" "pt_path qs" "pt_node (mem s) root qs = Some q" using b by (auto simp: pt_pages_def)
  have "?f \<noteq> 0" using u(2) i by (simp add: umapped_def)
  then have "?f \<notin> pt_pages (mem s) root" using u(1) unfolding user_ok_def by blast
  then have "?f \<noteq> q" using q(2,3) by (auto simp: pt_pages_def)
  then have "pgno q \<noteq> pgno ?f" using pgalign_eqI[OF pt_okD(2)[OF ok q(2,3)] pgalign_uframe] by auto
  then show "b \<noteq> uaddr (mem s) root (va + of_nat i)" using q(1) pgno_uaddr by metis
qed

lemma user_ok_agree: "pt_ok s root xs \<Longrightarrow> pt_agree (mem s) m' root \<Longrightarrow> user_ok m' root = user_ok (mem s) root"
  by (simp add: user_ok_def pt_agree_same)

lemma umapped_agree: "pt_ok s root xs \<Longrightarrow> pt_agree (mem s) m' root \<Longrightarrow> umapped m' root va n = umapped (mem s) root va n"
  by (simp add: umapped_def pt_agree_same)

definition copyout_post :: "(u64 \<Rightarrow> byte) \<Rightarrow> u64 \<Rightarrow> u64 \<Rightarrow> (nat \<Rightarrow> byte) \<Rightarrow> nat \<Rightarrow> (u64 \<Rightarrow> byte) \<Rightarrow> bool" where
  "copyout_post m root va src n m' = ((umapped m root va n \<longrightarrow> m' = uwrite m root va src n) \<and> pt_agree m m' root \<and>
     (\<forall>b. (\<forall>i<n. b \<noteq> uaddr m root (va + of_nat i)) \<longrightarrow> m' b = m b))"

lemma copyout_post_add:
  assumes ok: "pt_ok s root xs" and u: "user_ok (mem s) root" "umapped (mem s) root va n"
    and post: "copyout_post (uwrite (mem s) root va src n) root (va + of_nat n) (\<lambda>i. src (n + i)) l m'"
  shows "copyout_post (mem s) root va src (n + l) m'"
proof -
  let ?m = "uwrite (mem s) root va src n"
  note ag = uwrite_agree[OF ok u]
  note S = pt_agree_same[OF ok ag]
  have um: "umapped (mem s) root va (n + l) = umapped ?m root (va + of_nat n) l"
    using umapped_add[of "mem s" root va n l] u(2) umapped_agree[OF ok ag] by simp
  have "m' b = mem s b" if b: "\<forall>i<n + l. b \<noteq> uaddr (mem s) root (va + of_nat i)" for b
  proof -
    have "b \<noteq> uaddr ?m root (va + of_nat n + of_nat i)" if "i < l" for i
      using b[rule_format, of "n + i"] that S(3) by (simp add: add.assoc)
    then have "m' b = ?m b" using post by (simp add: copyout_post_def)
    also have "\<dots> = mem s b" using b by (intro uwrite_other) simp
    finally show ?thesis .
  qed
  moreover have "pt_agree (mem s) m' root" using post unfolding copyout_post_def by (intro pt_agree_trans[OF ok ag]) blast
  ultimately show ?thesis using um post uwrite_add[of "mem s" root va src n l, OF S(3)] by (simp add: copyout_post_def)
qed

lemma copyout_loop:
  assumes "pt_ok s root xs" "user_ok (mem s) root" "unat len < fuel"
  shows "\<exists>m'. loopf fuel (copyout_one root src) (va, k, len) s = Ok (if umapped (mem s) root va (unat len) then 0 else - 1) (s\<lparr>mem := m'\<rparr>) \<and>
    copyout_post (mem s) root va (\<lambda>i. src (k + i)) (unat len) m'"
  using assms
proof (induction "unat len" arbitrary: len va k s fuel rule: less_induct)
  case less
  note ok = less.prems(1)
  obtain f where f: "fuel = Suc f" using less.prems(3) by (cases fuel) auto
  have same: "copyout_post (mem s) root va (\<lambda>i. src (k + i)) n (mem s)" if "n = 0 \<or> \<not> umapped (mem s) root va n" for n
    using that by (auto simp: copyout_post_def pt_agree_def)
  show ?case
  proof (cases "unat len = 0")
    case True
    then have "len = 0" by (simp add: word_unat_eq_iff)
    then show ?thesis using same[of 0] by (intro exI[of _ "mem s"]) (simp add: f copyout_one_def kmon umapped_def)
  next
    case False
    then have pos: "0 < unat len" by simp
    then have l0: "len \<noteq> 0" "0 < len" by (auto simp: word_less_nat_alt)
    note W = walkaddr_eq[OF ok, of "PGROUNDDOWN va"]
    from pos show ?thesis
    proof (cases rule: copy_cases[where m="mem s" and root=root and va=va])
      case fault
      have "copyout_one root src (va, k, len) s = Ok (Inr (- 1)) s" using W fault(1) l0(1) by (simp add: copyout_one_def kmon Let_def)
      then have "loopf fuel (copyout_one root src) (va, k, len) s = Ok (- 1) s" unfolding f by (rule loopf_exit)
      then show ?thesis using fault(2) same[of "unat len"] by (intro exI[of _ "mem s"]) simp
    next
      case (chunk n)
      let ?va = "PGROUNDDOWN va + PGSIZE" and ?l = "len - chunk va len" and ?src = "\<lambda>i. src (k + i)"
      let ?m = "uwrite (mem s) root va ?src n"
      note ag = uwrite_agree[OF ok less.prems(2) chunk(8)]
      have one: "copyout_one root src (va, k, len) s = Ok (Inl (?va, k + n, ?l)) (s\<lparr>mem := ?m\<rparr>)"
        using W chunk(1,6,7) l0(1) uwrite_chunk[OF l0(2) chunk(5,1)] by (simp add: copyout_one_def kmon Let_def)
      have sm: "unat ?l < unat len" "unat ?l < f" using chunk(2-4) less.prems(3) f by auto
      have "user_ok (mem (s\<lparr>mem := ?m\<rparr>)) root" using user_ok_agree[OF ok ag] less.prems(2) by simp
      from less.hyps[OF sm(1) pt_agree_same(1)[OF ok ag] this sm(2), of ?va "k + n"] obtain m'
        where IH: "loopf f (copyout_one root src) (?va, k + n, ?l) (s\<lparr>mem := ?m\<rparr>) = Ok (if umapped ?m root ?va (unat ?l) then 0 else - 1) (s\<lparr>mem := m'\<rparr>)"
          "copyout_post ?m root ?va (\<lambda>i. ?src (n + i)) (unat ?l) m'" by (auto simp: add.assoc)
      have "umapped ?m root ?va (unat ?l) = umapped (mem s) root va (unat len) \<and> copyout_post (mem s) root va ?src (unat len) m'"
      proof (cases "n = unat len")
        case True
        then have "unat ?l = 0" using chunk(4) by simp
        then have "copyout_post (mem s) root va ?src (n + 0) m'"
          using IH(2) by (intro copyout_post_add[OF ok less.prems(2) chunk(8)]) (simp add: copyout_post_def umapped_def pt_agree_def)
        then show ?thesis using True chunk(8) \<open>unat ?l = 0\<close> by (simp add: umapped_def)
      next
        case False
        then have e: "?va = va + of_nat n" "n + unat ?l = unat len" using chunk(3,4,9) by simp_all
        then show ?thesis using umapped_add[of "mem s" root va n "unat ?l"] chunk(8) umapped_agree[OF ok ag]
          copyout_post_add[OF ok less.prems(2) chunk(8) IH(2)[unfolded e(1)]] by simp
      qed
      then show ?thesis using IH(1) unfolding f loopf_next[of "copyout_one root src", OF one] by (intro exI[of _ m']) simp
    qed
  qed
qed

section \<open>One byte to or from user memory\<close>

lemma pt_ok_frame [simp]: "pt_ok (acq lk s) = pt_ok s" "pt_ok (pipes_update f s) = pt_ok s" "pt_ok (sync s) = pt_ok s" "pt_ok (procs_update g s) = pt_ok s"
  by (simp_all add: fun_eq_iff pt_ok_def ram_page_def)

lemma umapped_1: "umapped m root va (Suc 0) = (uframe m root va \<noteq> 0)"
  by (simp add: umapped_def)

lemma copyin_byte:
  assumes "pt_ok s root xs" "uframe (mem s) root va \<noteq> 0"
  shows "copyin root dst va 1 s = Ok (0, dst(0 := mem s (uaddr (mem s) root va))) s"
  using copyin_loop[OF assms(1), of 1 "unat (1::u64) + 1" va 0 dst] assms(2)
  by (simp add: copyin_def umapped_1 copied_all fun_upd_def cong: if_cong)

lemma copyout_byte:
  assumes "pt_ok s root xs" "user_ok (mem s) root" "uframe (mem s) root va \<noteq> 0"
  shows "copyout root va src 1 s = Ok 0 (s\<lparr>mem := (mem s)(uaddr (mem s) root va := src 0)\<rparr>)"
  using copyout_loop[OF assms(1,2), of 1 "unat (1::u64) + 1" src va 0] assms(3)
  by (auto simp: copyout_def umapped_1 copyout_post_def uwrite_def)

section \<open>Theorems\<close>

text \<open>A table whose root page is zero maps nothing.\<close>

lemma pt_fresh:
  assumes "ram_page s root" "root \<noteq> 0" "root \<notin> set xs" "\<And>i. i < 512 \<Longrightarrow> pt_entry (mem s) root i = 0"
  shows "pt_ok s root xs" "n < 67108864 \<Longrightarrow> pt_abs (mem s) root n = 0" "pt_pages (mem s) root = {root}"
proof -
  have c: "pt_child (mem s) root i = None" if "i < 512" for i using assms(4)[OF that] by (simp add: pt_child_def)
  have node: "is = [] \<and> p = root" if "pt_path is" "pt_node (mem s) root is = Some p" for "is" p
    using that
  proof (induction "is" arbitrary: p rule: rev_induct)
    case (snoc j qs)
    then obtain q where "pt_node (mem s) root qs = Some q" "pt_child (mem s) q j = Some p" by (auto simp: bind_eq_Some_conv)
    then show ?case using snoc.IH[of q] pt_path_snoc[OF snoc.prems(1)] c[of j] by auto
  qed auto
  show "pt_ok s root xs" by (rule pt_okI) (use node assms(1-3) in blast)+
  show "pt_pages (mem s) root = {root}" using node pt_path_upper(1) by (fastforce simp: pt_pages_def)
  show "pt_abs (mem s) root n = 0" if "n < 67108864"
  proof (cases "pt_node (mem s) root (pt_upper n)")
    case (Some q)
    then show ?thesis using node[OF pt_upper_path(1)[OF that] Some] by (simp add: pt_upper_def)
  qed (simp add: pt_abs_def pt_leaf_def)
qed

text \<open>A state with a zeroed root page and two free pages.\<close>

definition demo_vm :: kstate where
  "demo_vm = (boot_state 0x80020000 0 0 (\<lambda>_ _. 0))\<lparr>mem := put64 (\<lambda>_. 0) 0x80031000 0x80032000, freelist := 0x80031000\<rparr>"

lemma demo_vm:
  "kmem_pool demo_vm [0x80031000, 0x80032000]" "pt_ok demo_vm 0x80030000 [0x80031000, 0x80032000]"
  "n < 67108864 \<Longrightarrow> pt_abs (mem demo_vm) 0x80030000 n = 0" "pt_pages (mem demo_vm) 0x80030000 = {0x80030000}"
proof -
  have m: "mem demo_vm = put64 (\<lambda>_. 0) 0x80031000 0x80032000" "freelist demo_vm = 0x80031000" "kend demo_vm = 0x80020000"
    by (simp_all add: demo_vm_def) (simp add: boot_state_def)
  have pg: "ram_page demo_vm 0x80030000" "ram_page demo_vm 0x80031000" "ram_page demo_vm 0x80032000"
    by (simp_all add: ram_page_def m(3) pgalign_def layout)
  have e: "pt_entry (mem demo_vm) 0x80030000 i = 0" if "i < 512" for i
    using that pt_entry_put_other[of "0x80031000" "0x80030000" 0 i "\<lambda>_. 0" "0x80032000"]
    by (simp add: m(1) pgalign_def layout) (simp add: pt_entry_def le64_def le32_def)
  have "le64 (mem demo_vm) 0x80032000 = 0" unfolding m(1) by (simp add: le64_def le32_def put64_def put32_def)
  then have "kmem_list demo_vm [0x80031000, 0x80032000]" using pg by (simp add: kmem_list_def m(1-3))
  moreover have "freelk KmemLock demo_vm" "cpu_ok demo_vm" by (simp_all add: demo_vm_def)
  ultimately show "kmem_pool demo_vm [0x80031000, 0x80032000]" by (simp add: kmem_pool_def)
  show "pt_ok demo_vm 0x80030000 [0x80031000, 0x80032000]" "pt_pages (mem demo_vm) 0x80030000 = {0x80030000}"
      "n < 67108864 \<Longrightarrow> pt_abs (mem demo_vm) 0x80030000 n = 0"
    using pt_fresh[OF pg(1) _ _ e, of "[0x80031000, 0x80032000]"] by simp_all
qed

text \<open>
  C2: mapping a range of addresses changes the map of a page table at exactly the pages of the range: if none of them is mapped before,
  \<open>mappages\<close> returns 0 with page \<open>i\<close> of the range mapped to the \<open>i\<close>-th physical page with the permissions asked for, or it returns -1
  because the free pages ran out, with an initial part of the range mapped; it takes at most two table pages per page, and changes no byte outside
  the table and the free pages.
\<close>

theorem mappages_updates_map:
  assumes pool: "kmem_pool s xs" "pt_ok s root xs" and range: "0 < unat sz" "unat va + unat sz \<le> 2 ^ 38"
    and free: "\<forall>n. pgno va \<le> n \<and> n \<le> pgno (va + sz - 1) \<longrightarrow> pt_abs (mem s) root n AND PTE_V = 0"
  shows "\<exists>r t ys k. mappages root va sz pa perm s = Ok r t \<and> pt_step root s xs t ys \<and> mapped (mem s) (mem t) root (pgno va) k pa perm \<and>
    (r = 0 \<and> k = pgno (va + sz - 1) - pgno va + 1 \<or> r = - 1 \<and> k \<le> pgno (va + sz - 1) - pgno va \<and> ys = [] \<and> length xs \<le> 2 * k + 1)"
proof -
  let ?l = "va + sz - 1" and ?a = "PGROUNDDOWN va"
  have "unat (va + sz) = unat va + unat sz" using range by (simp add: unat_word_ariths)
  then have l: "unat ?l = unat va + unat sz - 1" using range by (simp add: unat_sub word_le_nat_alt)
  have le: "pgno va \<le> pgno ?l" using range l by (simp add: pgno_def div_le_mono)
  have "unat ?l div 4096 < 2 ^ 38 div 4096" using range unfolding l by (simp add: div_less_iff_less_mult)
  then have top: "pgno ?l < 67108864" by (simp add: pgno_def)
  define k where "k = pgno ?l - pgno va"
  have fr: "\<forall>n. pgno ?a \<le> n \<and> n < pgno ?a + Suc k \<longrightarrow> pt_abs (mem s) root n AND PTE_V = 0" using free le by (auto simp: k_def)
  have fuel: "pgno ?a + Suc k \<le> 67108864" "k < page_rounds" using top le by (auto simp: k_def page_rounds_def)
  have "mappages root va sz pa perm s = loopf page_rounds (map_one root (PGROUNDDOWN ?l) perm) (?a, pa) s"
    using range(1) by (simp add: mappages_def kmon unat_gt_0)
  then show ?thesis
    using map_loop[OF pool pgalign_PGROUNDDOWN fuel(1,2) PGROUNDDOWN_later[OF le, folded k_def] fr, of perm pa]
    by (auto simp: k_def less_Suc_eq_le)
qed

theorem mappages_updates_map_witness:
  "\<exists>t. mappages 0x80030000 0 4096 0x80040000 (PTE_R OR PTE_U) demo_vm = Ok 0 t \<and>
     pt_abs (mem t) 0x80030000 0 = PA2PTE 0x80040000 OR (PTE_R OR PTE_U) OR PTE_V"
proof -
  have "pgno 0 = 0" "pgno (0 + 4096 - 1) = 0" by (simp_all add: pgno_def)
  then show ?thesis
    using mappages_updates_map[OF demo_vm(1,2), of 4096 0 "0x80040000" "PTE_R OR PTE_U"] by (auto simp: demo_vm(3) mapped_def)
qed

text \<open>
  C31: \<open>copyin\<close> reads user memory through the page table and nothing else: it returns 0 exactly if every byte of the range lies below
  \<open>MAXVA\<close> on a page that is valid and marked for the user, and then the buffer holds the bytes at the physical addresses behind the range;
  otherwise it returns -1. It always returns, for any address and length, wrap-around included, and changes no state.
\<close>

theorem copyin_reads_user_memory:
  assumes "pt_ok s root xs"
  shows "\<exists>d. copyin root dst va len s =
    Ok (if umapped (mem s) root va (unat len)
        then (0, \<lambda>j. if j < unat len then mem s (uaddr (mem s) root (va + of_nat j)) else dst j)
        else (- 1, d)) s"
  unfolding copyin_def copied_all[symmetric] by (rule copyin_loop[OF assms]) simp

theorem copyin_reads_user_memory_witness: "\<exists>d. copyin 0x80030000 (\<lambda>_. 0) 0 8 demo_vm = Ok (- 1, d) demo_vm"
proof -
  have "\<not> umapped (mem demo_vm) 0x80030000 0 (unat (8 :: u64))"
    unfolding umapped_def by (rule notI, drule spec[of _ 0]) (simp add: uframe_def Let_def MAXVA_pgno demo_vm(3) split: if_splits)
  then show ?thesis using copyin_reads_user_memory[OF demo_vm(2), of "\<lambda>_. 0" 0 8] by simp
qed

text \<open>
  C9: what \<open>copyout\<close> writes to a user range, \<open>copyin\<close> reads back, if the user's pages are distinct and not pages of the table: both return 0 if
  the range is mapped for the user, and both return -1 otherwise. In either case no byte outside the physical bytes of the range changes,
  so that the page table stays as it was.
\<close>

theorem copyout_copyin_roundtrip:
  assumes ok: "pt_ok s root xs" and user: "user_ok (mem s) root"
  shows "\<exists>t d. copyout root va src len s = Ok (if umapped (mem s) root va (unat len) then 0 else - 1) t \<and>
    copyin root dst va len t = Ok (if umapped (mem s) root va (unat len) then (0, \<lambda>j. if j < unat len then src j else dst j) else (- 1, d)) t \<and>
    pt_ok t root xs \<and> user_ok (mem t) root \<and>
    (\<forall>b. (\<forall>i<unat len. b \<noteq> uaddr (mem s) root (va + of_nat i)) \<longrightarrow> mem t b = mem s b)"
proof -
  obtain m' where out: "copyout root va src len s = Ok (if umapped (mem s) root va (unat len) then 0 else - 1) (s\<lparr>mem := m'\<rparr>)"
      and post: "copyout_post (mem s) root va src (unat len) m'"
    using copyout_loop[OF ok user, of len "unat len + 1" src va 0] by (auto simp: copyout_def)
  let ?t = "s\<lparr>mem := m'\<rparr>"
  have ag: "pt_agree (mem s) m' root" using post by (simp add: copyout_post_def)
  note S = pt_agree_same[OF ok ag]
  obtain d where inn: "copyin root dst va len ?t = Ok (if umapped (mem ?t) root va (unat len) then (0, copied (mem ?t) root va 0 (unat len) dst) else (- 1, d)) ?t"
    using copyin_loop[OF S(1), of len "unat len + 1" va 0 dst] by (auto simp: copyin_def)
  have "copied m' root va 0 (unat len) dst = (\<lambda>j. if j < unat len then src j else dst j)" if u: "umapped (mem s) root va (unat len)"
    using uwrite_at[OF user u, of _ src] post u u64_max[of len] by (auto simp: copied_all S(3) copyout_post_def fun_eq_iff)
  then have "copyin root dst va len ?t =
      Ok (if umapped (mem s) root va (unat len) then (0, \<lambda>j. if j < unat len then src j else dst j) else (- 1, d)) ?t"
    using inn umapped_agree[OF ok ag] by simp
  then show ?thesis using out S(1) user_ok_agree[OF ok ag] user post by (auto simp: copyout_post_def)
qed

lemma demo_user:
  "\<exists>m ys. (\<forall>s. mem s = m \<longrightarrow> kend s = 0x80020000 \<longrightarrow> pt_ok s 0x80030000 ys) \<and> user_ok m 0x80030000 \<and> umapped m 0x80030000 16 5"
proof -
  let ?root = "0x80030000" and ?pa = "0x80040000 :: u64" and ?perm = "PTE_R OR PTE_U"
  have "pgno 0 = 0" by (simp add: pgno_def)
  then obtain t ys where step: "pt_step ?root demo_vm [0x80031000, 0x80032000] t ys" and m: "mapped (mem demo_vm) (mem t) ?root 0 1 ?pa ?perm"
    using map_one_ok[OF demo_vm(1,2), of 0 0 ?perm ?pa] demo_vm(3)[of 0] by (auto simp: MAXVA_def)
  have f: "uframe (mem t) ?root a = (if pgno a = 0 then ?pa else 0)" for a
  proof -
    have "uframe (mem t) ?root a = (if pgno a < 67108864 \<and> pgno a = 0 then ?pa else 0)"
      using m demo_vm(3) unfolding mapped_def uframe_def MAXVA_pgno Let_def by (auto simp: pte_bit_defs pte_defs)
    then show ?thesis by simp
  qed
  have "pt_pages (mem t) ?root \<subseteq> {0x80030000, 0x80031000, 0x80032000}" using step demo_vm(4) by (auto simp: pt_step_def)
  then have "user_ok (mem t) ?root" by (auto simp: user_ok_def f)
  moreover have "umapped (mem t) ?root 16 5"
  proof -
    have "pgno (16 + of_nat i) = 0" if "i < 5" for i using that u64_offset[of 16 5 i] by (simp add: pgno_def)
    then show ?thesis by (simp add: umapped_def f)
  qed
  moreover have "pt_ok s ?root ys" if "mem s = mem t" "kend s = 0x80020000" for s
  proof -
    have "kend t = kend demo_vm" by (rule mem_frame_select[OF pt_stepD(4)[OF step]]) simp_all
    then have "ram_page s = ram_page t" using that(2) by (simp add: fun_eq_iff ram_page_def demo_vm_def boot_state_def)
    then show ?thesis using pt_stepD(2)[OF step] that(1) by (simp add: pt_ok_def)
  qed
  ultimately show ?thesis by blast
qed

theorem copyout_copyin_roundtrip_witness:
  "\<exists>s t. copyout 0x80030000 16 (\<lambda>i. of_nat i) 5 s = Ok 0 t \<and>
     copyin 0x80030000 (\<lambda>_. 0) 16 5 t = Ok (0, \<lambda>j. if j < 5 then of_nat j else 0) t"
proof -
  obtain m ys where m: "\<And>s. mem s = m \<Longrightarrow> kend s = 0x80020000 \<Longrightarrow> pt_ok s 0x80030000 ys" "user_ok m 0x80030000" "umapped m 0x80030000 16 5"
    using demo_user by blast
  let ?s = "demo_vm\<lparr>mem := m\<rparr>"
  have s: "pt_ok ?s 0x80030000 ys" "user_ok (mem ?s) 0x80030000" "umapped (mem ?s) 0x80030000 16 5"
    using m by (simp_all add: demo_vm_def boot_state_def)
  show ?thesis using copyout_copyin_roundtrip[OF s(1,2), of 16 "\<lambda>i. of_nat i" 5 "\<lambda>_. 0"] s(3) by auto
qed

end
