(* ===== verification/Procmem.thy ===== *)
theory Procmem
  imports Vm
begin

text \<open>
  The part of \<^verbatim>\<open>proc.c\<close> that manages the memory of processes: allocating and freeing process table entries and their page
  tables, growing and shrinking, and copying to and from the current process.
\<close>

section \<open>The trap frame\<close>

text \<open>Byte offsets of the fields of \<open>struct trapframe\<close>; the frame of a process is in the physical page \<open>p_trapframe\<close>.\<close>

definition tf_kernel_satp :: u64 where "tf_kernel_satp = 0"
definition tf_kernel_sp :: u64 where "tf_kernel_sp = 8"
definition tf_kernel_trap :: u64 where "tf_kernel_trap = 16"
definition tf_epc :: u64 where "tf_epc = 24"
definition tf_kernel_hartid :: u64 where "tf_kernel_hartid = 32"
definition tf_sp :: u64 where "tf_sp = 48"
definition tf_a :: "nat \<Rightarrow> u64" where "tf_a n = 112 + 8 * of_nat n"
definition tf_size :: nat where "tf_size = 288"

section \<open>Page tables of processes\<close>

definition proc_pagetable :: "nat \<Rightarrow> u64 kernel" where
  "proc_pagetable p =
     bnd uvmcreate (\<lambda>pagetable.
     if pagetable = 0 then ret 0 else
     bnd (gets ktrampoline) (\<lambda>trampoline.
     bnd (mappages pagetable TRAMPOLINE PGSIZE trampoline (PTE_R OR PTE_X)) (\<lambda>r.
     if r < 0 then thn (uvmfree pagetable 0) (ret 0) else
     bnd (getp p) (\<lambda>q.
     bnd (mappages pagetable TRAPFRAME PGSIZE (p_trapframe q) (PTE_R OR PTE_W)) (\<lambda>r.
     if r < 0 then thn (uvmunmap pagetable TRAMPOLINE 1 False) (thn (uvmfree pagetable 0) (ret 0)) else
     ret pagetable)))))"

definition proc_freepagetable :: "u64 \<Rightarrow> u64 \<Rightarrow> unit kernel" where
  "proc_freepagetable pagetable sz =
     thn (uvmunmap pagetable TRAMPOLINE 1 False) (
     thn (uvmunmap pagetable TRAPFRAME 1 False)
     (uvmfree pagetable sz))"

section \<open>Process table entries\<close>

definition freeproc :: "nat \<Rightarrow> unit kernel" where
  "freeproc p =
     bnd (getp p) (\<lambda>q.
     thn (whenM (p_trapframe q \<noteq> 0) (kfree (p_trapframe q))) (
     thn (setp p (\<lambda>q. q\<lparr>p_trapframe := 0\<rparr>)) (
     thn (whenM (p_pagetable q \<noteq> 0) (proc_freepagetable (p_pagetable q) (p_sz q)))
     (setp p (\<lambda>q. q\<lparr>p_pagetable := 0, p_sz := 0, p_pid := 0, p_parent := None, p_name := (p_name q)(0 := 0),
        p_chan := NullChan, p_killed := False, p_xstate := 0, p_state := UNUSED\<rparr>)))))"

text \<open>The search of \<open>allocproc\<close>; it leaves the entry's lock held.\<close>

definition alloc_slot :: "nat \<Rightarrow> nat option kernel" where
  "alloc_slot p =
     thn (acquire (ProcLock p)) (
     bnd (getp p) (\<lambda>q.
     if p_state q = UNUSED then ret (Some p) else thn (release (ProcLock p)) (ret None)))"

definition allocproc :: "nat option kernel" where
  "allocproc =
     bnd (forl [0..<NPROC] alloc_slot) (\<lambda>r. case r of None \<Rightarrow> ret None | Some p \<Rightarrow>
     bnd allocpid (\<lambda>pid.
     thn (setp p (\<lambda>q. q\<lparr>p_pid := pid, p_state := USED\<rparr>)) (
     bnd kalloc (\<lambda>tf.
     thn (setp p (\<lambda>q. q\<lparr>p_trapframe := tf\<rparr>)) (
     if tf = 0 then thn (freeproc p) (thn (release (ProcLock p)) (ret None)) else
     bnd (proc_pagetable p) (\<lambda>pt.
     thn (setp p (\<lambda>q. q\<lparr>p_pagetable := pt\<rparr>)) (
     if pt = 0 then thn (freeproc p) (thn (release (ProcLock p)) (ret None)) else
     bnd (gets ksym) (\<lambda>sym.
     thn (setp p (\<lambda>q. q\<lparr>p_context := \<lparr>ctx_ra = sym ''forkret'', ctx_sp = p_kstack q + PGSIZE, ctx_s = (\<lambda>_. 0)\<rparr>\<rparr>))
     (ret (Some p))))))))))"

section \<open>Growing and shrinking\<close>

text \<open>\<open>sz\<close> is a \<open>uint\<close>, and \<open>sz + n\<close> is computed at that width.\<close>

definition growproc :: "u32 \<Rightarrow> int kernel" where
  "growproc n =
     bnd myproc (\<lambda>me. bnd (deref me) (\<lambda>p.
     bnd (getp p) (\<lambda>q.
     let sz = (ucast (p_sz q) :: u32) in
     if 0 < sint n then
       bnd (uvmalloc (p_pagetable q) (ucast sz) (ucast (sz + n))) (\<lambda>r.
       if (ucast r :: u32) = 0 then ret (- 1)
       else thn (setp p (\<lambda>q. q\<lparr>p_sz := ucast (ucast r :: u32)\<rparr>)) (ret 0))
     else if sint n < 0 then
       bnd (uvmdealloc (p_pagetable q) (ucast sz) (ucast (sz + n))) (\<lambda>r.
       thn (setp p (\<lambda>q. q\<lparr>p_sz := ucast (ucast r :: u32)\<rparr>)) (ret 0))
     else thn (setp p (\<lambda>q. q\<lparr>p_sz := ucast sz\<rparr>)) (ret 0))))"

section \<open>Copying to and from the current process\<close>

text \<open>
  A destination is a user address, a physical address or a buffer of the kernel; \<open>pos\<close> is how far the caller has advanced in it.
  A kernel buffer is passed in and returned. A source is a user address or a kernel buffer.
\<close>

datatype kdst = UserDst u64 | MemDst u64 | BufDst

datatype ksrc = UserSrc u64 | BufSrc "nat \<Rightarrow> byte"

definition splice :: "(nat \<Rightarrow> byte) \<Rightarrow> nat \<Rightarrow> nat \<Rightarrow> (nat \<Rightarrow> byte) \<Rightarrow> (nat \<Rightarrow> byte)" where
  "splice d k n src = (\<lambda>j. if k \<le> j \<and> j < k + n then src (j - k) else d j)"

definition either_copyout :: "kdst \<Rightarrow> u64 \<Rightarrow> (nat \<Rightarrow> byte) \<Rightarrow> (nat \<Rightarrow> byte) \<Rightarrow> u64 \<Rightarrow> (int \<times> (nat \<Rightarrow> byte)) kernel" where
  "either_copyout dst pos buf src len =
     bnd myproc (\<lambda>me.
     case dst of
       UserDst a \<Rightarrow> bnd (deref me) (\<lambda>p. bnd (getp p) (\<lambda>q.
         bnd (copyout (p_pagetable q) (a + pos) src len) (\<lambda>r. ret (r, buf))))
     | MemDst a \<Rightarrow> thn (modify (\<lambda>s. s\<lparr>mem := mem_write (mem s) (a + pos) src (unat len)\<rparr>)) (ret (0, buf))
     | BufDst \<Rightarrow> ret (0, splice buf (unat pos) (unat len) src))"

definition either_copyin :: "(nat \<Rightarrow> byte) \<Rightarrow> ksrc \<Rightarrow> u64 \<Rightarrow> u64 \<Rightarrow> (int \<times> (nat \<Rightarrow> byte)) kernel" where
  "either_copyin dst src pos len =
     bnd myproc (\<lambda>me.
     case src of
       UserSrc a \<Rightarrow> bnd (deref me) (\<lambda>p. bnd (getp p) (\<lambda>q. copyin (p_pagetable q) dst (a + pos) len))
     | BufSrc b \<Rightarrow> ret (0, splice dst 0 (unat len) (\<lambda>i. b (unat pos + i))))"

end
