(* ===== verification/Console.thy ===== *)
theory Console
  imports Procmem
begin

text \<open>
  The UART driver (\<^verbatim>\<open>uart.c\<close>), formatted output (\<^verbatim>\<open>printf.c\<close>), the process listing of \<^verbatim>\<open>proc.c\<close> and the console device
  (\<^verbatim>\<open>console.c\<close>). What the UART received and has sent are the fields \<open>uart_in\<close> and \<open>uart_out\<close> of the state; its line status
  register says "input ready" while \<open>uart_in\<close> is not empty and "transmitter idle" while \<open>uart_room\<close> is not 0. Characters are bytes.
\<close>

section \<open>The UART\<close>

definition RHR :: u64 where "RHR = 0"
definition THR :: u64 where "THR = 0"
definition IER :: u64 where "IER = 1"
definition IER_RX_ENABLE :: byte where "IER_RX_ENABLE = push_bit 0 1"
definition IER_TX_ENABLE :: byte where "IER_TX_ENABLE = push_bit 1 1"
definition FCR :: u64 where "FCR = 2"
definition FCR_FIFO_ENABLE :: byte where "FCR_FIFO_ENABLE = push_bit 0 1"
definition FCR_FIFO_CLEAR :: byte where "FCR_FIFO_CLEAR = push_bit 1 3"
definition LCR :: u64 where "LCR = 3"
definition LCR_EIGHT_BITS :: byte where "LCR_EIGHT_BITS = push_bit 0 3"
definition LCR_BAUD_LATCH :: byte where "LCR_BAUD_LATCH = push_bit 7 1"
definition LSR_RX_READY :: byte where "LSR_RX_READY = push_bit 0 1"
definition LSR_TX_IDLE :: byte where "LSR_TX_IDLE = push_bit 5 1"
definition UART_TX_BUF_SIZE :: nat where "UART_TX_BUF_SIZE = 32"

definition ReadLSR :: "byte kernel" where
  "ReadLSR = gets (\<lambda>s. (if uart_in s \<noteq> [] then LSR_RX_READY else 0) OR (if 0 < uart_room s then LSR_TX_IDLE else 0))"

definition ReadRHR :: "byte kernel" where
  "ReadRHR = bnd (gets uart_in) (\<lambda>xs. case xs of [] \<Rightarrow> ret 0 | x # ys \<Rightarrow> thn (modify (\<lambda>s. s\<lparr>uart_in := ys\<rparr>)) (ret x))"

definition WriteTHR :: "byte \<Rightarrow> unit kernel" where
  "WriteTHR c = modify (\<lambda>s. s\<lparr>uart_out := uart_out s @ [c], uart_room := uart_room s - 1\<rparr>)"

definition WriteReg :: "u64 \<Rightarrow> byte \<Rightarrow> unit kernel" where
  "WriteReg reg v = modify (\<lambda>s. s\<lparr>mmio := mmio s @ [(UART0 + reg, ucast v)]\<rparr>)"

definition uartinit :: "unit kernel" where
  "uartinit =
     thn (WriteReg IER 0) (
     thn (WriteReg LCR LCR_BAUD_LATCH) (
     thn (WriteReg 0 0x03) (
     thn (WriteReg 1 0x00) (
     thn (WriteReg LCR LCR_EIGHT_BITS) (
     thn (WriteReg FCR (FCR_FIFO_ENABLE OR FCR_FIFO_CLEAR)) (
     thn (WriteReg IER (IER_TX_ENABLE OR IER_RX_ENABLE))
     (initlock UartLock ''uart'')))))))"

text \<open>The loop of \<open>uartstart\<close> sends at most the bytes in the buffer.\<close>

definition uartstart_one :: "unit \<Rightarrow> (unit + unit) kernel" where
  "uartstart_one u =
     bnd (gets kuart) (\<lambda>t.
     if tx_w t = tx_r t then ret (Inr ()) else
     bnd ReadLSR (\<lambda>lsr.
     if lsr AND LSR_TX_IDLE = 0 then ret (Inr ()) else
     let c = tx_buf t (unat (tx_r t) mod UART_TX_BUF_SIZE) in
     thn (modify (\<lambda>s. s\<lparr>kuart := (kuart s)\<lparr>tx_r := tx_r (kuart s) + 1\<rparr>\<rparr>)) (
     thn (wakeup UartRChan) (
     thn (WriteTHR c)
     (ret (Inl ()))))))"

definition uartstart :: "unit kernel" where
  "uartstart = bnd (gets kuart) (\<lambda>t. loopf (unat (tx_w t - tx_r t) + 1) uartstart_one ())"

text \<open>The loop of \<open>uartputc\<close>, entered with the lock held; a caller that has to wait continues in \<open>uartputc_resume\<close>.\<close>

definition uartputc_loop :: "byte \<Rightarrow> unit kernel" where
  "uartputc_loop c =
     bnd (gets kuart) (\<lambda>t.
     if tx_w t = tx_r t + of_nat UART_TX_BUF_SIZE then sleep UartRChan UartLock
     else
       thn (modify (\<lambda>s. s\<lparr>kuart := (kuart s)\<lparr>tx_buf := (tx_buf (kuart s))(unat (tx_w (kuart s)) mod UART_TX_BUF_SIZE := c),
          tx_w := tx_w (kuart s) + 1\<rparr>\<rparr>)) (
       thn uartstart
       (release UartLock)))"

definition uartputc :: "byte \<Rightarrow> unit kernel" where
  "uartputc c =
     thn (acquire UartLock) (
     bnd (gets panicked) (\<lambda>d.
     if d then hang ''panicked'' else uartputc_loop c))"

definition uartputc_resume :: "nat \<Rightarrow> byte \<Rightarrow> unit kernel" where
  "uartputc_resume p c = thn (sleep_resume p UartLock) (uartputc_loop c)"

definition uartputc_sync :: "byte \<Rightarrow> unit kernel" where
  "uartputc_sync c =
     thn push_off (
     bnd (gets panicked) (\<lambda>d.
     if d then hang ''panicked'' else
     bnd ReadLSR (\<lambda>lsr.
     if lsr AND LSR_TX_IDLE = 0 then hang ''uart'' else
     thn (WriteTHR c)
     pop_off)))"

definition uartgetc :: "byte option kernel" where
  "uartgetc =
     bnd ReadLSR (\<lambda>lsr.
     if lsr AND 0x01 \<noteq> 0 then bnd ReadRHR (\<lambda>c. ret (Some c)) else ret None)"

section \<open>Formatted output\<close>

text \<open>\<open>consputc\<close> gets a byte or \<open>BACKSPACE\<close> (0x100), which is \<open>None\<close> here.\<close>

definition consputc :: "byte option \<Rightarrow> unit kernel" where
  "consputc c = (case c of
     None \<Rightarrow> thn (uartputc_sync 8) (thn (uartputc_sync 32) (uartputc_sync 8))
   | Some b \<Rightarrow> uartputc_sync b)"

definition bytes_of :: "string \<Rightarrow> byte list" where
  "bytes_of s = map (\<lambda>c. of_nat (of_char c)) s"

definition puts :: "byte list \<Rightarrow> unit kernel" where
  "puts cs = foreach cs (\<lambda>c. consputc (Some c))"

definition digits :: "nat \<Rightarrow> byte" where
  "digits n = (if n < 10 then of_nat (48 + n) else of_nat (87 + n))"

text \<open>The digits of a number, least significant first, as the loop of \<open>printint\<close> stores them; base 10 or 16.\<close>

function digit_list :: "nat \<Rightarrow> nat \<Rightarrow> byte list" where
  "digit_list base x = digits (x mod base) # (if x div base \<noteq> 0 \<and> 1 < base then digit_list base (x div base) else [])"
  by pat_completeness auto
termination
  by (relation "measure snd") (auto intro: div_less_dividend simp: div_greater_zero_iff)

definition printint_chars :: "u32 \<Rightarrow> nat \<Rightarrow> bool \<Rightarrow> byte list" where
  "printint_chars xx base sign =
     (let neg = (sign \<and> sint xx < 0); x = (if neg then - xx else xx) in
      rev (digit_list base (unat x) @ (if neg then [45] else [])))"

definition printint :: "u32 \<Rightarrow> nat \<Rightarrow> bool \<Rightarrow> unit kernel" where
  "printint xx base sign = puts (printint_chars xx base sign)"

definition printptr :: "u64 \<Rightarrow> unit kernel" where
  "printptr x =
     thn (consputc (Some 48)) (
     thn (consputc (Some 120))
     (foreach [0..<16] (\<lambda>i. consputc (Some (digits (unat (drop_bit 60 (push_bit (4 * i) x))))))))"

text \<open>
  A format is the list of bytes before its terminator; the arguments are a list. An argument of a kind the format does not call
  for, or a missing one, is undefined behaviour in C and stops the model.
\<close>

datatype pfarg = PInt u32 | PPtr u64 | PStr "byte list option"

fun printf_loop :: "byte list \<Rightarrow> pfarg list \<Rightarrow> unit kernel" where
  "printf_loop [] args = ret ()"
| "printf_loop [c] args = (if c \<noteq> 37 then consputc (Some c) else ret ())"
| "printf_loop (c # d # fmt) args =
     (if c \<noteq> 37 then thn (consputc (Some c)) (printf_loop (d # fmt) args)
      else if d = 100 then
        (case args of PInt x # args \<Rightarrow> thn (printint x 10 True) (printf_loop fmt args) | _ \<Rightarrow> hang ''va_arg'')
      else if d = 120 then
        (case args of PInt x # args \<Rightarrow> thn (printint x 16 True) (printf_loop fmt args) | _ \<Rightarrow> hang ''va_arg'')
      else if d = 112 then
        (case args of PPtr x # args \<Rightarrow> thn (printptr x) (printf_loop fmt args) | _ \<Rightarrow> hang ''va_arg'')
      else if d = 115 then
        (case args of PStr s # args \<Rightarrow>
           thn (puts (case s of None \<Rightarrow> bytes_of ''(null)'' | Some s \<Rightarrow> s)) (printf_loop fmt args)
         | _ \<Rightarrow> hang ''va_arg'')
      else if d = 37 then thn (consputc (Some 37)) (printf_loop fmt args)
      else thn (consputc (Some 37)) (thn (consputc (Some d)) (printf_loop fmt args)))"

definition printf :: "byte list option \<Rightarrow> pfarg list \<Rightarrow> unit kernel" where
  "printf fmt args =
     bnd (gets pr_locking) (\<lambda>locking.
     thn (whenM locking (acquire PrLock)) (
     case fmt of None \<Rightarrow> panic ''null fmt'' | Some f \<Rightarrow>
     thn (printf_loop f args)
     (whenM locking (release PrLock))))"

text \<open>
  The body of the function \<open>panic\<close>. The other theories write \<^const>\<open>panic\<close> where the code calls it: the outcome \<open>Panic\<close> stands for this code, which
  prints the message, freezes the UART and never returns.
\<close>

definition panic_code :: "byte list \<Rightarrow> unit kernel" where
  "panic_code m =
     thn (modify (\<lambda>s. s\<lparr>pr_locking := False\<rparr>)) (
     thn (printf (Some (bytes_of ''panic: '')) []) (
     thn (printf (Some m) []) (
     thn (printf (Some [10]) []) (
     thn (modify (\<lambda>s. s\<lparr>panicked := True\<rparr>))
     (hang ''panicked'')))))"

definition printfinit :: "unit kernel" where
  "printfinit =
     thn (initlock PrLock ''pr'')
     (modify (\<lambda>s. s\<lparr>pr_locking := True\<rparr>))"

section \<open>The process listing\<close>

text \<open>The table \<open>states\<close> has no entry for \<open>USED\<close>.\<close>

definition state_name :: "procstate \<Rightarrow> string" where
  "state_name st = (case st of UNUSED \<Rightarrow> ''unused'' | USED \<Rightarrow> ''???'' | SLEEPING \<Rightarrow> ''sleep '' | RUNNABLE \<Rightarrow> ''runble''
     | RUNNING \<Rightarrow> ''run   '' | ZOMBIE \<Rightarrow> ''zombie'')"

definition name_bytes :: "(nat \<Rightarrow> byte) \<Rightarrow> byte list" where
  "name_bytes nm = takeWhile (\<lambda>c. c \<noteq> 0) (map nm [0..<16])"

definition procdump :: "unit kernel" where
  "procdump =
     thn (printf (Some [10]) [])
     (foreach [0..<NPROC] (\<lambda>p.
       bnd (getp p) (\<lambda>q.
       whenM (p_state q \<noteq> UNUSED) (
         thn (printf (Some (bytes_of ''%d %s %s''))
           [PInt (word_of_int (p_pid q)), PStr (Some (bytes_of (state_name (p_state q)))), PStr (Some (name_bytes (p_name q)))])
         (printf (Some [10]) [])))))"

section \<open>The console\<close>

definition INPUT_BUF :: nat where "INPUT_BUF = 128"

definition ctrl :: "char \<Rightarrow> byte" where
  "ctrl x = of_nat (of_char x) - 64"

definition setcons :: "(cons \<Rightarrow> cons) \<Rightarrow> unit kernel" where
  "setcons f = modify (\<lambda>s. s\<lparr>kcons := f (kcons s)\<rparr>)"

definition consolewrite_one :: "ksrc \<Rightarrow> int \<Rightarrow> int option kernel" where
  "consolewrite_one src i =
     bnd (either_copyin (\<lambda>_. 0) src (of_int i) 1) (\<lambda>(r, d).
     if r = - 1 then ret (Some i) else thn (uartputc (d 0)) (ret None))"

definition consolewrite :: "ksrc \<Rightarrow> int \<Rightarrow> int kernel" where
  "consolewrite src n =
     bnd (forl [0..n - 1] (consolewrite_one src)) (\<lambda>r. case r of Some i \<Rightarrow> ret i | None \<Rightarrow> ret (if n < 0 then 0 else n))"

text \<open>
  \<open>consoleread\<close>: the loop variables are the bytes still wanted and the destination buffer, of which \<open>target - n\<close> bytes have been filled. The
  result of the loop is \<open>None\<close> when the process was killed. A reader that has to wait continues in \<open>consoleread_resume\<close>.
\<close>

definition consoleread_one :: "kdst \<Rightarrow> int \<Rightarrow> int \<times> (nat \<Rightarrow> byte) \<Rightarrow> (int \<times> (nat \<Rightarrow> byte) + (int \<times> (nat \<Rightarrow> byte)) option) kernel" where
  "consoleread_one dst target = (\<lambda>(n, buf).
     if \<not> 0 < n then ret (Inr (Some (n, buf))) else
     bnd (gets kcons) (\<lambda>c.
     if cons_r c = cons_w c then
       bnd myproc (\<lambda>me. bnd (deref me) (\<lambda>p. bnd (getp p) (\<lambda>q.
       if p_killed q then thn (release ConsLock) (ret (Inr None))
       else thn (sleep ConsRChan ConsLock) (ret (Inr None)))))
     else
       let ch = cons_buf c (unat (cons_r c) mod INPUT_BUF) in
       thn (setcons (\<lambda>c. c\<lparr>cons_r := cons_r c + 1\<rparr>)) (
       if ch = ctrl CHR ''D'' then
         thn (whenM (n < target) (setcons (\<lambda>c. c\<lparr>cons_r := cons_r c - 1\<rparr>))) (ret (Inr (Some (n, buf))))
       else
         bnd (either_copyout dst (of_int (target - n)) buf (\<lambda>_. ch) 1) (\<lambda>(r, buf).
         if r = - 1 then ret (Inr (Some (n, buf)))
         else if ch = 10 then ret (Inr (Some (n - 1, buf)))
         else ret (Inl (n - 1, buf))))))"

definition consoleread_loop :: "kdst \<Rightarrow> int \<Rightarrow> int \<times> (nat \<Rightarrow> byte) \<Rightarrow> (int \<times> (nat \<Rightarrow> byte)) kernel" where
  "consoleread_loop dst target x =
     bnd (loopf (nat target + 1) (consoleread_one dst target) x) (\<lambda>r.
     case r of
       None \<Rightarrow> ret (- 1, snd x)
     | Some (n, buf) \<Rightarrow> thn (release ConsLock) (ret (target - n, buf)))"

definition consoleread :: "kdst \<Rightarrow> int \<Rightarrow> (nat \<Rightarrow> byte) \<Rightarrow> (int \<times> (nat \<Rightarrow> byte)) kernel" where
  "consoleread dst n buf = thn (acquire ConsLock) (consoleread_loop dst n (n, buf))"

definition consoleread_resume :: "nat \<Rightarrow> kdst \<Rightarrow> int \<Rightarrow> int \<times> (nat \<Rightarrow> byte) \<Rightarrow> (int \<times> (nat \<Rightarrow> byte)) kernel" where
  "consoleread_resume p dst target x = thn (sleep_resume p ConsLock) (consoleread_loop dst target x)"

definition kill_line_one :: "unit \<Rightarrow> (unit + unit) kernel" where
  "kill_line_one u =
     bnd (gets kcons) (\<lambda>c.
     if cons_e c \<noteq> cons_w c \<and> cons_buf c (unat (cons_e c - 1) mod INPUT_BUF) \<noteq> 10
     then thn (setcons (\<lambda>c. c\<lparr>cons_e := cons_e c - 1\<rparr>)) (thn (consputc None) (ret (Inl ())))
     else ret (Inr ()))"

definition consoleintr :: "byte \<Rightarrow> unit kernel" where
  "consoleintr ch =
     thn (acquire ConsLock) (
     thn (
       if ch = ctrl CHR ''P'' then procdump
       else if ch = ctrl CHR ''U'' then
         bnd (gets kcons) (\<lambda>c. loopf (unat (cons_e c - cons_w c) + 1) kill_line_one ())
       else if ch = ctrl CHR ''H'' \<or> ch = 0x7f then
         bnd (gets kcons) (\<lambda>c.
         whenM (cons_e c \<noteq> cons_w c) (
           thn (setcons (\<lambda>c. c\<lparr>cons_e := cons_e c - 1\<rparr>))
           (consputc None)))
       else
         bnd (gets kcons) (\<lambda>c.
         whenM (ch \<noteq> 0 \<and> cons_e c - cons_r c < of_nat INPUT_BUF) (
           let ch = (if ch = 13 then 10 else ch) in
           thn (consputc (Some ch)) (
           thn (setcons (\<lambda>c. c\<lparr>cons_buf := (cons_buf c)(unat (cons_e c) mod INPUT_BUF := ch), cons_e := cons_e c + 1\<rparr>)) (
           bnd (gets kcons) (\<lambda>c.
           whenM (ch = 10 \<or> ch = ctrl CHR ''D'' \<or> cons_e c = cons_r c + of_nat INPUT_BUF) (
             thn (setcons (\<lambda>c. c\<lparr>cons_w := cons_e c\<rparr>))
             (wakeup ConsRChan))))))))
     (release ConsLock))"

definition CONSOLE :: nat where "CONSOLE = 1"

definition consoleinit :: "unit kernel" where
  "consoleinit =
     thn (initlock ConsLock ''cons'') (
     thn uartinit
     (modify (\<lambda>s. s\<lparr>devsw := (devsw s)(CONSOLE := True)\<rparr>)))"

text \<open>The loop of \<open>uartintr\<close> ends when everything that has been received is read.\<close>

definition uartintr_one :: "unit \<Rightarrow> (unit + unit) kernel" where
  "uartintr_one u =
     bnd uartgetc (\<lambda>c.
     case c of None \<Rightarrow> ret (Inr ()) | Some c \<Rightarrow> thn (consoleintr c) (ret (Inl ())))"

definition uartintr :: "unit kernel" where
  "uartintr =
     bnd (gets uart_in) (\<lambda>xs.
     thn (loopf (length xs + 1) uartintr_one ()) (
     thn (acquire UartLock) (
     thn uartstart
     (release UartLock))))"

end
