(* ===== verification/Ring.thy ===== *)
theory Ring
  imports Prelude
begin

text \<open>
  Ring buffers with free running counters, the interface of the pipe, the UART's transmit buffer and the console's input buffer: the counters are
  machine words that wrap around, the capacity divides the range of the counter, and an element is stored at the counter modulo the capacity.
  In the locale the buffer is shown to be a bounded queue.
\<close>

locale ring =
  fixes data :: "'b \<Rightarrow> nat \<Rightarrow> byte" and rd :: "'b \<Rightarrow> 'w::len word" and wr :: "'b \<Rightarrow> 'w word"
    and push :: "byte \<Rightarrow> 'b \<Rightarrow> 'b" and pop :: "'b \<Rightarrow> 'b" and cap :: nat
  assumes cap_pos: "0 < cap" and cap_dvd: "cap dvd 2 ^ LENGTH('w)" and cap_less: "cap < 2 ^ LENGTH('w)"
    and push: "data (push x b) = (data b)(unat (wr b) mod cap := x)" "wr (push x b) = wr b + 1" "rd (push x b) = rd b"
    and pop: "data (pop b) = data b" "wr (pop b) = wr b" "rd (pop b) = rd b + 1"
begin

definition used :: "'b \<Rightarrow> nat" where
  "used b = unat (wr b - rd b)"

definition ok :: "'b \<Rightarrow> bool" where
  "ok b = (used b \<le> cap)"

definition queue :: "'b \<Rightarrow> byte list" where
  "queue b = map (\<lambda>k. data b ((unat (rd b) + k) mod cap)) [0..<used b]"

lemma used_queue [simp]: "length (queue b) = used b"
  by (simp add: queue_def)

lemma used_0: "used b = 0 \<longleftrightarrow> rd b = wr b"
  by (auto simp: used_def unat_eq_0)

lemma wr_of_used: "wr b = rd b + of_nat (used b)"
  by (simp add: used_def)

lemma empty_iff: "queue b = [] \<longleftrightarrow> rd b = wr b"
  using used_0[of b] by (auto simp: queue_def)

lemma full_iff: "wr b = rd b + of_nat cap \<longleftrightarrow> used b = cap"
proof
  assume "wr b = rd b + of_nat cap"
  then have "used b = unat (of_nat cap :: 'w word)" by (simp add: used_def)
  then show "used b = cap" using cap_less by (simp add: unat_of_nat)
qed (use wr_of_used[of b] in simp)

text \<open>The counters wrap around at a multiple of the capacity, so that positions go on without a jump.\<close>

lemma mod_wrap: "unat (w + of_nat k :: 'w word) mod cap = (unat w + k) mod cap"
proof -
  have "unat (w + of_nat k) = (unat w + k) mod 2 ^ LENGTH('w)"
    by (simp add: unat_word_ariths unat_of_nat mod_simps)
  then show ?thesis using cap_dvd by (simp add: mod_mod_cancel)
qed

lemma used_push: "used b < 2 ^ LENGTH('w) - 1 \<Longrightarrow> used (push x b) = Suc (used b)"
proof -
  assume h: "used b < 2 ^ LENGTH('w) - 1"
  have e: "wr b + 1 - rd b = (wr b - rd b) + 1" by simp
  have "unat ((wr b - rd b) + 1) = Suc (unat (wr b - rd b))"
    using h by (simp add: unat_word_ariths used_def)
  then show ?thesis unfolding used_def push e .
qed

lemma queue_push:
  assumes "ok b" "used b \<noteq> cap"
  shows "ok (push x b)" "queue (push x b) = queue b @ [x]"
proof -
  have u: "used b < cap" using assms by (simp add: ok_def)
  then have s: "used (push x b) = Suc (used b)" using cap_less by (intro used_push) simp
  then show "ok (push x b)" using u by (simp add: ok_def)
  have w: "unat (wr b) mod cap = (unat (rd b) + used b) mod cap"
    using mod_wrap[of "rd b" "used b"] by (simp flip: wr_of_used)
  have "(unat (rd b) + k) mod cap \<noteq> (unat (rd b) + used b) mod cap" if "k < used b" for k
  proof
    assume e: "(unat (rd b) + k) mod cap = (unat (rd b) + used b) mod cap"
    then have "cap dvd (unat (rd b) + used b) - (unat (rd b) + k)" using that by (intro mod_eq_dvd_iff_nat[THEN iffD1]) auto
    then have "cap dvd used b - k" by simp
    then show False using that u by (auto dest: dvd_imp_le)
  qed
  then show "queue (push x b) = queue b @ [x]" by (simp add: queue_def s push w)
qed

lemma queue_push_all:
  assumes "ok b" "used b + length xs \<le> cap"
  shows "ok (fold push xs b) \<and> queue (fold push xs b) = queue b @ xs"
  using assms
proof (induction xs arbitrary: b)
  case (Cons x xs)
  then have "ok b" "used b \<noteq> cap" by auto
  note P = queue_push[OF this, of x]
  have "used (push x b) = Suc (used b)" using arg_cong[OF P(2), of length] by simp
  then show ?case using Cons.IH[OF P(1)] Cons.prems(2) P(2) by simp
qed simp

lemma queue_pop:
  assumes "rd b \<noteq> wr b"
  shows "queue b = data b (unat (rd b) mod cap) # queue (pop b)" "used (pop b) = used b - 1" "ok b \<Longrightarrow> ok (pop b)"
proof -
  have "0 < used b" using assms used_0[of b] by auto
  then obtain n where n: "used b = Suc n" by (cases "used b") auto
  have e: "wr b - (rd b + 1) = (wr b - rd b) - 1" by simp
  have "unat ((wr b - rd b) - 1) = unat (wr b - rd b) - 1" using assms by (intro unat_minus_one) auto
  then have p: "used (pop b) = used b - 1" unfolding used_def pop e .
  then show "used (pop b) = used b - 1" "ok b \<Longrightarrow> ok (pop b)" by (auto simp: ok_def)
  have "unat (rd b + 1) mod cap = (unat (rd b) + 1) mod cap" using mod_wrap[of "rd b" 1] by simp
  then have "(unat (rd b + 1) + k) mod cap = (unat (rd b) + Suc k) mod cap" for k by (metis add_Suc_right add_Suc Suc_eq_plus1 mod_add_left_eq)
  then show "queue b = data b (unat (rd b) mod cap) # queue (pop b)"
    by (simp add: queue_def p n pop upt_conv_Cons map_Suc_upt[symmetric] del: upt_Suc)
qed

lemma queue_pops:
  "k \<le> used b \<Longrightarrow> queue ((pop ^^ k) b) = drop k (queue b) \<and> used ((pop ^^ k) b) = used b - k \<and> (ok b \<longrightarrow> ok ((pop ^^ k) b))"
proof (induction k)
  case (Suc k)
  then have IH: "queue ((pop ^^ k) b) = drop k (queue b)" "used ((pop ^^ k) b) = used b - k" "ok b \<longrightarrow> ok ((pop ^^ k) b)" by auto
  then have "rd ((pop ^^ k) b) \<noteq> wr ((pop ^^ k) b)" using Suc.prems used_0[of "(pop ^^ k) b"] by auto
  note P = queue_pop[OF this]
  have "queue (pop ((pop ^^ k) b)) = tl (queue ((pop ^^ k) b))" using P(1) by simp
  then show ?case using P(2,3) IH by (simp add: drop_Suc tl_drop)
qed simp

lemma queue_nth:
  assumes "k < used b"
  shows "rd ((pop ^^ k) b) \<noteq> wr ((pop ^^ k) b)" "data ((pop ^^ k) b) (unat (rd ((pop ^^ k) b)) mod cap) = queue b ! k"
proof -
  have q: "queue ((pop ^^ k) b) = drop k (queue b)" "used ((pop ^^ k) b) = used b - k" using queue_pops[of k b] assms by auto
  then show ne: "rd ((pop ^^ k) b) \<noteq> wr ((pop ^^ k) b)" using assms used_0[of "(pop ^^ k) b"] by auto
  show "data ((pop ^^ k) b) (unat (rd ((pop ^^ k) b)) mod cap) = queue b ! k"
    using queue_pop(1)[OF ne] q(1) assms by (metis used_queue hd_drop_conv_nth list.sel(1))
qed

end

text \<open>A buffer whose writer can take back the last element, as the console does for a backspace.\<close>

locale ring_edit = ring data rd wr push pop cap
  for data :: "'b \<Rightarrow> nat \<Rightarrow> byte" and rd :: "'b \<Rightarrow> 'w::len word" and wr :: "'b \<Rightarrow> 'w word"
    and push :: "byte \<Rightarrow> 'b \<Rightarrow> 'b" and pop :: "'b \<Rightarrow> 'b" and cap :: nat +
  fixes unpush :: "'b \<Rightarrow> 'b"
  assumes unpush: "data (unpush b) = data b" "wr (unpush b) = wr b - 1" "rd (unpush b) = rd b"
begin

lemma queue_unpush:
  assumes "rd b \<noteq> wr b"
  shows "queue b = queue (unpush b) @ [data b (unat (wr b - 1) mod cap)]" "used b = Suc (used (unpush b))" "ok b \<Longrightarrow> ok (unpush b)"
proof -
  have e: "wr b - 1 - rd b = (wr b - rd b) - 1" by simp
  have "0 < unat (wr b - rd b)" using assms by (auto simp: unat_gt_0)
  moreover have "unat ((wr b - rd b) - 1) = unat (wr b - rd b) - 1" using assms by (intro unat_minus_one) auto
  ultimately show u: "used b = Suc (used (unpush b))" unfolding used_def unpush e by simp
  then show "ok b \<Longrightarrow> ok (unpush b)" by (simp add: ok_def)
  have "wr b - 1 = rd b + of_nat (used (unpush b))" using wr_of_used[of b] u by simp
  then have "unat (wr b - 1) mod cap = (unat (rd b) + used (unpush b)) mod cap" using mod_wrap by metis
  then show "queue b = queue (unpush b) @ [data b (unat (wr b - 1) mod cap)]" by (simp add: queue_def u unpush)
qed

end

end
