(* ===== verification/Consbuf.thy ===== *)
theory Consbuf
  imports Console Ring
begin

text \<open>
  The buffers of the UART driver and of the console, for the code of theory Console: the transmit buffer is a queue from which the
  bytes are sent in order, and the input buffer is a line editor.
\<close>

section \<open>The transmit buffer as a queue\<close>

definition tx_push :: "byte \<Rightarrow> uart \<Rightarrow> uart" where
  "tx_push c t = t\<lparr>tx_buf := (tx_buf t)(unat (tx_w t) mod UART_TX_BUF_SIZE := c), tx_w := tx_w t + 1\<rparr>"

definition tx_pop :: "uart \<Rightarrow> uart" where
  "tx_pop t = t\<lparr>tx_r := tx_r t + 1\<rparr>"

interpretation uq: ring tx_buf tx_r tx_w tx_push tx_pop UART_TX_BUF_SIZE
  by unfold_locales (simp_all add: tx_push_def tx_pop_def UART_TX_BUF_SIZE_def)

text \<open>The state after \<open>k\<close> bytes of the buffer went to the UART.\<close>

definition drained :: "nat \<Rightarrow> kstate \<Rightarrow> kstate" where
  "drained k s = s\<lparr>kuart := (tx_pop ^^ k) (kuart s), procs := (if k = 0 then procs s else wake_all UartRChan (curproc s) (procs s)),
     uart_out := uart_out s @ take k (uq.queue (kuart s)), uart_room := uart_room s - k\<rparr>"

lemma drained_simps [simp]: "kuart (drained k s) = (tx_pop ^^ k) (kuart s)" "uart_out (drained k s) = uart_out s @ take k (uq.queue (kuart s))"
  "uart_room (drained k s) = uart_room s - k" "cpu_ok (drained k s) = cpu_ok s" "plocks me (drained k s) = plocks me s" "curproc (drained k s) = curproc s"
  "drained 0 s = s" "freelk lk (drained k s) = freelk lk s"
  by (simp_all add: drained_def)

lemma wake_twice [simp]: "wake_all ch me (wake_all ch me ps) = wake_all ch me ps"
  by (auto simp: wake_in_def fun_eq_iff)

lemma drained_Suc:
  assumes "tx_r (kuart s) \<noteq> tx_w (kuart s)"
  shows "drained k (drained 1 s) = drained (Suc k) s"
proof -
  have "take 1 (uq.queue (kuart s)) @ take k (uq.queue (tx_pop (kuart s))) = take (Suc k) (uq.queue (kuart s))"
    using uq.queue_pop(1)[OF assms] by simp
  then show ?thesis by (simp add: drained_def funpow_swap1)
qed

lemma lsr_idle: "((if b then LSR_RX_READY else 0) OR (if 0 < n then LSR_TX_IDLE else 0)) AND LSR_TX_IDLE = 0 \<longleftrightarrow> n = (0::nat)"
  by (simp add: LSR_RX_READY_def LSR_TX_IDLE_def)

lemma uartstart_one_send:
  assumes "cpu_ok s" "plocks (curproc s) s" "tx_r (kuart s) \<noteq> tx_w (kuart s)" "0 < uart_room s"
  shows "uartstart_one u (acq UartLock s) = Ok (Inl ()) (acq UartLock (drained 1 s))"
proof -
  have "take 1 (uq.queue (kuart s)) = [tx_buf (kuart s) (unat (tx_r (kuart s)) mod UART_TX_BUF_SIZE)]"
    using uq.queue_pop(1)[OF assms(3)] by simp
  then show ?thesis using assms lsr_idle[of "uart_in s \<noteq> []" "uart_room s"]
    by (simp add: uartstart_one_def ReadLSR_def WriteTHR_def kmon Let_def drained_def tx_pop_def)
qed

lemma uartstart_loop:
  assumes "cpu_ok s" "plocks (curproc s) s" "uq.used (kuart s) < n"
  shows "loopf n uartstart_one () (acq UartLock s) = Ok () (acq UartLock (drained (min (uart_room s) (uq.used (kuart s))) s))"
  using assms
proof (induction n arbitrary: s)
  case (Suc n)
  show ?case
  proof (cases "tx_r (kuart s) = tx_w (kuart s) \<or> uart_room s = 0")
    case True
    then have "min (uart_room s) (uq.used (kuart s)) = 0" using uq.used_0[of "kuart s"] by auto
    moreover have "uartstart_one () (acq UartLock s) = Ok (Inr ()) (acq UartLock s)"
      using True lsr_idle[of "uart_in s \<noteq> []" "uart_room s"] by (auto simp: uartstart_one_def ReadLSR_def kmon)
    ultimately show ?thesis by (simp add: kmon)
  next
    case False
    then have one: "uartstart_one () (acq UartLock s) = Ok (Inl ()) (acq UartLock (drained 1 s))"
      using Suc.prems by (intro uartstart_one_send) auto
    have u: "uq.used (tx_pop (kuart s)) = uq.used (kuart s) - 1" "0 < uq.used (kuart s)"
      using uq.queue_pop(2)[of "kuart s"] uq.used_0[of "kuart s"] False by auto
    have "loopf n uartstart_one () (acq UartLock (drained 1 s)) =
        Ok () (acq UartLock (drained (min (uart_room s - 1) (uq.used (kuart s) - 1)) (drained 1 s)))"
      using Suc.IH[of "drained 1 s"] Suc.prems u by simp
    moreover have "Suc (min (uart_room s - 1) (uq.used (kuart s) - 1)) = min (uart_room s) (uq.used (kuart s))" using u(2) False by auto
    ultimately show ?thesis using one drained_Suc[of s] False by (simp add: kmon del: drained_simps(1))
  qed
qed simp

section \<open>The input buffer as two queues\<close>

definition c_push :: "byte \<Rightarrow> cons \<Rightarrow> cons" where
  "c_push x c = c\<lparr>cons_buf := (cons_buf c)(unat (cons_e c) mod INPUT_BUF := x), cons_e := cons_e c + 1\<rparr>"

definition c_pop :: "cons \<Rightarrow> cons" where
  "c_pop c = c\<lparr>cons_r := cons_r c + 1\<rparr>"

definition c_unpush :: "cons \<Rightarrow> cons" where
  "c_unpush c = c\<lparr>cons_e := cons_e c - 1\<rparr>"

interpretation cq: ring_edit cons_buf cons_r cons_e c_push c_pop INPUT_BUF c_unpush
  by unfold_locales (simp_all add: c_push_def c_pop_def c_unpush_def INPUT_BUF_def)

text \<open>The bytes a reader may take, and the line being edited, which is not terminated yet.\<close>

definition c_split :: "cons \<Rightarrow> nat" where
  "c_split c = unat (cons_w c - cons_r c)"

definition ready :: "cons \<Rightarrow> byte list" where
  "ready c = take (c_split c) (cq.queue c)"

definition pending :: "cons \<Rightarrow> byte list" where
  "pending c = drop (c_split c) (cq.queue c)"

definition cons_ok :: "cons \<Rightarrow> bool" where
  "cons_ok c = (cq.ok c \<and> c_split c \<le> cq.used c \<and> 10 \<notin> set (pending c))"

lemma ready_pending: "ready c @ pending c = cq.queue c"
  by (simp add: ready_def pending_def)

lemma c_split_same [simp]: "c_split (c_push x c) = c_split c" "c_split (c_unpush c) = c_split c"
  by (simp_all add: c_split_def c_push_def c_unpush_def)

text \<open>The abstract line editor: what a character does to the two queues.\<close>

definition edit :: "byte \<Rightarrow> byte list \<times> byte list \<Rightarrow> byte list \<times> byte list" where
  "edit ch = (\<lambda>(rd, pd).
     if ch = 21 then (rd, [])
     else if ch = 8 \<or> ch = 127 then (rd, butlast pd)
     else if ch = 0 \<or> length rd + length pd = 128 then (rd, pd)
     else let ch = (if ch = 13 then 10 else ch); pd = pd @ [ch] in
       if ch = 10 \<or> ch = 4 \<or> length rd + length pd = 128 then (rd @ pd, []) else (rd, pd))"

lemma used_wr: "c_split c = cq.used c \<longleftrightarrow> cons_w c = cons_e c"
proof -
  have "c_split c = cq.used c \<longleftrightarrow> cons_w c - cons_r c = cons_e c - cons_r c"
    by (simp add: c_split_def cq.used_def word_unat_eq_iff)
  then show ?thesis by simp
qed

lemma pending_Nil: "cons_ok c \<Longrightarrow> pending c = [] \<longleftrightarrow> cons_e c = cons_w c"
  using used_wr[of c] by (auto simp: pending_def cons_ok_def)

lemma pending_ne:
  assumes "cons_ok c" "cons_e c \<noteq> cons_w c"
  shows "cons_r c \<noteq> cons_e c" "c_split c < cq.used c"
proof -
  show s: "c_split c < cq.used c" using assms used_wr[of c] by (auto simp: cons_ok_def)
  then show "cons_r c \<noteq> cons_e c" using cq.used_0[of c] by auto
qed

lemma unpush_pending:
  assumes "cons_ok c" "cons_e c \<noteq> cons_w c"
  shows "pending c = pending (c_unpush c) @ [cons_buf c (unat (cons_e c - 1) mod INPUT_BUF)]" "ready (c_unpush c) = ready c" "cons_ok (c_unpush c)"
proof -
  note P = pending_ne[OF assms]
  note U = cq.queue_unpush[OF P(1)]
  have le: "c_split c \<le> cq.used (c_unpush c)" using P(2) U(2) by simp
  show p: "pending c = pending (c_unpush c) @ [cons_buf c (unat (cons_e c - 1) mod INPUT_BUF)]"
    using U(1) le by (simp add: pending_def)
  show "ready (c_unpush c) = ready c" using U(1) le by (simp add: ready_def)
  show "cons_ok (c_unpush c)" using assms(1) U(3) le p by (simp add: cons_ok_def)
qed

lemma push_pending:
  assumes "cons_ok c" "cq.used c < INPUT_BUF"
  shows "pending (c_push x c) = pending c @ [x]" "ready (c_push x c) = ready c" "cq.ok (c_push x c)" "cq.used (c_push x c) = Suc (cq.used c)"
proof -
  have ok: "cq.ok c" "c_split c \<le> cq.used c" using assms(1) by (auto simp: cons_ok_def)
  have q: "cq.queue (c_push x c) = cq.queue c @ [x]" using cq.queue_push(2)[OF ok(1)] assms(2) by simp
  then show "pending (c_push x c) = pending c @ [x]" "ready (c_push x c) = ready c" using ok(2) by (simp_all add: pending_def ready_def)
  show "cq.ok (c_push x c)" using cq.queue_push(1)[OF ok(1)] assms(2) by simp
  show "cq.used (c_push x c) = Suc (cq.used c)" using arg_cong[OF q, of length] unfolding cq.used_queue length_append by simp
qed

text \<open>Committing the line: everything up to \<open>e\<close> can be read.\<close>

lemma commit_pending:
  assumes "cq.ok c"
  shows "ready (c\<lparr>cons_w := cons_e c\<rparr>) = cq.queue c" "pending (c\<lparr>cons_w := cons_e c\<rparr>) = []" "cons_ok (c\<lparr>cons_w := cons_e c\<rparr>)"
proof -
  have s: "c_split (c\<lparr>cons_w := cons_e c\<rparr>) = cq.used c" by (simp add: c_split_def cq.used_def)
  have q: "cq.queue (c\<lparr>cons_w := cons_e c\<rparr>) = cq.queue c" "cq.used (c\<lparr>cons_w := cons_e c\<rparr>) = cq.used c" by (simp_all add: cq.queue_def cq.used_def)
  show p: "ready (c\<lparr>cons_w := cons_e c\<rparr>) = cq.queue c" "pending (c\<lparr>cons_w := cons_e c\<rparr>) = []" by (simp_all add: ready_def pending_def s q)
  show "cons_ok (c\<lparr>cons_w := cons_e c\<rparr>)" using assms p s q by (simp add: cons_ok_def cq.ok_def)
qed

section \<open>Echo\<close>

definition echo :: "byte list \<Rightarrow> kstate \<Rightarrow> kstate" where
  "echo bs s = s\<lparr>uart_out := uart_out s @ bs, uart_room := uart_room s - length bs\<rparr>"

lemma echo_simps [simp]: "kcons (echo bs s) = kcons s" "uart_room (echo bs s) = uart_room s - length bs" "panicked (echo bs s) = panicked s"
  "cpu_ok (echo bs s) = cpu_ok s" "freelk lk (echo bs s) = freelk lk s" "plocks me (echo bs s) = plocks me s" "curproc (echo bs s) = curproc s"
  "echo cs (echo bs s) = echo (bs @ cs) s" "echo bs (acq lk s) = acq lk (echo bs s)" "echo bs (sync s) = sync (echo bs s)" "procs (echo bs s) = procs s"
  by (simp_all add: echo_def)

lemma uartputc_sync_eq:
  assumes "0 < uart_room s" "\<not> panicked s" "cpu_ok s"
  shows "uartputc_sync c s = Ok () (sync (echo [c] s))"
  using assms lsr_idle[of "uart_in s \<noteq> []" "uart_room s"]
  by (auto simp: uartputc_sync_def ReadLSR_def WriteTHR_def echo_def push_off_eq pop_off_def intr_defs kmon sie_def sie_off cpu_ok_def sync_def
      sie_restore_on sie_restore_off intro!: kstate.equality)

lemma consputc_eq:
  assumes "3 \<le> uart_room s" "\<not> panicked s" "cpu_ok s"
  shows "consputc (Some c) s = Ok () (sync (echo [c] s))" "consputc None s = Ok () (sync (echo [8, 32, 8] s))"
  using assms by (simp_all add: consputc_def kmon uartputc_sync_eq)

definition rubout :: "nat \<Rightarrow> byte list" where
  "rubout n = concat (replicate n [8, 32, 8])"

lemma rubout_Suc: "rubout (Suc n) = [8, 32, 8] @ rubout n" "length (rubout n) = 3 * n" "rubout 0 = []"
  by (induction n) (simp_all add: rubout_def)

text \<open>\<open>^U\<close> erases the whole line that is being edited.\<close>

lemma kill_line:
  assumes "cons_ok (kcons s)" "3 * length (pending (kcons s)) \<le> uart_room s" "\<not> panicked s" "cpu_ok s" "length (pending (kcons s)) < n"
  shows "\<exists>c. loopf n kill_line_one () (acq lk s) = Ok () (acq lk (echo (rubout (length (pending (kcons s)))) (s\<lparr>kcons := c\<rparr>))) \<and>
    cons_ok c \<and> ready c = ready (kcons s) \<and> pending c = []"
  using assms
proof (induction n arbitrary: s)
  case (Suc n)
  let ?c = "kcons s"
  show ?case
  proof (cases "cons_e ?c = cons_w ?c")
    case True
    then have "kill_line_one () (acq lk s) = Ok (Inr ()) (acq lk s)" by (simp add: kill_line_one_def kmon)
    then show ?thesis using True Suc.prems(1) pending_Nil[of ?c] by (intro exI[of _ ?c]) (simp add: kmon rubout_Suc echo_def)
  next
    case False
    note U = unpush_pending[OF Suc.prems(1) False]
    let ?s = "echo [8, 32, 8] (s\<lparr>kcons := c_unpush ?c\<rparr>)"
    have len: "length (pending ?c) = Suc (length (pending (c_unpush ?c)))" using U(1) by simp
    have nl: "cons_buf ?c (unat (cons_e ?c - 1) mod INPUT_BUF) \<noteq> 10" using Suc.prems(1) U(1) by (auto simp: cons_ok_def)
    have "kill_line_one () (acq lk s) = Ok (Inl ()) (acq lk ?s)"
      using False nl Suc.prems(2-4) len consputc_eq(2)[of "acq lk (s\<lparr>kcons := c_unpush ?c\<rparr>)"]
      by (simp add: kill_line_one_def setcons_def kmon c_unpush_def)
    moreover have room: "3 * length (pending (kcons ?s)) \<le> uart_room ?s" using Suc.prems(2) len by simp
    moreover obtain c where "loopf n kill_line_one () (acq lk ?s) = Ok () (acq lk (echo (rubout (length (pending (kcons ?s)))) (?s\<lparr>kcons := c\<rparr>)))"
        "cons_ok c" "ready c = ready (kcons ?s)" "pending c = []"
      using Suc.IH[of ?s] Suc.prems(3-5) U(3) len room by auto
    moreover have "echo (rubout (length (pending (kcons ?s)))) (?s\<lparr>kcons := c\<rparr>) = echo (rubout (length (pending ?c))) (s\<lparr>kcons := c\<rparr>)" for c
      unfolding len rubout_Suc by (simp add: echo_def)
    ultimately show ?thesis using U(2) by (intro exI[of _ c]) (simp add: kmon)
  qed
qed simp


lemma ctrl_codes: "ctrl CHR ''P'' = 16" "ctrl CHR ''U'' = 21" "ctrl CHR ''H'' = 8" "ctrl CHR ''D'' = 4"
  by (simp_all add: ctrl_def)

lemma cons_free: "cons_e c - cons_r c < of_nat INPUT_BUF \<longleftrightarrow> cq.used c < INPUT_BUF"
  by (simp add: word_less_nat_alt cq.used_def INPUT_BUF_def)

lemma cons_lengths: "cons_ok c \<Longrightarrow> length (ready c) + length (pending c) = cq.used c" "cons_ok c \<Longrightarrow> cq.used c \<le> INPUT_BUF"
  using arg_cong[OF ready_pending[of c], of length] by (simp_all add: cons_ok_def cq.ok_def)

lemma cons_full: "cq.ok c \<Longrightarrow> cons_e c = cons_r c + of_nat INPUT_BUF \<longleftrightarrow> cq.used c = INPUT_BUF"
  by (rule cq.full_iff)

lemma type_char:
  assumes "cons_ok c" "cq.used c < INPUT_BUF" and ch: "ch \<notin> {0, 8, 13, 21, 127}"
  defines "d \<equiv> c_push ch c"
  defines "c' \<equiv> (if ch = 10 \<or> ch = 4 \<or> cons_e d = cons_r d + of_nat INPUT_BUF then d\<lparr>cons_w := cons_e d\<rparr> else d)"
  shows "cons_ok c'" "(ready c', pending c') = edit ch (ready c, pending c)"
proof -
  note P = push_pending[OF assms(1,2), of ch, folded d_def]
  have full: "cons_e d = cons_r d + of_nat INPUT_BUF \<longleftrightarrow> Suc (cq.used c) = INPUT_BUF" using cons_full[OF P(3)] P(4) by simp
  have len: "length (ready c) + length (pending c) = cq.used c" "INPUT_BUF = 128" using cons_lengths(1)[OF assms(1)] by (simp_all add: INPUT_BUF_def)
  have q: "cq.queue d = ready c @ pending c @ [ch]" using ready_pending[of d] P(1,2) by simp
  show "cons_ok c'" unfolding c'_def using commit_pending(3)[OF P(3)] P assms(1) by (auto simp: cons_ok_def d_def)
  show "(ready c', pending c') = edit ch (ready c, pending c)"
    using commit_pending(1,2)[OF P(3)] P(1,2) q ch assms(2) len full unfolding c'_def by (auto simp: edit_def Let_def)
qed

lemma edit_return: "edit 13 = edit 10"
  by (simp add: edit_def)

section \<open>Theorems\<close>

text \<open>
  C33: the UART sends the characters in the order they were given, and none is lost. If the transmit buffer has room, \<open>uartputc\<close> returns: the
  character stands after everything that was sent or still waits, the transmitter took as many bytes as it had room for, and
  the sleeping writers are woken if it took any. If the buffer is full, the caller sleeps and nothing is sent or lost.
\<close>

theorem uartputc_sends_in_order:
  assumes "cpu_ok s" "noff (cpus s (hart s)) = 0" "freelk UartLock s" "plocks None s" "curproc s = Some p" "p < NPROC"
    and "\<not> panicked s" "uq.ok (kuart s)"
  shows "if uq.used (kuart s) < UART_TX_BUF_SIZE
    then \<exists>t. uartputc c s = Ok () t \<and> uart_out t @ uq.queue (kuart t) = uart_out s @ uq.queue (kuart s) @ [c] \<and> uq.ok (kuart t) \<and>
      length (uart_out t) = length (uart_out s) + min (uart_room s) (Suc (uq.used (kuart s))) \<and>
      procs t = (if uart_room s = 0 then procs s else wake_all UartRChan (Some p) (procs s)) \<and> freelk UartLock t
    else \<exists>t. uartputc c s = Swtch t \<and> uart_out t = uart_out s \<and> kuart t = kuart s \<and> freelk UartLock t \<and>
      p_state (procs t p) = SLEEPING \<and> p_chan (procs t p) = UartRChan"
proof (cases "uq.used (kuart s) < UART_TX_BUF_SIZE")
  case True
  let ?s = "s\<lparr>kuart := tx_push c (kuart s)\<rparr>" and ?u = "Suc (uq.used (kuart s))"
  have q: "uq.ok (tx_push c (kuart s))" "uq.queue (tx_push c (kuart s)) = uq.queue (kuart s) @ [c]"
    using uq.queue_push[OF assms(8)] True by auto
  have u: "uq.used (tx_push c (kuart s)) = ?u" using arg_cong[OF q(2), of length] unfolding uq.used_queue length_append by simp
  let ?k = "min (uart_room s) ?u"
  let ?t = "drained ?k ?s"
  have pl: "plocks (curproc ?s) ?s" using assms(4) by (auto simp: plocks_def)
  have full: "tx_w (kuart s) \<noteq> tx_r (kuart s) + of_nat UART_TX_BUF_SIZE" using True uq.full_iff[of "kuart s"] by auto
  have "uartstart (acq UartLock ?s) = Ok () (acq UartLock ?t)"
    using uartstart_loop[of ?s "unat (tx_w (tx_push c (kuart s)) - tx_r (tx_push c (kuart s))) + 1"] assms(1) pl u
    by (simp add: uartstart_def kmon uq.used_def del: loopf.simps)
  then have "uartputc c s = Ok () (sync ?t)"
    using assms full by (simp add: uartputc_def uartputc_loop_def kmon tx_push_def del: drained_simps(1))
  moreover have "uart_out ?t @ uq.queue (kuart ?t) = uart_out s @ uq.queue (kuart s) @ [c]" "uq.ok (kuart ?t)"
    using uq.queue_pops[of ?k "tx_push c (kuart s)"] u q append_take_drop_id[of ?k "uq.queue (kuart s) @ [c]"] by simp_all
  moreover have "length (uart_out ?t) = length (uart_out s) + ?k" using u by (simp add: q(2)[symmetric])
  moreover have "procs ?t = (if uart_room s = 0 then procs s else wake_all UartRChan (Some p) (procs s))"
    using assms(5) by (simp add: drained_def)
  ultimately show ?thesis using True assms(3) by simp
next
  case False
  then have full: "tx_w (kuart s) = tx_r (kuart s) + of_nat UART_TX_BUF_SIZE"
    using uq.full_iff[of "kuart s"] assms(8) by (simp add: uq.ok_def)
  have sl: "sleep UartRChan UartLock (acq UartLock s) = Swtch (acq (ProcLock p) (s\<lparr>procs := (procs s)(p :=
      (procs s p)\<lparr>p_chan := UartRChan, p_state := SLEEPING, p_intena := sie s\<rparr>)\<rparr>))"
    using assms by (intro sleep_eq) (auto simp: plocks_def)
  show ?thesis using False full sl assms by (simp add: uartputc_def uartputc_loop_def kmon)
qed

theorem uartputc_sends_in_order_witness:
  "\<exists>t. uartputc 65 (demo_run 0x80020000 (\<lambda>_ _. 0)) = Ok () t \<and> uart_out t @ uq.queue (kuart t) = [65]"
proof -
  let ?s = "demo_run 0x80020000 (\<lambda>_ _. 0)"
  have q: "cpu_ok ?s" "noff (cpus ?s (hart ?s)) = 0" "freelk UartLock ?s" "plocks None ?s"
    using quiet_demo_run[of "0x80020000" "\<lambda>_ _. 0"] by (simp_all add: plocks_def)
  have u: "\<not> panicked ?s" "uq.used (kuart ?s) = 0" "uart_out ?s = []"
    by (simp_all add: demo_run_def setcur_def boot_state_def uq.used_def)
  have k: "uq.ok (kuart ?s)" "uq.queue (kuart ?s) = []" using u(2) by (simp_all add: uq.ok_def uq.queue_def)
  have "0 < NPROC" "0 < UART_TX_BUF_SIZE" by (simp_all add: NPROC_def UART_TX_BUF_SIZE_def)
  then show ?thesis using uartputc_sends_in_order[OF q quiet_demo_run(2) _ u(1) k(1), of 65] u k(2) by auto
qed

text \<open>
  C12: the console's interrupt handler is a line editor. For every character but \<open>^P\<close>, which lists the processes, \<open>consoleintr\<close> returns and does
  to the bytes ready for readers and to the line being edited exactly what the abstract editor does: a character is appended, a return is
  stored as a newline, a backspace takes the last character back, \<open>^U\<close> the whole line, and a newline, \<open>^D\<close> or a full buffer hands the line to
  the readers; at most 128 bytes are kept, and characters are dropped when they would not fit. The buffer stays well formed although its three
  counters wrap around.
\<close>

theorem consoleintr_edits_line:
  assumes s: "cpu_ok s" "freelk ConsLock s" "plocks (curproc s) s" "\<not> panicked s" "384 \<le> uart_room s" and c: "cons_ok (kcons s)" and ch: "ch \<noteq> 16"
  shows "\<exists>t. consoleintr ch s = Ok () t \<and> cons_ok (kcons t) \<and> freelk ConsLock t \<and>
    (ready (kcons t), pending (kcons t)) = edit ch (ready (kcons s), pending (kcons s))"
proof -
  let ?c = "kcons s"
  have echo: "consputc x (acq ConsLock (s\<lparr>kcons := d\<rparr>)) = Ok () (acq ConsLock (echo (case x of None \<Rightarrow> [8, 32, 8] | Some b \<Rightarrow> [b]) (s\<lparr>kcons := d\<rparr>)))" for x d
    using s consputc_eq[of "acq ConsLock (s\<lparr>kcons := d\<rparr>)"] by (cases x) simp_all
  have self: "s\<lparr>kcons := ?c\<rparr> = s" by simp
  have len: "length (ready ?c) + length (pending ?c) = cq.used ?c" "cq.used ?c \<le> 128" using cons_lengths[OF c] by (simp_all add: INPUT_BUF_def)
  consider (kill_ch) "ch = 21" | (back_ch) "ch = 8 \<or> ch = 127" | (drop_ch) "ch \<notin> {8, 21, 127}" "ch = 0 \<or> cq.used ?c = INPUT_BUF"
    | (type_ch) "ch \<notin> {0, 8, 21, 127}" "cq.used ?c < INPUT_BUF" using len(2) by (force simp: INPUT_BUF_def)
  then show ?thesis
  proof cases
    case kill_ch
    have n: "length (pending ?c) < unat (cons_e ?c - cons_w ?c) + 1"
    proof -
      have "unat (cons_e ?c - cons_w ?c) = cq.used ?c - c_split ?c"
      proof -
        have "cons_e ?c - cons_w ?c = (cons_e ?c - cons_r ?c) - (cons_w ?c - cons_r ?c)" by simp
        moreover have "cons_w ?c - cons_r ?c \<le> cons_e ?c - cons_r ?c" using c by (simp add: cons_ok_def c_split_def cq.used_def word_le_nat_alt)
        ultimately show ?thesis by (metis unat_sub cq.used_def c_split_def)
      qed
      then show ?thesis by (simp add: pending_def)
    qed
    obtain c' where "loopf (unat (cons_e ?c - cons_w ?c) + 1) kill_line_one () (acq ConsLock s) =
        Ok () (acq ConsLock (echo (rubout (length (pending ?c))) (s\<lparr>kcons := c'\<rparr>)))" "cons_ok c'" "ready c' = ready ?c" "pending c' = []"
      using kill_line[OF c _ s(4,1) n, of ConsLock] s(5) len by auto
    then show ?thesis using kill_ch s by (simp add: consoleintr_def kmon ctrl_codes edit_def del: loopf.simps)
  next
    case back_ch
    then have e: "edit ch (r, p) = (r, butlast p)" for r p by (auto simp: edit_def)
    show ?thesis
    proof (cases "cons_e ?c = cons_w ?c")
      case True
      then show ?thesis using back_ch c s pending_Nil[OF c] unfolding e by (auto simp: consoleintr_def kmon ctrl_codes)
    next
      case False
      note U = unpush_pending[OF c False]
      show ?thesis using back_ch s False U(2,3) arg_cong[OF U(1), of butlast] echo[of None "c_unpush ?c"] unfolding e
        by (auto simp: consoleintr_def setcons_def kmon ctrl_codes c_unpush_def)
    qed
  next
    case drop_ch
    then have e: "edit ch (ready ?c, pending ?c) = (ready ?c, pending ?c)" using len by (auto simp: edit_def INPUT_BUF_def)
    have "ch = 0 \<or> \<not> cons_e ?c - cons_r ?c < of_nat INPUT_BUF" using drop_ch(2) cons_free[of ?c] by auto
    then show ?thesis using drop_ch(1) ch c s unfolding e by (auto simp: consoleintr_def kmon ctrl_codes)
  next
    case type_ch
    let ?x = "if ch = 13 then 10 else ch"
    let ?d = "c_push ?x ?c"
    let ?e = "if ?x = 10 \<or> ?x = 4 \<or> cons_e ?d = cons_r ?d + of_nat INPUT_BUF then ?d\<lparr>cons_w := cons_e ?d\<rparr> else ?d"
    have x: "?x \<notin> {0, 8, 13, 21, 127}" using type_ch(1) by auto
    have "cons_ok ?e" "(ready ?e, pending ?e) = edit ch (ready ?c, pending ?c)"
      using type_char[OF c type_ch(2) x] edit_return by (auto split: if_splits)
    moreover have "consoleintr ch s = Ok () (sync ((echo [?x] s)\<lparr>kcons := ?e,
        procs := (if ?x = 10 \<or> ?x = 4 \<or> cons_e ?d = cons_r ?d + of_nat INPUT_BUF then wake_all ConsRChan (curproc s) (procs s) else procs s)\<rparr>))"
      using type_ch ch s echo[of "Some ?x" ?c, unfolded self] cons_free[of ?c]
      by (auto simp: consoleintr_def setcons_def kmon ctrl_codes Let_def c_push_def echo_def)
    ultimately show ?thesis using s(2) by auto
  qed
qed

theorem consoleintr_edits_line_witness:
  "\<exists>t. consoleintr 97 (demo_run 0x80020000 (\<lambda>_ _. 0)) = Ok () t \<and> ready (kcons t) = [] \<and> pending (kcons t) = [97]"
proof -
  let ?s = "demo_run 0x80020000 (\<lambda>_ _. 0)"
  have q: "cpu_ok ?s" "freelk ConsLock ?s" "plocks (curproc ?s) ?s"
    using quiet_demo_run[of "0x80020000" "\<lambda>_ _. 0"] by (simp_all add: plocks_def)
  have u: "\<not> panicked ?s" "384 \<le> uart_room ?s" "cons_r (kcons ?s) = 0" "cons_w (kcons ?s) = 0" "cons_e (kcons ?s) = 0"
    by (simp_all add: demo_run_def setcur_def boot_state_def)
  have "cq.queue (kcons ?s) = []" "cq.used (kcons ?s) = 0" "c_split (kcons ?s) = 0" using u(3-5) by (simp_all add: cq.queue_def cq.used_def c_split_def)
  then have k: "cons_ok (kcons ?s)" "ready (kcons ?s) = []" "pending (kcons ?s) = []"
    by (simp_all add: cons_ok_def ready_def pending_def cq.ok_def)
  show ?thesis using consoleintr_edits_line[OF q u(1,2) k(1), of 97] by (auto simp: k(2,3) edit_def Let_def)
qed

end
