(* ===== verification/Sleeplock.thy ===== *)
theory Sleeplock
  imports Sched
begin

text \<open>
  Sleep locks (\<^verbatim>\<open>sleeplock.c\<close>). A thread that finds the lock taken sleeps on it with the outcome \<open>Swtch\<close>, and
  tests it again when it is resumed.
\<close>

section \<open>The code\<close>

definition setsl :: "slid \<Rightarrow> (sleeplock \<Rightarrow> sleeplock) \<Rightarrow> unit kernel" where
  "setsl lk f = modify (\<lambda>s. s\<lparr>slocks := (slocks s)(lk := f (slocks s lk))\<rparr>)"

definition initsleeplock :: "slid \<Rightarrow> string \<Rightarrow> unit kernel" where
  "initsleeplock lk name =
     thn (initlock (SleepLk lk) ''sleep lock'')
     (setsl lk (\<lambda>l. l\<lparr>sl_name := name, sl_locked := False, sl_pid := 0\<rparr>))"

definition my_pid :: "int kernel" where
  "my_pid = bnd myproc (\<lambda>mp. bnd (deref mp) (\<lambda>p. bnd (getp p) (\<lambda>q. ret (p_pid q))))"

text \<open>The loop of \<open>acquiresleep\<close>, entered with the lock's spin lock held.\<close>

definition acquiresleep_loop :: "slid \<Rightarrow> unit kernel" where
  "acquiresleep_loop lk =
     bnd (gets (\<lambda>s. sl_locked (slocks s lk))) (\<lambda>taken.
     if taken then sleep (SleepChan lk) (SleepLk lk) else
     thn (setsl lk (\<lambda>l. l\<lparr>sl_locked := True\<rparr>)) (
     bnd my_pid (\<lambda>pid.
     thn (setsl lk (\<lambda>l. l\<lparr>sl_pid := pid\<rparr>))
     (release (SleepLk lk)))))"

definition acquiresleep :: "slid \<Rightarrow> unit kernel" where
  "acquiresleep lk = thn (acquire (SleepLk lk)) (acquiresleep_loop lk)"

definition acquiresleep_resume :: "nat \<Rightarrow> slid \<Rightarrow> unit kernel" where
  "acquiresleep_resume p lk = thn (sleep_resume p (SleepLk lk)) (acquiresleep_loop lk)"

definition releasesleep :: "slid \<Rightarrow> unit kernel" where
  "releasesleep lk =
     thn (acquire (SleepLk lk)) (
     thn (setsl lk (\<lambda>l. l\<lparr>sl_locked := False, sl_pid := 0\<rparr>)) (
     thn (wakeup (SleepChan lk))
     (release (SleepLk lk))))"

definition holdingsleep :: "slid \<Rightarrow> bool kernel" where
  "holdingsleep lk =
     thn (acquire (SleepLk lk)) (
     bnd (gets (\<lambda>s. slocks s lk)) (\<lambda>l.
     bnd (if sl_locked l then bnd my_pid (\<lambda>pid. ret (sl_pid l = pid)) else ret False) (\<lambda>r.
     thn (release (SleepLk lk)) (ret r))))"

section \<open>Behaviour of a thread outside critical sections\<close>

definition take_sl :: "slid \<Rightarrow> kstate \<Rightarrow> kstate" where
  "take_sl lk s = s\<lparr>slocks := (slocks s)(lk := (slocks s lk)\<lparr>sl_locked := True, sl_pid := mypid s\<rparr>)\<rparr>"

definition drop_sl :: "slid \<Rightarrow> kstate \<Rightarrow> kstate" where
  "drop_sl lk s = s\<lparr>slocks := (slocks s)(lk := (slocks s lk)\<lparr>sl_locked := False, sl_pid := 0\<rparr>)\<rparr>"

definition holds_sl :: "slid \<Rightarrow> kstate \<Rightarrow> bool" where
  "holds_sl lk s = (sl_locked (slocks s lk) \<and> sl_pid (slocks s lk) = mypid s)"

lemma my_pid_eq: "cpu_ok s \<Longrightarrow> curproc s = Some p \<Longrightarrow> my_pid s = Ok (mypid s) (sync s)"
  by (simp add: my_pid_def kmon getp_def mypid_def)

lemma acquiresleep_free:
  assumes "quiet s" "\<not> sl_locked (slocks s lk)"
  shows "acquiresleep lk s = Ok () (sync (take_sl lk s))"
  using assms(1) by (rule quietE)
    (use assms in \<open>simp add: acquiresleep_def acquiresleep_loop_def kmon setsl_def my_pid_eq take_sl_def\<close>)

lemma acquiresleep_taken:
  assumes "quiet s" "sl_locked (slocks s lk)" "curproc s = Some p"
  shows "acquiresleep lk s = Swtch (acq (ProcLock p) (s\<lparr>procs := (procs s)(p :=
     (procs s p)\<lparr>p_chan := SleepChan lk, p_state := SLEEPING, p_intena := sie s\<rparr>)\<rparr>))"
  using assms by (simp add: acquiresleep_def acquiresleep_loop_def kmon sleep_eq)

lemma releasesleep_wakes:
  assumes "cpu_ok s" "plocks (curproc s) s" "freelk (SleepLk lk) s"
  shows "releasesleep lk s = Ok () (sync ((drop_sl lk s)\<lparr>procs := wake_all (SleepChan lk) (curproc s) (procs s)\<rparr>))"
  using assms by (simp add: releasesleep_def kmon setsl_def drop_sl_def)

lemma releasesleep_quiet: "quiet s \<Longrightarrow> releasesleep lk s = Ok () (sync (drop_sl lk s))"
  by (simp add: releasesleep_wakes) (simp add: drop_sl_def)

lemma holdingsleep_quiet:
  assumes "quiet s" shows "holdingsleep lk s = Ok (holds_sl lk s) (sync s)"
  using assms by (rule quietE) (use assms in \<open>simp add: holdingsleep_def kmon my_pid_eq holds_sl_def\<close>)

section \<open>Theorems\<close>

text \<open>
  C24: A free sleep lock is taken at once, and the caller then holds it. On a taken lock the caller is put to sleep on the
  lock with its spin lock released, and the holder's \<open>releasesleep\<close> makes exactly that sleeper runnable again,
  so the wakeup is not lost.
\<close>

theorem acquiresleep_takes_or_sleeps:
  assumes "quiet s" "curproc s = Some p"
  shows "(\<not> sl_locked (slocks s lk) \<longrightarrow> (\<exists>t. acquiresleep lk s = Ok () t \<and> holdingsleep lk t = Ok True t)) \<and>
    (sl_locked (slocks s lk) \<longrightarrow> (\<exists>t u v. acquiresleep lk s = Swtch t \<and> scheduler_back p t = Ok () u \<and>
       freelk (SleepLk lk) u \<and> p_state (procs u p) = SLEEPING \<and>
       releasesleep lk u = Ok () v \<and> \<not> sl_locked (slocks v lk) \<and>
       procs v = (procs u)(p := (procs u p)\<lparr>p_state := RUNNABLE\<rparr>)))"
proof (intro conjI impI)
  assume "\<not> sl_locked (slocks s lk)"
  with assms show "\<exists>t. acquiresleep lk s = Ok () t \<and> holdingsleep lk t = Ok True t"
    by (auto simp: acquiresleep_free holdingsleep_quiet take_sl_def holds_sl_def)
next
  assume taken: "sl_locked (slocks s lk)"
  let ?s = "s\<lparr>procs := (procs s)(p := (procs s p)\<lparr>p_chan := SleepChan lk, p_state := SLEEPING, p_intena := sie s\<rparr>)\<rparr>"
  have u: "scheduler_back p (acq (ProcLock p) ?s) = Ok () (sync (setcur None ?s))"
    using assms by (simp add: scheduler_back_eq)
  have v: "releasesleep lk (sync (setcur None ?s))
      = Ok () (sync ((drop_sl lk (sync (setcur None ?s)))\<lparr>procs := wake_all (SleepChan lk) None (procs ?s)\<rparr>))"
    using assms(1) by (subst releasesleep_wakes) simp_all
  have w: "wake_all (SleepChan lk) None (procs ?s) = (procs ?s)(p := (procs ?s p)\<lparr>p_state := RUNNABLE\<rparr>)"
    using quiet_wake_self[OF assms] by simp
  show "\<exists>t u v. acquiresleep lk s = Swtch t \<and> scheduler_back p t = Ok () u \<and>
       freelk (SleepLk lk) u \<and> p_state (procs u p) = SLEEPING \<and>
       releasesleep lk u = Ok () v \<and> \<not> sl_locked (slocks v lk) \<and>
       procs v = (procs u)(p := (procs u p)\<lparr>p_state := RUNNABLE\<rparr>)"
    using acquiresleep_taken[OF assms(1) taken assms(2)] u v w assms(1)
    by (intro exI conjI) (assumption | simp add: drop_sl_def)+
qed

theorem acquiresleep_takes_or_sleeps_witness:
  "\<exists>t. acquiresleep (InodeSL 3) (demo_run 0 (\<lambda>_ _. 0)) = Ok () t \<and> holdingsleep (InodeSL 3) t = Ok True t"
proof -
  have "\<not> sl_locked (slocks (demo_run 0 (\<lambda>_ _. 0)) (InodeSL 3))"
    by (simp add: demo_run_def) (simp add: boot_state_def)
  with acquiresleep_takes_or_sleeps[OF quiet_demo_run, where lk="InodeSL 3"] show ?thesis by blast
qed

end
