(* ===== verification/Virtio.thy ===== *)
theory Virtio
  imports Sleeplock
begin

text \<open>
  The disk driver (\<^verbatim>\<open>virtio_disk.c\<close>). The device itself is the function \<open>vdev\<close> of the state; what the driver
  relies on is \<open>virtio_contract\<close>: a device that is given one well-formed request carries it out, reports status 0
  and appends the request to the used ring.
\<close>

section \<open>virtio.h\<close>

definition VIRTIO_MMIO_MAGIC_VALUE :: u64 where "VIRTIO_MMIO_MAGIC_VALUE = 0x000"
definition VIRTIO_MMIO_VERSION :: u64 where "VIRTIO_MMIO_VERSION = 0x004"
definition VIRTIO_MMIO_DEVICE_ID :: u64 where "VIRTIO_MMIO_DEVICE_ID = 0x008"
definition VIRTIO_MMIO_VENDOR_ID :: u64 where "VIRTIO_MMIO_VENDOR_ID = 0x00c"
definition VIRTIO_MMIO_DEVICE_FEATURES :: u64 where "VIRTIO_MMIO_DEVICE_FEATURES = 0x010"
definition VIRTIO_MMIO_DRIVER_FEATURES :: u64 where "VIRTIO_MMIO_DRIVER_FEATURES = 0x020"
definition VIRTIO_MMIO_GUEST_PAGE_SIZE :: u64 where "VIRTIO_MMIO_GUEST_PAGE_SIZE = 0x028"
definition VIRTIO_MMIO_QUEUE_SEL :: u64 where "VIRTIO_MMIO_QUEUE_SEL = 0x030"
definition VIRTIO_MMIO_QUEUE_NUM_MAX :: u64 where "VIRTIO_MMIO_QUEUE_NUM_MAX = 0x034"
definition VIRTIO_MMIO_QUEUE_NUM :: u64 where "VIRTIO_MMIO_QUEUE_NUM = 0x038"
definition VIRTIO_MMIO_QUEUE_PFN :: u64 where "VIRTIO_MMIO_QUEUE_PFN = 0x040"
definition VIRTIO_MMIO_QUEUE_NOTIFY :: u64 where "VIRTIO_MMIO_QUEUE_NOTIFY = 0x050"
definition VIRTIO_MMIO_INTERRUPT_STATUS :: u64 where "VIRTIO_MMIO_INTERRUPT_STATUS = 0x060"
definition VIRTIO_MMIO_INTERRUPT_ACK :: u64 where "VIRTIO_MMIO_INTERRUPT_ACK = 0x064"
definition VIRTIO_MMIO_STATUS :: u64 where "VIRTIO_MMIO_STATUS = 0x070"

definition VIRTIO_CONFIG_S_ACKNOWLEDGE :: u32 where "VIRTIO_CONFIG_S_ACKNOWLEDGE = 1"
definition VIRTIO_CONFIG_S_DRIVER :: u32 where "VIRTIO_CONFIG_S_DRIVER = 2"
definition VIRTIO_CONFIG_S_DRIVER_OK :: u32 where "VIRTIO_CONFIG_S_DRIVER_OK = 4"
definition VIRTIO_CONFIG_S_FEATURES_OK :: u32 where "VIRTIO_CONFIG_S_FEATURES_OK = 8"

definition VRING_DESC_F_NEXT :: u16 where "VRING_DESC_F_NEXT = 1"
definition VRING_DESC_F_WRITE :: u16 where "VRING_DESC_F_WRITE = 2"
definition VIRTIO_BLK_T_IN :: u32 where "VIRTIO_BLK_T_IN = 0"
definition VIRTIO_BLK_T_OUT :: u32 where "VIRTIO_BLK_T_OUT = 1"

lemmas vring_defs = VRING_DESC_F_NEXT_def VRING_DESC_F_WRITE_def VIRTIO_BLK_T_IN_def VIRTIO_BLK_T_OUT_def

section \<open>Initialisation\<close>

definition rdR :: "u64 \<Rightarrow> u32 kernel" where
  "rdR r = gets (\<lambda>s. ucast (mmio_rd s (VIRTIO0 + r)))"

definition wrR :: "u64 \<Rightarrow> u32 \<Rightarrow> unit kernel" where
  "wrR r v = modify (\<lambda>s. s\<lparr>mmio := mmio s @ [(VIRTIO0 + r, ucast v)]\<rparr>)"

definition setvd :: "(vdisk \<Rightarrow> vdisk) \<Rightarrow> unit kernel" where
  "setvd f = modify (\<lambda>s. s\<lparr>vdisk := f (vdisk s)\<rparr>)"

text \<open>
  The bits \<open>VIRTIO_BLK_F_RO\<close>, \<open>SCSI\<close>, \<open>CONFIG_WCE\<close>, \<open>MQ\<close>, \<open>VIRTIO_F_ANY_LAYOUT\<close>, \<open>VIRTIO_RING_F_EVENT_IDX\<close> and
  \<open>VIRTIO_RING_F_INDIRECT_DESC\<close> of the feature word are cleared, in this order.
\<close>

definition negotiate :: "u32 \<Rightarrow> u32" where
  "negotiate features = fold (\<lambda>k f. f AND NOT (push_bit k 1)) [5, 7, 11, 12, 27, 29, 28] features"

definition virtio_disk_init :: "unit kernel" where
  "virtio_disk_init =
     thn (initlock VdiskLock ''virtio_disk'') (
     bnd (rdR VIRTIO_MMIO_MAGIC_VALUE) (\<lambda>magic.
     bnd (rdR VIRTIO_MMIO_VERSION) (\<lambda>version.
     bnd (rdR VIRTIO_MMIO_DEVICE_ID) (\<lambda>device.
     bnd (rdR VIRTIO_MMIO_VENDOR_ID) (\<lambda>vendor.
     if magic \<noteq> 0x74726976 \<or> version \<noteq> 1 \<or> device \<noteq> 2 \<or> vendor \<noteq> 0x554d4551
     then panic ''could not find virtio disk'' else
     let status = VIRTIO_CONFIG_S_ACKNOWLEDGE in
     thn (wrR VIRTIO_MMIO_STATUS status) (
     let status = status OR VIRTIO_CONFIG_S_DRIVER in
     thn (wrR VIRTIO_MMIO_STATUS status) (
     bnd (rdR VIRTIO_MMIO_DEVICE_FEATURES) (\<lambda>features.
     thn (wrR VIRTIO_MMIO_DRIVER_FEATURES (negotiate features)) (
     let status = status OR VIRTIO_CONFIG_S_FEATURES_OK in
     thn (wrR VIRTIO_MMIO_STATUS status) (
     let status = status OR VIRTIO_CONFIG_S_DRIVER_OK in
     thn (wrR VIRTIO_MMIO_STATUS status) (
     thn (wrR VIRTIO_MMIO_GUEST_PAGE_SIZE (ucast PGSIZE)) (
     thn (wrR VIRTIO_MMIO_QUEUE_SEL 0) (
     bnd (rdR VIRTIO_MMIO_QUEUE_NUM_MAX) (\<lambda>mx.
     if mx = 0 then panic ''virtio disk has no queue 0'' else
     if mx < of_nat NUM then panic ''virtio disk max queue too short'' else
     thn (wrR VIRTIO_MMIO_QUEUE_NUM (of_nat NUM)) (
     thn (setvd (\<lambda>v. v\<lparr>vd_desc := vd_desc zero_vdisk, vd_avail_idx := 0, vd_avail_ring := (\<lambda>_. 0),
       vd_dev_idx := 0, vd_used_ring := (\<lambda>_. 0)\<rparr>)) (
     bnd (gets (\<lambda>s. ksym s ''disk.pages'')) (\<lambda>pages.
     thn (wrR VIRTIO_MMIO_QUEUE_PFN (ucast (drop_bit PGSHIFT pages))) (
     foreach [0..<NUM] (\<lambda>i. setvd (\<lambda>v. v\<lparr>vd_free := (vd_free v)(i := True)\<rparr>))))))))))))))))))))"

section \<open>Descriptors\<close>

definition alloc_desc_one :: "nat \<Rightarrow> int option kernel" where
  "alloc_desc_one i =
     bnd (gets (\<lambda>s. vd_free (vdisk s) i)) (\<lambda>f.
     if f then thn (setvd (\<lambda>v. v\<lparr>vd_free := (vd_free v)(i := False)\<rparr>)) (ret (Some (int i)))
     else ret None)"

definition alloc_desc :: "int kernel" where
  "alloc_desc = bnd (forl [0..<NUM] alloc_desc_one) (\<lambda>r. ret (case r of Some i \<Rightarrow> i | None \<Rightarrow> -1))"

definition free_desc :: "nat \<Rightarrow> unit kernel" where
  "free_desc i =
     (if NUM \<le> i then panic ''free_desc 1'' else
     bnd (gets (\<lambda>s. vd_free (vdisk s) i)) (\<lambda>f.
     if f then panic ''free_desc 2'' else
     thn (setvd (\<lambda>v. v\<lparr>vd_desc := (vd_desc v)(i := \<lparr>d_addr = DNull, d_len = 0, d_flags = 0, d_next = 0\<rparr>)\<rparr>)) (
     thn (setvd (\<lambda>v. v\<lparr>vd_free := (vd_free v)(i := True)\<rparr>))
     (wakeup DiskFreeChan))))"

text \<open>
  Every round of \<open>free_chain\<close> frees a descriptor that was in use, or panics, so \<open>NUM + 1\<close> rounds are enough.
\<close>

definition free_chain_one :: "nat \<Rightarrow> (nat + unit) kernel" where
  "free_chain_one i =
     bnd (gets (\<lambda>s. vd_desc (vdisk s) i)) (\<lambda>d.
     thn (free_desc i) (
     ret (if d_flags d AND VRING_DESC_F_NEXT \<noteq> 0 then Inl (d_next d) else Inr ())))"

definition free_chain :: "nat \<Rightarrow> unit kernel" where
  "free_chain = loopf (NUM + 1) free_chain_one"

definition alloc3_desc :: "(nat \<times> nat \<times> nat) option kernel" where
  "alloc3_desc =
     bnd alloc_desc (\<lambda>i0. if i0 < 0 then ret None else
     bnd alloc_desc (\<lambda>i1. if i1 < 0 then thn (free_desc (nat i0)) (ret None) else
     bnd alloc_desc (\<lambda>i2. if i2 < 0 then thn (free_desc (nat i0)) (thn (free_desc (nat i1)) (ret None)) else
     ret (Some (nat i0, nat i1, nat i2)))))"

section \<open>The interrupt handler\<close>

text \<open>The counters are 16 bits wide, so at most \<open>2 ^ 16 - 1\<close> entries of the used ring are outstanding.\<close>

definition virtio_disk_intr_one :: "unit \<Rightarrow> (unit + unit) kernel" where
  "virtio_disk_intr_one _ =
     bnd (gets vdisk) (\<lambda>v.
     if vd_used_idx v = vd_dev_idx v then ret (Inr ()) else
     let id = vd_used_ring v (unat (vd_used_idx v) mod NUM) in
     if vd_info_status v id \<noteq> 0 then panic ''virtio_disk_intr status'' else
     bnd (deref (vd_info_b v id)) (\<lambda>b.
     thn (modify (\<lambda>s. s\<lparr>bufs := (bufs s)(b := (bufs s b)\<lparr>b_disk := False\<rparr>)\<rparr>)) (
     thn (wakeup (BufChan b)) (
     thn (setvd (\<lambda>v. v\<lparr>vd_used_idx := vd_used_idx v + 1\<rparr>))
     (ret (Inl ()))))))"

definition virtio_disk_intr :: "unit kernel" where
  "virtio_disk_intr =
     thn (acquire VdiskLock) (
     bnd (rdR VIRTIO_MMIO_INTERRUPT_STATUS) (\<lambda>st.
     thn (wrR VIRTIO_MMIO_INTERRUPT_ACK (st AND 3)) (
     thn (loopf (2 ^ 16) virtio_disk_intr_one ())
     (release VdiskLock))))"

section \<open>Disk requests\<close>

definition setdesc :: "nat \<Rightarrow> virtq_desc \<Rightarrow> unit kernel" where
  "setdesc i d = setvd (\<lambda>v. v\<lparr>vd_desc := (vd_desc v)(i := d)\<rparr>)"

text \<open>
  What happens on the hart while thread \<open>p\<close> waits for the disk and nothing else is runnable: the scheduler gets
  control back and enables interrupts, the device carries out the requests and interrupts, the trap disables interrupts
  around the handler, and the scheduler picks \<open>p\<close> again.
\<close>

definition device_run :: "unit kernel" where
  "device_run = modify (\<lambda>s. case vdev s (vdisk s) (\<lambda>b. b_data (bufs s b)) (disk_img s) of
     (v, d, img, w) \<Rightarrow> s\<lparr>vdisk := v, bufs := (\<lambda>b. (bufs s b)\<lparr>b_data := d b\<rparr>), disk_img := img, disk_hist := disk_hist s @ w\<rparr>)"

definition disk_idle :: "nat \<Rightarrow> unit kernel" where
  "disk_idle p =
     thn (scheduler_back p) (
     thn intr_on (
     thn device_run (
     thn intr_off (
     thn virtio_disk_intr (
     thn intr_on (
     bnd (scheduler_pick p) (\<lambda>picked.
     if picked then ret () else hang ''disk'')))))))"

text \<open>
  The loop that waits for \<open>b->disk\<close> to be cleared. One wait lets the device finish every request, so
  the second test ends it.
\<close>

definition disk_wait_one :: "nat \<Rightarrow> unit \<Rightarrow> (unit + unit) kernel" where
  "disk_wait_one b _ =
     bnd (gets (\<lambda>s. b_disk (bufs s b))) (\<lambda>busy.
     if \<not> busy then ret (Inr ()) else
     bnd (gets curproc) (\<lambda>mp. bnd (deref mp) (\<lambda>p.
     thn (onswtch (sleep (BufChan b) VdiskLock) (thn (disk_idle p) (sleep_resume p VdiskLock)))
     (ret (Inl ())))))"

definition virtio_disk_submit :: "nat \<Rightarrow> bool \<Rightarrow> u64 \<Rightarrow> nat \<times> nat \<times> nat \<Rightarrow> unit kernel" where
  "virtio_disk_submit b write sector = (\<lambda>(i0, i1, i2).
     thn (setvd (\<lambda>v. v\<lparr>vd_ops := (vd_ops v)(i0 :=
       \<lparr>r_type = (if write then VIRTIO_BLK_T_OUT else VIRTIO_BLK_T_IN), r_reserved = 0, r_sector = sector\<rparr>)\<rparr>)) (
     thn (setdesc i0 \<lparr>d_addr = DOps i0, d_len = 16, d_flags = VRING_DESC_F_NEXT, d_next = i1\<rparr>) (
     thn (setdesc i1 \<lparr>d_addr = DData b, d_len = of_nat BSIZE,
       d_flags = (if write then 0 else VRING_DESC_F_WRITE) OR VRING_DESC_F_NEXT, d_next = i2\<rparr>) (
     thn (setvd (\<lambda>v. v\<lparr>vd_info_status := (vd_info_status v)(i0 := 0xff)\<rparr>)) (
     thn (setdesc i2 \<lparr>d_addr = DStatus i0, d_len = 1, d_flags = VRING_DESC_F_WRITE, d_next = 0\<rparr>) (
     thn (modify (\<lambda>s. s\<lparr>bufs := (bufs s)(b := (bufs s b)\<lparr>b_disk := True\<rparr>)\<rparr>)) (
     thn (setvd (\<lambda>v. v\<lparr>vd_info_b := (vd_info_b v)(i0 := Some b)\<rparr>)) (
     thn (setvd (\<lambda>v. v\<lparr>vd_avail_ring := (vd_avail_ring v)(unat (vd_avail_idx v) mod NUM := i0)\<rparr>)) (
     thn (setvd (\<lambda>v. v\<lparr>vd_avail_idx := vd_avail_idx v + 1\<rparr>))
     (wrR VIRTIO_MMIO_QUEUE_NOTIFY 0))))))))))"

definition virtio_disk_rw_try :: "nat \<Rightarrow> bool \<Rightarrow> u64 \<Rightarrow> unit kernel" where
  "virtio_disk_rw_try b write sector =
     bnd alloc3_desc (\<lambda>r. case r of
       None \<Rightarrow> sleep DiskFreeChan VdiskLock
     | Some (i0, i1, i2) \<Rightarrow>
         thn (virtio_disk_submit b write sector (i0, i1, i2)) (
         thn (loopf 2 (disk_wait_one b) ()) (
         thn (setvd (\<lambda>v. v\<lparr>vd_info_b := (vd_info_b v)(i0 := None)\<rparr>)) (
         thn (free_chain i0)
         (release VdiskLock)))))"

definition sector_of :: "nat \<Rightarrow> u64" where
  "sector_of blockno = ucast (of_nat blockno * of_nat (BSIZE div 512) :: u32)"

definition virtio_disk_rw :: "nat \<Rightarrow> bool \<Rightarrow> unit kernel" where
  "virtio_disk_rw b write =
     bnd (gets (\<lambda>s. b_blockno (bufs s b))) (\<lambda>bn.
     thn (acquire VdiskLock)
     (virtio_disk_rw_try b write (sector_of bn)))"

definition virtio_disk_rw_resume :: "nat \<Rightarrow> nat \<Rightarrow> bool \<Rightarrow> unit kernel" where
  "virtio_disk_rw_resume p b write =
     bnd (gets (\<lambda>s. b_blockno (bufs s b))) (\<lambda>bn.
     thn (sleep_resume p VdiskLock)
     (virtio_disk_rw_try b write (sector_of bn)))"

lemmas vd_access = setvd_def setdesc_def rdR_def wrR_def

section \<open>The device\<close>

text \<open>
  \<open>blk_request v h b w bn\<close>: the chain of descriptors that starts at \<open>h\<close> asks for a transfer of block \<open>bn\<close> from
  (\<open>w\<close>) or to the data of buffer \<open>b\<close>, with the status reported in \<open>info[h]\<close>. Sectors have 512 bytes.
\<close>

definition blk_request :: "vdisk \<Rightarrow> nat \<Rightarrow> nat \<Rightarrow> bool \<Rightarrow> nat \<Rightarrow> bool" where
  "blk_request v h b w bn =
     (let d0 = vd_desc v h; d1 = vd_desc v (d_next d0); d2 = vd_desc v (d_next d1) in
      d_addr d0 = DOps h \<and> d_flags d0 AND VRING_DESC_F_NEXT \<noteq> 0 \<and>
      d_addr d1 = DData b \<and> d_flags d1 AND VRING_DESC_F_NEXT \<noteq> 0 \<and> d_len d1 = of_nat BSIZE \<and>
      (d_flags d1 AND VRING_DESC_F_WRITE \<noteq> 0) = (\<not> w) \<and>
      d_addr d2 = DStatus h \<and> d_flags d2 AND VRING_DESC_F_NEXT = 0 \<and> d_flags d2 AND VRING_DESC_F_WRITE \<noteq> 0 \<and>
      r_type (vd_ops v h) = (if w then VIRTIO_BLK_T_OUT else VIRTIO_BLK_T_IN) \<and>
      r_sector (vd_ops v h) = of_nat (2 * bn))"

definition virtio_contract :: "blkdev \<Rightarrow> bool" where
  "virtio_contract dev = (\<forall>v bd img b w bn.
     vd_avail_idx v = vd_dev_idx v + 1 \<longrightarrow> 2 * bn < 2 ^ 32 \<longrightarrow>
     (let h = vd_avail_ring v (unat (vd_dev_idx v) mod NUM) in
      blk_request v h b w bn \<longrightarrow>
      dev v bd img =
       (v\<lparr>vd_dev_idx := vd_dev_idx v + 1, vd_used_ring := (vd_used_ring v)(unat (vd_dev_idx v) mod NUM := h),
          vd_info_status := (vd_info_status v)(h := 0)\<rparr>,
        if w then bd else bd(b := img bn),
        if w then img(bn := bd b) else img,
        if w then [(bn, bd b)] else [])))"

text \<open>A concrete device that meets the contract: it carries out the request at the head of the available ring.\<close>

definition blk_model :: blkdev where
  "blk_model v bd img =
     (let h = vd_avail_ring v (unat (vd_dev_idx v) mod NUM);
          d1 = vd_desc v (d_next (vd_desc v h));
          bn = unat (r_sector (vd_ops v h)) div 2;
          w = (r_type (vd_ops v h) = VIRTIO_BLK_T_OUT);
          v' = v\<lparr>vd_dev_idx := vd_dev_idx v + 1, vd_used_ring := (vd_used_ring v)(unat (vd_dev_idx v) mod NUM := h),
             vd_info_status := (vd_info_status v)(h := 0)\<rparr>
      in if vd_avail_idx v = vd_dev_idx v then (v, bd, img, []) else
         case d_addr d1 of
           DData b \<Rightarrow> if w then (v', bd, img(bn := bd b), [(bn, bd b)]) else (v', bd(b := img bn), img, [])
         | _ \<Rightarrow> (v, bd, img, []))"

lemma blk_model_contract: "virtio_contract blk_model"
proof -
  have "unat (of_nat (2 * bn) :: u64) div 2 = bn" if "2 * bn < 2 ^ 32" for bn
    using that by (simp add: unat_of_nat del: of_nat_mult)
  moreover have "VIRTIO_BLK_T_IN \<noteq> VIRTIO_BLK_T_OUT" by (simp add: vring_defs)
  moreover have "vd_dev_idx v + 1 \<noteq> vd_dev_idx v" for v by simp
  ultimately show ?thesis
    unfolding virtio_contract_def Let_def blk_request_def blk_model_def by (auto simp del: of_nat_mult)
qed

section \<open>One request\<close>

text \<open>\<open>vd_idle v\<close>: no request is in progress.\<close>

definition vd_idle :: "vdisk \<Rightarrow> bool" where
  "vd_idle v = ((\<forall>i<NUM. vd_free v i) \<and> vd_avail_idx v = vd_dev_idx v \<and> vd_used_idx v = vd_dev_idx v)"

definition disk_ok :: "kstate \<Rightarrow> bool" where
  "disk_ok s = (vd_idle (vdisk s) \<and> virtio_contract (vdev s))"

lemma NUM_upt: "[0..<NUM] = [0, 1, 2, 3, 4, 5, 6, 7]"
  by (simp add: NUM_def upt_rec)

lemma alloc3_idle:
  assumes "vd_idle (vdisk s)"
  shows "alloc3_desc s = Ok (Some (0, 1, 2)) (s\<lparr>vdisk := (vdisk s)\<lparr>vd_free := (vd_free (vdisk s))(0 := False, 1 := False, 2 := False)\<rparr>\<rparr>)"
proof -
  have "vd_free (vdisk s) 0" "vd_free (vdisk s) 1" "vd_free (vdisk s) 2" "vd_free (vdisk s) (Suc 0)"
    using assms by (simp_all add: vd_idle_def NUM_def)
  then show ?thesis
    by (simp add: alloc3_desc_def alloc_desc_def alloc_desc_one_def NUM_upt vd_access kmon)
qed

definition submitted :: "nat \<Rightarrow> bool \<Rightarrow> u64 \<Rightarrow> vdisk \<Rightarrow> vdisk" where
  "submitted b w sec v = v\<lparr>
     vd_ops := (vd_ops v)(0 := \<lparr>r_type = (if w then VIRTIO_BLK_T_OUT else VIRTIO_BLK_T_IN), r_reserved = 0, r_sector = sec\<rparr>),
     vd_desc := (vd_desc v)(0 := \<lparr>d_addr = DOps 0, d_len = 16, d_flags = VRING_DESC_F_NEXT, d_next = 1\<rparr>,
       1 := \<lparr>d_addr = DData b, d_len = of_nat BSIZE, d_flags = (if w then 0 else VRING_DESC_F_WRITE) OR VRING_DESC_F_NEXT, d_next = 2\<rparr>,
       2 := \<lparr>d_addr = DStatus 0, d_len = 1, d_flags = VRING_DESC_F_WRITE, d_next = 0\<rparr>),
     vd_info_status := (vd_info_status v)(0 := 0xff),
     vd_info_b := (vd_info_b v)(0 := Some b),
     vd_avail_ring := (vd_avail_ring v)(unat (vd_avail_idx v) mod NUM := 0),
     vd_avail_idx := vd_avail_idx v + 1\<rparr>"

definition notify :: "(u64 \<times> u64)" where
  "notify = (VIRTIO0 + VIRTIO_MMIO_QUEUE_NOTIFY, 0)"

lemma submit_eq:
  "virtio_disk_submit b w sec (0, 1, 2) s = Ok () (s\<lparr>vdisk := submitted b w sec (vdisk s),
     bufs := (bufs s)(b := (bufs s b)\<lparr>b_disk := True\<rparr>), mmio := mmio s @ [notify]\<rparr>)"
  by (auto simp: virtio_disk_submit_def vd_access kmon submitted_def notify_def intro!: kstate.equality vdisk.equality)

lemma submitted_request:
  assumes "2 * bn < 2 ^ 32"
  shows "blk_request (submitted b w (sector_of bn) v) 0 b w bn"
proof -
  have "sector_of bn = of_nat (2 * bn)"
  proof -
    have "unat (of_nat bn * 2 :: u32) = 2 * bn" using assms by (simp add: unat_word_ariths unat_of_nat)
    moreover have "sector_of bn = of_nat (unat (of_nat bn * 2 :: u32))"
      by (simp add: sector_of_def BSIZE_def)
    ultimately show ?thesis by (simp only:)
  qed
  then show ?thesis
    by (auto simp: blk_request_def submitted_def vring_defs Let_def)
qed

definition dev_done :: "vdisk \<Rightarrow> vdisk" where
  "dev_done v = v\<lparr>vd_dev_idx := vd_dev_idx v + 1, vd_used_ring := (vd_used_ring v)(unat (vd_dev_idx v) mod NUM := 0),
     vd_info_status := (vd_info_status v)(0 := 0)\<rparr>"

lemma device_run_eq:
  assumes "virtio_contract (vdev s)" "vd_idle v" "vdisk s = submitted b w (sector_of bn) (v\<lparr>vd_free := f\<rparr>)" "2 * bn < 2 ^ 32"
  shows "device_run s = Ok () (s\<lparr>vdisk := dev_done (vdisk s),
     bufs := (if w then bufs s else (bufs s)(b := (bufs s b)\<lparr>b_data := disk_img s bn\<rparr>)),
     disk_img := (if w then (disk_img s)(bn := b_data (bufs s b)) else disk_img s),
     disk_hist := disk_hist s @ (if w then [(bn, b_data (bufs s b))] else [])\<rparr>)"
proof -
  let ?v = "vdisk s"
  have a: "vd_avail_idx ?v = vd_dev_idx ?v + 1" "vd_avail_ring ?v (unat (vd_dev_idx ?v) mod NUM) = 0"
    using assms(2,3) by (simp_all add: submitted_def vd_idle_def)
  have "blk_request ?v 0 b w bn" using submitted_request[OF assms(4)] assms(3) by metis
  then have "vdev s ?v (\<lambda>b. b_data (bufs s b)) (disk_img s) = (dev_done ?v,
     if w then (\<lambda>b. b_data (bufs s b)) else (\<lambda>b. b_data (bufs s b))(b := disk_img s bn),
     if w then (disk_img s)(bn := b_data (bufs s b)) else disk_img s,
     if w then [(bn, b_data (bufs s b))] else [])"
    using assms(1,4) a unfolding virtio_contract_def Let_def dev_done_def by fastforce
  then show ?thesis by (auto simp: device_run_def kmon fun_eq_iff intro!: kstate.equality buf.equality)
qed

definition ack :: "kstate \<Rightarrow> u64 \<times> u64" where
  "ack s = (VIRTIO0 + VIRTIO_MMIO_INTERRUPT_ACK, ucast (ucast (mmio_rd s (VIRTIO0 + VIRTIO_MMIO_INTERRUPT_STATUS)) AND 3 :: u32))"

lemma virtio_disk_intr_eq:
  assumes "freelk VdiskLock s" "cpu_ok s" "plocks (curproc s) s"
    and "vd_used_idx (vdisk s) + 1 = vd_dev_idx (vdisk s)" "vd_used_ring (vdisk s) (unat (vd_used_idx (vdisk s)) mod NUM) = 0"
    and "vd_info_status (vdisk s) 0 = 0" "vd_info_b (vdisk s) 0 = Some b"
  shows "virtio_disk_intr s = Ok () (sync (s\<lparr>mmio := mmio s @ [ack s],
     bufs := (bufs s)(b := (bufs s b)\<lparr>b_disk := False\<rparr>),
     procs := wake_all (BufChan b) (curproc s) (procs s),
     vdisk := (vdisk s)\<lparr>vd_used_idx := vd_used_idx (vdisk s) + 1\<rparr>\<rparr>))"
proof -
  let ?s = "s\<lparr>mmio := mmio s @ [ack s]\<rparr>"
  let ?t = "?s\<lparr>bufs := (bufs s)(b := (bufs s b)\<lparr>b_disk := False\<rparr>), procs := wake_all (BufChan b) (curproc s) (procs s),
     vdisk := (vdisk s)\<lparr>vd_used_idx := vd_used_idx (vdisk s) + 1\<rparr>\<rparr>"
  have ne: "vd_used_idx (vdisk s) \<noteq> vd_dev_idx (vdisk s)" using assms(4) by (metis add_cancel_left_right zero_neq_one)
  have one: "virtio_disk_intr_one () (acq VdiskLock ?s) = Ok (Inl ()) (acq VdiskLock ?t)"
    using assms ne by (simp add: virtio_disk_intr_one_def kmon Let_def setvd_def)
  have two: "virtio_disk_intr_one () (acq VdiskLock ?t) = Ok (Inr ()) (acq VdiskLock ?t)"
    using assms by (simp add: virtio_disk_intr_one_def kmon)
  have "loopf (Suc (Suc 65534)) virtio_disk_intr_one () (acq VdiskLock ?s) = Ok () (acq VdiskLock ?t)"
    by (simp only: loopf_next[of virtio_disk_intr_one, OF one]
        loopf_exit[of virtio_disk_intr_one, OF two])
  then have "loopf (2 ^ 16) virtio_disk_intr_one () (acq VdiskLock ?s) = Ok () (acq VdiskLock ?t)" by simp
  then show ?thesis
    using assms by (simp add: virtio_disk_intr_def vd_access kmon ack_def)
qed

definition transfer :: "nat \<Rightarrow> bool \<Rightarrow> nat \<Rightarrow> kstate \<Rightarrow> kstate" where
  "transfer b w bn s = s\<lparr>
     bufs := (bufs s)(b := (bufs s b)\<lparr>b_disk := False, b_data := (if w then b_data (bufs s b) else disk_img s bn)\<rparr>),
     disk_img := (if w then (disk_img s)(bn := b_data (bufs s b)) else disk_img s),
     disk_hist := disk_hist s @ (if w then [(bn, b_data (bufs s b))] else [])\<rparr>"

text \<open>The state after the device has carried out the request and its interrupt has been handled.\<close>

definition served :: "nat \<Rightarrow> bool \<Rightarrow> nat \<Rightarrow> kstate \<Rightarrow> kstate" where
  "served b w bn s = (transfer b w bn s)\<lparr>vdisk := (dev_done (vdisk s))\<lparr>vd_used_idx := vd_used_idx (vdisk s) + 1\<rparr>,
     mmio := mmio s @ [ack s]\<rparr>"

lemma device_intr_eq:
  assumes dev: "virtio_contract (vdev s)" "vd_idle v"
      "vdisk s = submitted b w (sector_of bn) (v\<lparr>vd_free := f\<rparr>)" "2 * bn < 2 ^ 32"
    and "freelk VdiskLock s" "noff (cpus s (hart s)) = 0" "plocks (curproc s) s"
  shows "thn device_run (thn intr_off virtio_disk_intr) s
    = Ok () (sync (set_sie False ((served b w bn s)\<lparr>procs := wake_all (BufChan b) (curproc s) (procs s)\<rparr>)))"
proof -
  let ?t = "s\<lparr>vdisk := dev_done (vdisk s),
     bufs := (if w then bufs s else (bufs s)(b := (bufs s b)\<lparr>b_data := disk_img s bn\<rparr>)),
     disk_img := (if w then (disk_img s)(bn := b_data (bufs s b)) else disk_img s),
     disk_hist := disk_hist s @ (if w then [(bn, b_data (bufs s b))] else [])\<rparr>"
  let ?u = "set_sie False ?t"
  have v: "vd_used_idx (vdisk ?u) + 1 = vd_dev_idx (vdisk ?u)" "vd_used_ring (vdisk ?u) (unat (vd_used_idx (vdisk ?u)) mod NUM) = 0"
    "vd_info_status (vdisk ?u) 0 = 0" "vd_info_b (vdisk ?u) 0 = Some b"
    using dev(2,3) by (auto simp: dev_done_def submitted_def vd_idle_def)
  have pre: "freelk VdiskLock ?u" "cpu_ok ?u" "plocks (curproc ?u) ?u" using assms(5-7) by simp_all
  have "?u\<lparr>mmio := mmio ?u @ [ack ?u], bufs := (bufs ?u)(b := (bufs ?u b)\<lparr>b_disk := False\<rparr>),
      procs := wake_all (BufChan b) (curproc ?u) (procs ?u),
      vdisk := (vdisk ?u)\<lparr>vd_used_idx := vd_used_idx (vdisk ?u) + 1\<rparr>\<rparr>
    = set_sie False ((served b w bn s)\<lparr>procs := wake_all (BufChan b) (curproc s) (procs s)\<rparr>)"
    by (auto simp: served_def transfer_def ack_def dev_done_def fun_eq_iff
        intro!: arg_cong[where f="set_sie False"] kstate.equality buf.equality)
  with virtio_disk_intr_eq[OF pre v] have "virtio_disk_intr ?u
    = Ok () (sync (set_sie False ((served b w bn s)\<lparr>procs := wake_all (BufChan b) (curproc s) (procs s)\<rparr>)))" by simp
  then show ?thesis
    using device_run_eq[OF dev] by (simp add: kmon intr_off_eq)
qed

lemma served_select [simp]:
  "hart (served b w bn s) = hart s" "cpus (served b w bn s) = cpus s" "procs (served b w bn s) = procs s"
  "freelk lk (served b w bn s) = freelk lk s" "cpu_ok (served b w bn s) = cpu_ok s" "curproc (served b w bn s) = curproc s"
  "plocks m (served b w bn s) = plocks m s" "quiet (served b w bn s) = quiet s"
  "served b w bn (sync s) = sync (served b w bn s)" "served b w bn (setcur q s) = setcur q (served b w bn s)"
  "served b w bn (set_sie c s) = set_sie c (served b w bn s)"
  "served b w bn (s\<lparr>procs := ps\<rparr>) = (served b w bn s)\<lparr>procs := ps\<rparr>"
  by (simp_all add: served_def transfer_def ack_def)

lemma disk_idle_eq:
  assumes q: "quiet s" "curproc s = Some p" and dev: "virtio_contract (vdev s)" "vd_idle v"
    "vdisk s = submitted b w (sector_of bn) (v\<lparr>vd_free := f\<rparr>)" "2 * bn < 2 ^ 32"
  shows "disk_idle p (acq (ProcLock p) (s\<lparr>procs := (procs s)(p := (procs s p)\<lparr>p_chan := BufChan b, p_state := SLEEPING, p_intena := sie s\<rparr>)\<rparr>))
    = Ok () (acq (ProcLock p) (set_sie True (setcur (Some p) ((served b w bn s)\<lparr>procs :=
         (procs s)(p := (procs s p)\<lparr>p_chan := BufChan b, p_intena := sie s, p_state := RUNNING\<rparr>)\<rparr>))))"
proof -
  let ?ps = "(procs s)(p := (procs s p)\<lparr>p_chan := BufChan b, p_state := SLEEPING, p_intena := sie s\<rparr>)"
  let ?u = "set_sie True (sync (setcur None (s\<lparr>procs := ?ps\<rparr>)))"
  let ?X = "setcur None ((served b w bn s)\<lparr>procs := ?ps(p := (?ps p)\<lparr>p_state := RUNNABLE\<rparr>)\<rparr>)"
  have w: "wake_all (BufChan b) None ?ps = ?ps(p := (?ps p)\<lparr>p_state := RUNNABLE\<rparr>)"
    using quiet_wake_self[OF q] by simp
  have away: "scheduler_back p (acq (ProcLock p) (s\<lparr>procs := ?ps\<rparr>)) = Ok () (sync (setcur None (s\<lparr>procs := ?ps\<rparr>)))"
    using q by (simp add: scheduler_back_eq)
  have dv: "thn device_run (thn intr_off virtio_disk_intr) ?u
    = Ok () (sync (set_sie False ((served b w bn ?u)\<lparr>procs := wake_all (BufChan b) (curproc ?u) (procs ?u)\<rparr>)))"
    by (rule device_intr_eq) (use q dev in simp_all)
  have dev': "thn device_run (thn intr_off virtio_disk_intr) ?u = Ok () (sync (set_sie False ?X))"
    unfolding dv using q w by simp
  let ?k = "bnd (scheduler_pick p) (\<lambda>picked. if picked then ret () else hang ''disk'')"
  have "disk_idle p = thn (scheduler_back p) (thn intr_on (thn (thn device_run (thn intr_off virtio_disk_intr)) (thn intr_on ?k)))"
    by (simp only: disk_idle_def thn_assoc)
  then have "disk_idle p (acq (ProcLock p) (s\<lparr>procs := ?ps\<rparr>)) = ?k (set_sie True (sync (set_sie False ?X)))"
    by (simp add: thn_apply[of "scheduler_back p"] away thn_apply[of intr_on] intr_on_eq
        thn_apply[of "thn device_run (thn intr_off virtio_disk_intr)"] dev' del: set_sie_machine)
  also have "\<dots> = Ok () (acq (ProcLock p) (set_sie True (setcur (Some p) ((served b w bn s)\<lparr>procs :=
         (procs s)(p := (procs s p)\<lparr>p_chan := BufChan b, p_intena := sie s, p_state := RUNNING\<rparr>)\<rparr>))))"
    using q by (simp add: bnd_apply scheduler_pick_eq ret_apply)
  finally show ?thesis .
qed

lemma transfer_quiet [simp]: "quiet (transfer b w bn s) = quiet s"
  by (simp add: transfer_def)

lemma disk_wait_eq:
  assumes q: "quiet s" and dev: "virtio_contract (vdev s)" "vd_idle v"
    "vdisk s = submitted b w (sector_of bn) (v\<lparr>vd_free := f\<rparr>)" "2 * bn < 2 ^ 32" and busy: "b_disk (bufs s b)"
  shows "loopf 2 (disk_wait_one b) () (acq VdiskLock s) = Ok () (acq VdiskLock (served b w bn s))"
proof -
  obtain p where p: "curproc s = Some p" using q by (rule quietE)
  note cur = quiet_cur[OF q p]
  have slp: "sleep (BufChan b) VdiskLock (acq VdiskLock s) = Swtch (acq (ProcLock p) (s\<lparr>procs := (procs s)(p :=
      (procs s p)\<lparr>p_chan := BufChan b, p_state := SLEEPING, p_intena := sie s\<rparr>)\<rparr>))"
    using q p by (intro sleep_eq) simp_all
  have same: "(procs s)(p := (procs s p)\<lparr>p_state := RUNNING, p_intena := False, p_chan := NullChan\<rparr>) = procs s"
    using cur by (auto simp: fun_eq_iff intro!: proc.equality)
  let ?t = "(served b w bn s)\<lparr>procs := (procs s)(p := (procs s p)\<lparr>p_chan := BufChan b, p_intena := sie s, p_state := RUNNING\<rparr>)\<rparr>"
  have "sleep_resume p VdiskLock (acq (ProcLock p) (set_sie True (setcur (Some p) ?t)))
    = Ok () (acq VdiskLock (set_sie (sie s) (setcur (Some p) ((served b w bn s)\<lparr>procs := procs s\<rparr>))))"
    using q same by (subst sleep_resume_eq) simp_all
  also have "\<dots> = Ok () (acq VdiskLock (served b w bn s))"
    using p by (simp add: setcur_same set_sie_same) (simp add: served_def transfer_def set_sie_same)
  finally have res: "sleep_resume p VdiskLock (acq (ProcLock p) (set_sie True (setcur (Some p) ?t)))
    = Ok () (acq VdiskLock (served b w bn s))" .
  have one: "disk_wait_one b () (acq VdiskLock s) = Ok (Inl ()) (acq VdiskLock (served b w bn s))"
    using busy p slp disk_idle_eq[OF q p dev] res by (simp add: disk_wait_one_def kmon)
  have two: "disk_wait_one b () (acq VdiskLock (served b w bn s)) = Ok (Inr ()) (acq VdiskLock (served b w bn s))"
    by (simp add: disk_wait_one_def kmon served_def transfer_def)
  have "loopf (Suc (Suc 0)) (disk_wait_one b) () (acq VdiskLock s) = Ok () (acq VdiskLock (served b w bn s))"
    by (simp only: loopf_next[of "disk_wait_one b", OF one] loopf_exit[of "disk_wait_one b", OF two])
  then show ?thesis by (simp add: numeral_2_eq_2)
qed

definition desc_freed :: "nat \<Rightarrow> vdisk \<Rightarrow> vdisk" where
  "desc_freed i v = v\<lparr>vd_desc := (vd_desc v)(i := \<lparr>d_addr = DNull, d_len = 0, d_flags = 0, d_next = 0\<rparr>),
     vd_free := (vd_free v)(i := True)\<rparr>"

lemma free_desc_eq:
  assumes "quiet s" "i < NUM" "\<not> vd_free (vdisk s) i"
  shows "free_desc i (acq VdiskLock s) = Ok () (acq VdiskLock (s\<lparr>vdisk := desc_freed i (vdisk s)\<rparr>))"
  using assms by (simp add: free_desc_def kmon setvd_def desc_freed_def not_le)

lemma free_chain_step:
  assumes "quiet s" "i < NUM" "\<not> vd_free (vdisk s) i" "0 < n"
  shows "loopf n free_chain_one i (acq VdiskLock s)
    = (if d_flags (vd_desc (vdisk s) i) AND VRING_DESC_F_NEXT \<noteq> 0
       then loopf (n - 1) free_chain_one (d_next (vd_desc (vdisk s) i)) (acq VdiskLock (s\<lparr>vdisk := desc_freed i (vdisk s)\<rparr>))
       else Ok () (acq VdiskLock (s\<lparr>vdisk := desc_freed i (vdisk s)\<rparr>)))"
  using free_desc_eq[OF assms(1-3)] assms(4) by (cases n) (simp_all add: free_chain_one_def kmon)

lemma free_chain_three:
  assumes "quiet s" "\<not> vd_free (vdisk s) 0" "\<not> vd_free (vdisk s) 1" "\<not> vd_free (vdisk s) 2"
    and "d_flags (vd_desc (vdisk s) 0) AND VRING_DESC_F_NEXT \<noteq> 0" "d_next (vd_desc (vdisk s) 0) = 1"
    and "d_flags (vd_desc (vdisk s) 1) AND VRING_DESC_F_NEXT \<noteq> 0" "d_next (vd_desc (vdisk s) 1) = 2"
    and "d_flags (vd_desc (vdisk s) 2) AND VRING_DESC_F_NEXT = 0"
  shows "free_chain 0 (acq VdiskLock s)
    = Ok () (acq VdiskLock (s\<lparr>vdisk := desc_freed 2 (desc_freed 1 (desc_freed 0 (vdisk s)))\<rparr>))"
proof -
  have "0 < NUM" "1 < NUM" "2 < NUM" by (simp_all add: NUM_def)
  with assms show ?thesis
    by (simp add: free_chain_def NUM_def free_chain_step desc_freed_def del: loopf.simps One_nat_def)
qed

lemma virtio_disk_rw_eq:
  assumes q: "quiet s" and dev: "disk_ok s" and bn: "2 * b_blockno (bufs s b) < 2 ^ 32"
  shows "\<exists>v m. vd_idle v \<and> virtio_disk_rw b w s
    = Ok () (sync ((transfer b w (b_blockno (bufs s b)) s)\<lparr>vdisk := v, mmio := m\<rparr>))"
proof -
  let ?bn = "b_blockno (bufs s b)" and ?v = "vdisk s"
  let ?f = "(vd_free ?v)(0 := False, 1 := False, 2 := False)"
  let ?v1 = "submitted b w (sector_of ?bn) (?v\<lparr>vd_free := ?f\<rparr>)"
  let ?s1 = "s\<lparr>vdisk := ?v1, bufs := (bufs s)(b := (bufs s b)\<lparr>b_disk := True\<rparr>), mmio := mmio s @ [notify]\<rparr>"
  let ?s2 = "served b w ?bn ?s1"
  let ?v2 = "(vdisk ?s2)\<lparr>vd_info_b := (vd_info_b (vdisk ?s2))(0 := None)\<rparr>"
  let ?v3 = "desc_freed 2 (desc_freed 1 (desc_freed 0 ?v2))"
  have idle: "vd_idle ?v" using dev by (simp add: disk_ok_def)
  have contract: "virtio_contract (vdev ?s1)" using dev by (simp add: disk_ok_def)
  have al: "alloc3_desc (acq VdiskLock s) = Ok (Some (0, 1, 2)) (acq VdiskLock (s\<lparr>vdisk := ?v\<lparr>vd_free := ?f\<rparr>\<rparr>))"
    using alloc3_idle[of "acq VdiskLock s"] idle by simp
  have sub: "virtio_disk_submit b w (sector_of ?bn) (0, 1, 2) (acq VdiskLock (s\<lparr>vdisk := ?v\<lparr>vd_free := ?f\<rparr>\<rparr>)) = Ok () (acq VdiskLock ?s1)"
    by (simp add: submit_eq del: One_nat_def)
  have wait: "loopf 2 (disk_wait_one b) () (acq VdiskLock ?s1) = Ok () (acq VdiskLock ?s2)"
    by (rule disk_wait_eq[OF _ contract idle, where f="?f"]) (use q bn in simp_all)
  have v2: "?v2 = (dev_done ?v1)\<lparr>vd_used_idx := vd_used_idx ?v + 1, vd_info_b := (vd_info_b ?v1)(0 := None)\<rparr>"
    by (simp add: served_def transfer_def dev_done_def submitted_def)
  have chain: "free_chain 0 (acq VdiskLock (?s2\<lparr>vdisk := ?v2\<rparr>)) = Ok () (acq VdiskLock (?s2\<lparr>vdisk := ?v3\<rparr>))"
    using q by (subst free_chain_three) (simp_all add: served_def transfer_def dev_done_def submitted_def vring_defs)
  have "vd_idle ?v3" using idle unfolding v2
    by (auto simp: vd_idle_def desc_freed_def dev_done_def submitted_def)
  moreover have "virtio_disk_rw b w s = Ok () (sync (?s2\<lparr>vdisk := ?v3\<rparr>))"
    using q al sub wait chain by (simp add: virtio_disk_rw_def virtio_disk_rw_try_def kmon setvd_def)
  moreover have "?s2\<lparr>vdisk := ?v3\<rparr> = (transfer b w ?bn s)\<lparr>vdisk := ?v3, mmio := mmio s @ [notify, ack s]\<rparr>"
    by (simp add: served_def transfer_def ack_def)
  ultimately show ?thesis by metis
qed

section \<open>Theorems\<close>

text \<open>
  C11: A disk request always completes, on a device that meets its contract: the thread sleeps, the interrupt wakes it, and on
  return a write has stored the buffer in its block (and only there), a read has filled the buffer with its block, all
  three descriptors are free again, every lock is released, and no other buffer has changed.
\<close>

theorem virtio_disk_rw_completes:
  assumes "quiet s" "disk_ok s" "2 * b_blockno (bufs s b) < 2 ^ 32"
  shows "\<exists>t. virtio_disk_rw b w s = Ok () t \<and> quiet t \<and> disk_ok t \<and> procs t = procs s \<and>
    (\<forall>c. c \<noteq> b \<longrightarrow> bufs t c = bufs s c) \<and> \<not> b_disk (bufs t b) \<and>
    (if w then b_data (bufs t b) = b_data (bufs s b) \<and>
        disk_img t = (disk_img s)(b_blockno (bufs s b) := b_data (bufs s b)) \<and>
        disk_hist t = disk_hist s @ [(b_blockno (bufs s b), b_data (bufs s b))]
     else b_data (bufs t b) = disk_img s (b_blockno (bufs s b)) \<and> disk_img t = disk_img s \<and> disk_hist t = disk_hist s)"
  using virtio_disk_rw_eq[OF assms, of w] assms(1,2) by (fastforce simp: transfer_def disk_ok_def)

definition demo_disk :: "(nat \<Rightarrow> bdata) \<Rightarrow> kstate" where
  "demo_disk img = (demo_run 0x80020000 img)\<lparr>vdev := blk_model, vdisk := zero_vdisk\<lparr>vd_free := (\<lambda>_. True)\<rparr>\<rparr>"

lemma demo_disk_ok: "quiet (demo_disk img)" "disk_ok (demo_disk img)"
  by (simp_all add: demo_disk_def disk_ok_def blk_model_contract vd_idle_def zero_vdisk_def)

theorem virtio_disk_rw_completes_witness:
  "\<exists>t. virtio_disk_rw 3 False (demo_disk (\<lambda>_ _. 7)) = Ok () t \<and> b_data (bufs t 3) 10 = 7"
proof -
  let ?s = "demo_disk (\<lambda>_ _. 7)"
  have "2 * b_blockno (bufs ?s 3) < 2 ^ 32" "disk_img ?s (b_blockno (bufs ?s 3)) = (\<lambda>_. 7)"
    by (simp_all add: demo_disk_def demo_run_def) (simp_all add: boot_state_def zero_buf_def)
  with virtio_disk_rw_completes[OF demo_disk_ok this(1), of False] show ?thesis by auto
qed

end
