(* ===== verification/Bio.thy ===== *)
theory Bio
  imports Virtio
begin

text \<open>
  The buffer cache (\<^verbatim>\<open>bio.c\<close>). The buffers form a doubly linked list through \<open>prev\<close> and \<open>next\<close> around a list head,
  most recently used first; \<open>lru s xs\<close> relates the pointers to a list of buffer numbers. Above it the cache is an
  abstract block store: \<open>content s n\<close> is what a reader of block \<open>n\<close> sees, \<open>rc s n\<close> how many references there are to
  it, and \<open>held s\<close> which blocks are locked by the running thread.
\<close>

section \<open>The code\<close>

fun bnext :: "kstate \<Rightarrow> bptr \<Rightarrow> bptr" where
  "bnext s BHead = bhead_next s"
| "bnext s (BBuf i) = b_next (bufs s i)"

fun bprev :: "kstate \<Rightarrow> bptr \<Rightarrow> bptr" where
  "bprev s BHead = bhead_prev s"
| "bprev s (BBuf i) = b_prev (bufs s i)"

definition getb :: "nat \<Rightarrow> buf kernel" where
  "getb i = gets (\<lambda>s. bufs s i)"

definition setb :: "nat \<Rightarrow> (buf \<Rightarrow> buf) \<Rightarrow> unit kernel" where
  "setb i f = modify (\<lambda>s. s\<lparr>bufs := (bufs s)(i := f (bufs s i))\<rparr>)"

fun set_bnext :: "bptr \<Rightarrow> bptr \<Rightarrow> unit kernel" where
  "set_bnext BHead v = modify (\<lambda>s. s\<lparr>bhead_next := v\<rparr>)"
| "set_bnext (BBuf i) v = setb i (\<lambda>b. b\<lparr>b_next := v\<rparr>)"

fun set_bprev :: "bptr \<Rightarrow> bptr \<Rightarrow> unit kernel" where
  "set_bprev BHead v = modify (\<lambda>s. s\<lparr>bhead_prev := v\<rparr>)"
| "set_bprev (BBuf i) v = setb i (\<lambda>b. b\<lparr>b_prev := v\<rparr>)"

definition binit_one :: "nat \<Rightarrow> unit kernel" where
  "binit_one b =
     bnd (gets bhead_next) (\<lambda>first.
     thn (set_bnext (BBuf b) first) (
     thn (set_bprev (BBuf b) BHead) (
     thn (initsleeplock (BufSL b) ''buffer'') (
     bnd (gets bhead_next) (\<lambda>first.
     thn (set_bprev first (BBuf b))
     (set_bnext BHead (BBuf b)))))))"

definition binit :: "unit kernel" where
  "binit =
     thn (initlock BcacheLock ''bcache'') (
     thn (set_bprev BHead BHead) (
     thn (set_bnext BHead BHead)
     (foreach [0..<NBUF] binit_one)))"

text \<open>
  The two scans of \<open>bget\<close> follow the list until they are back at its head. The list has \<open>NBUF\<close> buffers, so
  \<open>NBUF + 1\<close> rounds are enough.
\<close>

definition bget_cached :: "nat \<Rightarrow> nat \<Rightarrow> bptr \<Rightarrow> (bptr + nat option) kernel" where
  "bget_cached dev blockno p = (case p of
     BHead \<Rightarrow> ret (Inr None)
   | BBuf i \<Rightarrow> bnd (getb i) (\<lambda>b.
       ret (if b_dev b = dev \<and> b_blockno b = blockno then Inr (Some i) else Inl (b_next b))))"

definition bget_unused :: "bptr \<Rightarrow> (bptr + nat option) kernel" where
  "bget_unused p = (case p of
     BHead \<Rightarrow> ret (Inr None)
   | BBuf i \<Rightarrow> bnd (getb i) (\<lambda>b.
       ret (if b_refcnt b = 0 then Inr (Some i) else Inl (b_prev b))))"

definition bget :: "nat \<Rightarrow> nat \<Rightarrow> nat kernel" where
  "bget dev blockno =
     thn (acquire BcacheLock) (
     bnd (gets bhead_next) (\<lambda>p.
     bnd (loopf (NBUF + 1) (bget_cached dev blockno) p) (\<lambda>hit.
     case hit of
       Some i \<Rightarrow>
         thn (setb i (\<lambda>b. b\<lparr>b_refcnt := b_refcnt b + 1\<rparr>)) (
         thn (release BcacheLock) (
         thn (acquiresleep (BufSL i)) (ret i)))
     | None \<Rightarrow>
         bnd (gets bhead_prev) (\<lambda>p.
         bnd (loopf (NBUF + 1) bget_unused p) (\<lambda>victim.
         case victim of
           Some i \<Rightarrow>
             thn (setb i (\<lambda>b. b\<lparr>b_dev := dev, b_blockno := blockno, b_valid := False, b_refcnt := 1\<rparr>)) (
             thn (release BcacheLock) (
             thn (acquiresleep (BufSL i)) (ret i)))
         | None \<Rightarrow> panic ''bget: no buffers'')))))"

definition bread :: "nat \<Rightarrow> nat \<Rightarrow> nat kernel" where
  "bread dev blockno =
     bnd (bget dev blockno) (\<lambda>i.
     bnd (getb i) (\<lambda>b.
     thn (whenM (\<not> b_valid b)
       (thn (virtio_disk_rw i False) (setb i (\<lambda>b. b\<lparr>b_valid := True\<rparr>))))
     (ret i)))"

definition bwrite :: "nat \<Rightarrow> unit kernel" where
  "bwrite i =
     bnd (holdingsleep (BufSL i)) (\<lambda>h.
     if \<not> h then panic ''bwrite'' else virtio_disk_rw i True)"

text \<open>The pointer updates of \<open>brelse\<close>: take the buffer out of the list and put it behind the head.\<close>

definition move_to_front :: "nat \<Rightarrow> unit kernel" where
  "move_to_front i =
     bnd (getb i) (\<lambda>b. thn (set_bprev (b_next b) (b_prev b)) (
     bnd (getb i) (\<lambda>b. thn (set_bnext (b_prev b) (b_next b)) (
     bnd (gets bhead_next) (\<lambda>first. thn (set_bnext (BBuf i) first) (
     thn (set_bprev (BBuf i) BHead) (
     bnd (gets bhead_next) (\<lambda>first. thn (set_bprev first (BBuf i))
     (set_bnext BHead (BBuf i))))))))))"

definition brelse :: "nat \<Rightarrow> unit kernel" where
  "brelse i =
     bnd (holdingsleep (BufSL i)) (\<lambda>h.
     if \<not> h then panic ''brelse'' else
     thn (releasesleep (BufSL i)) (
     thn (acquire BcacheLock) (
     thn (setb i (\<lambda>b. b\<lparr>b_refcnt := b_refcnt b - 1\<rparr>)) (
     bnd (getb i) (\<lambda>b.
     thn (whenM (b_refcnt b = 0) (move_to_front i))
     (release BcacheLock))))))"

definition bpin :: "nat \<Rightarrow> unit kernel" where
  "bpin i =
     thn (acquire BcacheLock) (
     thn (setb i (\<lambda>b. b\<lparr>b_refcnt := b_refcnt b + 1\<rparr>))
     (release BcacheLock))"

definition bunpin :: "nat \<Rightarrow> unit kernel" where
  "bunpin i =
     thn (acquire BcacheLock) (
     thn (setb i (\<lambda>b. b\<lparr>b_refcnt := b_refcnt b - 1\<rparr>))
     (release BcacheLock))"

lemmas buf_access = getb_def setb_def

section \<open>Doubly linked lists\<close>

text \<open>
  \<open>dl N P p xs q\<close>: going from \<open>p\<close> along \<open>N\<close> visits \<open>xs\<close> and ends at \<open>q\<close>, and \<open>P\<close> leads back. For the circular list of buffers
  both ends are the head.
\<close>

fun dl :: "('a \<Rightarrow> 'a) \<Rightarrow> ('a \<Rightarrow> 'a) \<Rightarrow> 'a \<Rightarrow> 'a list \<Rightarrow> 'a \<Rightarrow> bool" where
  "dl N P p [] q = (N p = q \<and> P q = p)"
| "dl N P p (x # xs) q = (N p = x \<and> P x = p \<and> dl N P x xs q)"

lemma dl_append: "dl N P p (xs @ x # ys) q = (dl N P p xs x \<and> dl N P x ys q)"
  by (induction xs arbitrary: p) auto

lemma dl_cong:
  assumes "\<And>x. x \<in> insert p (set xs) \<Longrightarrow> N' x = N x" "\<And>x. x \<in> insert q (set xs) \<Longrightarrow> P' x = P x"
  shows "dl N' P' p xs q = dl N P p xs q"
  using assms by (induction xs arbitrary: p) auto

lemma dl_prev_mem: "dl N P p xs q \<Longrightarrow> P q \<in> insert p (set xs)"
  by (induction xs arbitrary: p) auto

lemma dl_next_mem: "dl N P p xs q \<Longrightarrow> N p \<in> insert q (set xs)"
  by (cases xs) auto

lemma dl_unlink:
  assumes "dl N P p (as @ b # bs) q" "distinct (p # as @ b # bs)" "distinct (as @ b # bs @ [q])"
  shows "dl (N(P b := N b)) (P(N b := P b)) p (as @ bs) q"
  using assms
proof (induction as arbitrary: p)
  case Nil
  then have h: "N p = b" "P b = p" "dl N P b bs q" by auto
  show ?case
  proof (cases bs)
    case Nil
    with h show ?thesis by auto
  next
    case (Cons c cs)
    with h Nil.prems have "dl (N(p := c)) (P(c := p)) c cs q = dl N P c cs q"
      by (intro dl_cong) auto
    with h Cons show ?thesis by (simp add: fun_upd_def)
  qed
next
  case (Cons a as)
  then have h: "N p = a" "P a = p" "dl N P a (as @ b # bs) q" by auto
  then have "dl N P a as b" "dl N P b bs q" by (auto simp: dl_append)
  then have "P b \<in> insert a (set as)" "N b \<in> insert q (set bs)"
    using dl_prev_mem dl_next_mem by metis+
  then have "P b \<noteq> p" "N b \<noteq> a" using Cons.prems by auto
  with h Cons show ?case by auto
qed

lemma dl_insert:
  assumes "dl N P h xs h" "b \<noteq> h" "b \<notin> set xs" "h \<notin> set xs" "distinct xs"
  shows "dl (N(b := N h, h := b)) (P(b := h, N h := b)) h (b # xs) h"
proof (cases xs)
  case Nil
  with assms show ?thesis by auto
next
  case (Cons c cs)
  with assms have "dl (N(b := c, h := b)) (P(b := h, c := b)) c cs h = dl N P c cs h"
    by (intro dl_cong) auto
  with Cons assms show ?thesis by (auto simp: fun_upd_def)
qed

lemma dl_rev: "dl N P p xs q \<Longrightarrow> dl P N q (rev xs) p"
  by (induction xs arbitrary: p) (auto simp: dl_append)

section \<open>The list of buffers\<close>

definition lru :: "kstate \<Rightarrow> nat list \<Rightarrow> bool" where
  "lru s xs = (dl (bnext s) (bprev s) BHead (map BBuf xs) BHead \<and> distinct xs \<and> set xs = {..<NBUF})"

fun upd_next :: "bptr \<Rightarrow> bptr \<Rightarrow> kstate \<Rightarrow> kstate" where
  "upd_next BHead v s = s\<lparr>bhead_next := v\<rparr>"
| "upd_next (BBuf i) v s = s\<lparr>bufs := (bufs s)(i := (bufs s i)\<lparr>b_next := v\<rparr>)\<rparr>"

fun upd_prev :: "bptr \<Rightarrow> bptr \<Rightarrow> kstate \<Rightarrow> kstate" where
  "upd_prev BHead v s = s\<lparr>bhead_prev := v\<rparr>"
| "upd_prev (BBuf i) v s = s\<lparr>bufs := (bufs s)(i := (bufs s i)\<lparr>b_prev := v\<rparr>)\<rparr>"

lemma set_links: "set_bnext p v s = Ok () (upd_next p v s)" "set_bprev p v s = Ok () (upd_prev p v s)"
  by (cases p; simp add: kmon setb_def)+

lemma upd_links [simp]:
  "bnext (upd_next p v s) = (bnext s)(p := v)" "bprev (upd_next p v s) = bprev s"
  "bprev (upd_prev p v s) = (bprev s)(p := v)" "bnext (upd_prev p v s) = bnext s"
proof -
  have "bnext (upd_next p v s) q = ((bnext s)(p := v)) q" "bprev (upd_next p v s) q = bprev s q"
    "bprev (upd_prev p v s) q = ((bprev s)(p := v)) q" "bnext (upd_prev p v s) q = bnext s q" for q
    by (cases p; cases q; simp)+
  then show "bnext (upd_next p v s) = (bnext s)(p := v)" "bprev (upd_next p v s) = bprev s"
    "bprev (upd_prev p v s) = (bprev s)(p := v)" "bnext (upd_prev p v s) = bnext s" by auto
qed

lemma links_machine [simp]:
  "bnext (acq lk s) = bnext s" "bprev (acq lk s) = bprev s" "bnext (sync s) = bnext s" "bprev (sync s) = bprev s"
  "upd_next p v (acq lk s) = acq lk (upd_next p v s)" "upd_prev p v (acq lk s) = acq lk (upd_prev p v s)"
proof -
  have "bnext (acq lk s) q = bnext s q" "bprev (acq lk s) q = bprev s q"
    "bnext (sync s) q = bnext s q" "bprev (sync s) q = bprev s q" for q
    by (cases q; simp)+
  then show "bnext (acq lk s) = bnext s" "bprev (acq lk s) = bprev s" "bnext (sync s) = bnext s" "bprev (sync s) = bprev s"
    by auto
qed (cases p; simp)+

text \<open>\<open>core b\<close>: a buffer without its list pointers. \<open>relinked s t\<close>: \<open>t\<close> is \<open>s\<close> with other list pointers.\<close>

definition core :: "buf \<Rightarrow> bool \<times> bool \<times> nat \<times> nat \<times> int \<times> bdata" where
  "core b = (b_valid b, b_disk b, b_dev b, b_blockno b, b_refcnt b, b_data b)"

definition relinked :: "kstate \<Rightarrow> kstate \<Rightarrow> bool" where
  "relinked s t = (t = s\<lparr>bufs := bufs t, bhead_prev := bhead_prev t, bhead_next := bhead_next t\<rparr> \<and>
     (\<forall>i. core (bufs t i) = core (bufs s i)))"

lemma relinked_refl: "relinked s s"
  by (simp add: relinked_def)

lemma relinked_trans: "relinked s t \<Longrightarrow> relinked t u \<Longrightarrow> relinked s u"
proof -
  assume a: "relinked s t" and b: "relinked t u"
  then have "u = (s\<lparr>bufs := bufs t, bhead_prev := bhead_prev t, bhead_next := bhead_next t\<rparr>)
      \<lparr>bufs := bufs u, bhead_prev := bhead_prev u, bhead_next := bhead_next u\<rparr>"
    unfolding relinked_def by metis
  then have "u = s\<lparr>bufs := bufs u, bhead_prev := bhead_prev u, bhead_next := bhead_next u\<rparr>"
    by (rule trans) simp
  with a b show ?thesis unfolding relinked_def by metis
qed

lemma relinked_upd: "relinked s (upd_next p v s)" "relinked s (upd_prev p v s)"
  by (cases p; simp add: relinked_def core_def)+

definition mtf :: "nat \<Rightarrow> kstate \<Rightarrow> kstate" where
  "mtf i s =
     (let s1 = upd_prev (bnext s (BBuf i)) (bprev s (BBuf i)) s;
          s2 = upd_next (bprev s1 (BBuf i)) (bnext s1 (BBuf i)) s1;
          s3 = upd_next (BBuf i) (bnext s2 BHead) s2;
          s4 = upd_prev (BBuf i) BHead s3;
          s5 = upd_prev (bnext s4 BHead) (BBuf i) s4
      in upd_next BHead (BBuf i) s5)"

lemma move_to_front_eq: "move_to_front i (acq lk s) = Ok () (acq lk (mtf i s))"
  by (simp add: move_to_front_def mtf_def Let_def bnd_apply thn_apply gets_apply getb_def set_links
      del: set_bnext.simps set_bprev.simps upd_next.simps upd_prev.simps)

lemma mtf_relinked: "relinked s (mtf i s)"
  unfolding mtf_def Let_def by (intro relinked_trans[OF _ relinked_upd(1)] relinked_trans[OF _ relinked_upd(2)] relinked_refl)

lemma relinkedE:
  assumes "relinked s t"
  obtains a b c where "t = s\<lparr>bufs := a, bhead_prev := b, bhead_next := c\<rparr>" "\<And>i. core (bufs t i) = core (bufs s i)"
proof -
  have "t = s\<lparr>bufs := bufs t, bhead_prev := bhead_prev t, bhead_next := bhead_next t\<rparr>" "\<And>i. core (bufs t i) = core (bufs s i)"
    using assms unfolding relinked_def by blast+
  then show thesis by (rule that)
qed

lemma relinked_quiet: "relinked s t \<Longrightarrow> quiet t = quiet s"
  by (erule relinkedE) simp

lemma mtf_quiet [simp]: "quiet (mtf i s) = quiet s"
  using mtf_relinked by (rule relinked_quiet)

lemma mtf_lru:
  assumes "lru s xs" "i < NBUF"
  shows "lru (mtf i s) (i # remove1 i xs)"
proof -
  let ?N = "bnext s" and ?P = "bprev s" and ?b = "BBuf i"
  have i: "i \<in> set xs" and d: "distinct xs" using assms by (auto simp: lru_def)
  then obtain as bs where xs: "xs = as @ i # bs" and na: "i \<notin> set as" "i \<notin> set bs"
    by (metis distinct_append distinct.simps(2) disjoint_iff list.set_intros(1) split_list)
  have r: "remove1 i xs = as @ bs" using xs na by (simp add: remove1_append)
  have inj: "distinct (map BBuf xs)" using d by (simp add: distinct_map inj_on_def)
  have list: "dl ?N ?P BHead (map BBuf as @ ?b # map BBuf bs) BHead" using assms xs by (simp add: lru_def)
  have nb: "?N ?b \<noteq> ?b" "?P ?b \<noteq> ?b"
    using list inj xs dl_next_mem[of ?N ?P ?b "map BBuf bs" BHead] dl_prev_mem[of ?N ?P BHead "map BBuf as" ?b]
    by (auto simp: dl_append)
  let ?N1 = "?N(?P ?b := ?N ?b)" and ?P1 = "?P(?N ?b := ?P ?b)"
  have u: "dl ?N1 ?P1 BHead (map BBuf (as @ bs)) BHead"
    using dl_unlink[OF list] inj xs by auto
  have "dl (?N1(?b := ?N1 BHead, BHead := ?b)) (?P1(?b := BHead, ?N1 BHead := ?b)) BHead (?b # map BBuf (as @ bs)) BHead"
    using u inj xs na by (intro dl_insert) auto
  moreover have "bnext (mtf i s) = ?N1(?b := ?N1 BHead, BHead := ?b)"
    using nb by (simp add: mtf_def Let_def del: upd_next.simps upd_prev.simps bnext.simps bprev.simps)
  moreover have "bprev (mtf i s) = ?P1(?b := BHead, ?N1 BHead := ?b)"
    using nb by (simp add: mtf_def Let_def del: upd_next.simps upd_prev.simps bnext.simps bprev.simps)
  ultimately show ?thesis using assms xs d r by (auto simp: lru_def)
qed

lemma cached_loop:
  assumes "dl (bnext s) P p (map BBuf xs) BHead" "length xs < n"
  shows "loopf n (bget_cached dev bn) (bnext s p) s
    = Ok (find (\<lambda>i. b_dev (bufs s i) = dev \<and> b_blockno (bufs s i) = bn) xs) s"
  using assms
proof (induction xs arbitrary: p n)
  case Nil
  then obtain m where "n = Suc m" by (cases n) auto
  with Nil show ?case by (simp add: bget_cached_def kmon)
next
  case (Cons x xs)
  then obtain m where "n = Suc m" "length xs < m" by (cases n) auto
  moreover have "bnext s p = BBuf x" "dl (bnext s) P (BBuf x) (map BBuf xs) BHead" using Cons.prems by auto
  ultimately show ?case using Cons.IH[of "BBuf x" m] by (auto simp: bget_cached_def kmon getb_def)
qed

lemma unused_loop:
  assumes "dl (bprev s) P p (map BBuf xs) BHead" "length xs < n"
  shows "loopf n bget_unused (bprev s p) s = Ok (find (\<lambda>i. b_refcnt (bufs s i) = 0) xs) s"
  using assms
proof (induction xs arbitrary: p n)
  case Nil
  then obtain m where "n = Suc m" by (cases n) auto
  with Nil show ?case by (simp add: bget_unused_def kmon)
next
  case (Cons x xs)
  then obtain m where "n = Suc m" "length xs < m" by (cases n) auto
  moreover have "bprev s p = BBuf x" "dl (bprev s) P (BBuf x) (map BBuf xs) BHead" using Cons.prems by auto
  ultimately show ?case using Cons.IH[of "BBuf x" m] by (auto simp: bget_unused_def kmon getb_def)
qed

section \<open>The cache as a block store\<close>

definition slot :: "kstate \<Rightarrow> nat \<Rightarrow> nat option" where
  "slot s n = find (\<lambda>i. b_dev (bufs s i) = ROOTDEV \<and> b_blockno (bufs s i) = n) [0..<NBUF]"

definition content :: "kstate \<Rightarrow> nat \<Rightarrow> bdata" where
  "content s n = (case slot s n of
     Some i \<Rightarrow> if b_valid (bufs s i) then b_data (bufs s i) else disk_img s n | None \<Rightarrow> disk_img s n)"

definition rc :: "kstate \<Rightarrow> nat \<Rightarrow> int" where
  "rc s n = (case slot s n of Some i \<Rightarrow> b_refcnt (bufs s i) | None \<Rightarrow> 0)"

definition held :: "kstate \<Rightarrow> nat set" where
  "held s = {n. \<exists>i. slot s n = Some i \<and> sl_locked (slocks s (BufSL i))}"

definition bcache_ok :: "kstate \<Rightarrow> bool" where
  "bcache_ok s = ((\<exists>xs. lru s xs) \<and>
     (\<forall>i<NBUF. 0 \<le> b_refcnt (bufs s i)) \<and>
     (\<forall>i<NBUF. b_refcnt (bufs s i) = 0 \<longrightarrow> \<not> sl_locked (slocks s (BufSL i))) \<and>
     (\<forall>i<NBUF. b_refcnt (bufs s i) = 0 \<longrightarrow> b_valid (bufs s i) \<longrightarrow> b_data (bufs s i) = disk_img s (b_blockno (bufs s i))) \<and>
     (\<forall>i<NBUF. b_refcnt (bufs s i) \<noteq> 0 \<longrightarrow> b_valid (bufs s i)) \<and>
     (\<forall>i<NBUF. b_valid (bufs s i) \<longrightarrow> b_dev (bufs s i) = ROOTDEV) \<and>
     (\<forall>i<NBUF. sl_locked (slocks s (BufSL i)) \<longrightarrow> sl_pid (slocks s (BufSL i)) = mypid s) \<and>
     (\<forall>i<NBUF. \<forall>j<NBUF. b_dev (bufs s i) = ROOTDEV \<and> b_dev (bufs s j) = ROOTDEV \<and>
        b_blockno (bufs s i) = b_blockno (bufs s j) \<longrightarrow> i = j))"

lemma bcache_okD:
  assumes "bcache_ok s"
  shows "i < NBUF \<Longrightarrow> 0 \<le> b_refcnt (bufs s i)"
    "i < NBUF \<Longrightarrow> b_refcnt (bufs s i) = 0 \<Longrightarrow> \<not> sl_locked (slocks s (BufSL i))"
    "i < NBUF \<Longrightarrow> b_refcnt (bufs s i) = 0 \<Longrightarrow> b_valid (bufs s i) \<Longrightarrow> b_data (bufs s i) = disk_img s (b_blockno (bufs s i))"
    "i < NBUF \<Longrightarrow> b_refcnt (bufs s i) \<noteq> 0 \<Longrightarrow> b_valid (bufs s i)"
    "i < NBUF \<Longrightarrow> b_valid (bufs s i) \<Longrightarrow> b_dev (bufs s i) = ROOTDEV"
    "i < NBUF \<Longrightarrow> sl_locked (slocks s (BufSL i)) \<Longrightarrow> sl_pid (slocks s (BufSL i)) = mypid s"
    "i < NBUF \<Longrightarrow> j < NBUF \<Longrightarrow> b_dev (bufs s i) = ROOTDEV \<Longrightarrow> b_dev (bufs s j) = ROOTDEV \<Longrightarrow>
       b_blockno (bufs s i) = b_blockno (bufs s j) \<Longrightarrow> i = j"
  using assms unfolding bcache_ok_def by blast+

lemma slot_SomeD:
  "slot s n = Some i \<Longrightarrow> i < NBUF \<and> b_dev (bufs s i) = ROOTDEV \<and> b_blockno (bufs s i) = n"
  by (auto simp: slot_def find_Some_iff)

lemma slot_None: "slot s n = None \<longleftrightarrow> (\<forall>i<NBUF. \<not> (b_dev (bufs s i) = ROOTDEV \<and> b_blockno (bufs s i) = n))"
  by (auto simp: slot_def find_None_iff)

lemma slot_SomeI:
  assumes "bcache_ok s" "i < NBUF" "b_dev (bufs s i) = ROOTDEV" "b_blockno (bufs s i) = n"
  shows "slot s n = Some i"
proof (cases "slot s n")
  case None
  then show ?thesis using assms by (auto simp: slot_None)
next
  case (Some j)
  then show ?thesis using slot_SomeD[OF Some] bcache_okD(7)[OF assms(1), of i j] assms by auto
qed

lemma slot_same:
  "(\<And>j. b_dev (bufs t j) = b_dev (bufs s j)) \<Longrightarrow> (\<And>j. b_blockno (bufs t j) = b_blockno (bufs s j)) \<Longrightarrow> slot t = slot s"
  by (simp add: slot_def fun_eq_iff)

definition io_inv :: "kstate \<Rightarrow> bool" where
  "io_inv s = (quiet s \<and> disk_ok s \<and> bcache_ok s)"

lemma io_invD: "io_inv s \<Longrightarrow> quiet s" "io_inv s \<Longrightarrow> disk_ok s" "io_inv s \<Longrightarrow> bcache_ok s"
  by (simp_all add: io_inv_def)

text \<open>
  \<open>io_frame s t\<close>: between \<open>s\<close> and \<open>t\<close> only the cache, the disk and the driver have changed; of the sleep locks, only those of the buffers.
\<close>

definition other_sl :: "kstate \<Rightarrow> kstate \<Rightarrow> bool" where
  "other_sl s t = (\<forall>lk. (\<forall>i. lk \<noteq> BufSL i) \<longrightarrow> slocks t lk = slocks s lk)"

lemma other_sl_simps [simp]: "other_sl s s" "other_sl s (sync t) = other_sl s t" "other_sl s (t\<lparr>klog := k\<rparr>) = other_sl s t"
  by (simp_all add: other_sl_def)

lemma other_sl_trans: "other_sl s t \<Longrightarrow> other_sl t u \<Longrightarrow> other_sl s u"
  by (simp add: other_sl_def)

definition io_frame :: "kstate \<Rightarrow> kstate \<Rightarrow> bool" where
  "io_frame s t = (sync t = sync (s\<lparr>slocks := slocks t, bufs := bufs t, bhead_prev := bhead_prev t, bhead_next := bhead_next t,
     vdisk := vdisk t, disk_img := disk_img t, disk_hist := disk_hist t, mmio := mmio t\<rparr>) \<and> other_sl s t)"

lemma io_frame_refl [simp]: "io_frame s s"
  by (simp add: io_frame_def)

lemma io_frame_trans: "io_frame s t \<Longrightarrow> io_frame t u \<Longrightarrow> io_frame s u"
proof -
  assume a: "io_frame s t" and b: "io_frame t u"
  let ?f = "\<lambda>x. x\<lparr>slocks := slocks u, bufs := bufs u, bhead_prev := bhead_prev u, bhead_next := bhead_next u,
     vdisk := vdisk u, disk_img := disk_img u, disk_hist := disk_hist u, mmio := mmio u\<rparr>"
  have "sync u = sync (?f t)" using b unfolding io_frame_def by (rule conjunct1)
  also have "\<dots> = ?f (sync t)" by simp
  also have "sync t = sync (s\<lparr>slocks := slocks t, bufs := bufs t, bhead_prev := bhead_prev t, bhead_next := bhead_next t,
     vdisk := vdisk t, disk_img := disk_img t, disk_hist := disk_hist t, mmio := mmio t\<rparr>)" (is "_ = ?t")
    using a unfolding io_frame_def by (rule conjunct1)
  also have "?f ?t = sync (?f s)" by simp
  finally show ?thesis using a b other_sl_trans unfolding io_frame_def by blast
qed

lemma io_frame_select:
  assumes "io_frame s t" "\<And>u. f (sync u) = f u"
    "\<And>u a b c d e g h k. f (u\<lparr>slocks := a, bufs := b, bhead_prev := c, bhead_next := d, vdisk := e, disk_img := g, disk_hist := h, mmio := k\<rparr>) = f u"
  shows "f t = f s"
proof -
  have "f t = f (sync t)" by (simp add: assms(2))
  also have "\<dots> = f (s\<lparr>slocks := slocks t, bufs := bufs t, bhead_prev := bhead_prev t, bhead_next := bhead_next t,
     vdisk := vdisk t, disk_img := disk_img t, disk_hist := disk_hist t, mmio := mmio t\<rparr>)"
    using assms(1) unfolding io_frame_def by (simp add: assms(2))
  finally show ?thesis by (simp add: assms(3))
qed

lemma io_frame_same: "io_frame s t \<Longrightarrow> klog t = klog s" "io_frame s t \<Longrightarrow> sblk t = sblk s"
  "io_frame s t \<Longrightarrow> inodes t = inodes s" "io_frame s t \<Longrightarrow> mypid t = mypid s" "io_frame s t \<Longrightarrow> curproc t = curproc s"
  "io_frame s t \<Longrightarrow> procs t = procs s" "io_frame s t \<Longrightarrow> mem t = mem s" "io_frame s t \<Longrightarrow> files t = files s"
  "io_frame s t \<Longrightarrow> freelist t = freelist s" "io_frame s t \<Longrightarrow> pipes t = pipes s"
  by (erule io_frame_select; simp)+

section \<open>Finding and recycling buffers\<close>

lemma lru_NBUF: "lru s xs \<Longrightarrow> length xs < NBUF + 1"
  by (metis lru_def card_lessThan distinct_card less_add_one)

lemma bget_hit:
  assumes "quiet s" "bcache_ok s" "slot s bn = Some i" "\<not> sl_locked (slocks s (BufSL i))"
  shows "bget ROOTDEV bn s = Ok i (sync (take_sl (BufSL i) (s\<lparr>bufs := (bufs s)(i := (bufs s i)\<lparr>b_refcnt := b_refcnt (bufs s i) + 1\<rparr>)\<rparr>)))"
proof -
  obtain xs where xs: "lru s xs" using assms(2) by (auto simp: bcache_ok_def)
  have "find (\<lambda>i. b_dev (bufs s i) = ROOTDEV \<and> b_blockno (bufs s i) = bn) xs = Some i"
    using slot_SomeD[OF assms(3)] xs bcache_okD(7)[OF assms(2)] by (intro find_unique) (auto simp: lru_def)
  then have "loopf (NBUF + 1) (bget_cached ROOTDEV bn) (bnext (acq BcacheLock s) BHead) (acq BcacheLock s) = Ok (Some i) (acq BcacheLock s)"
    using cached_loop[of "acq BcacheLock s" "bprev s" BHead xs "NBUF + 1" ROOTDEV bn] xs lru_NBUF[OF xs]
    by (simp add: lru_def del: loopf.simps bnext.simps)
  then show ?thesis using assms
    by (simp add: bget_def kmon setb_def acquiresleep_free take_sl_def del: loopf.simps)
qed

lemma bget_miss:
  assumes "quiet s" "bcache_ok s" "slot s bn = None" "\<exists>i<NBUF. b_refcnt (bufs s i) = 0"
  shows "\<exists>i<NBUF. b_refcnt (bufs s i) = 0 \<and> bget ROOTDEV bn s = Ok i (sync (take_sl (BufSL i) (s\<lparr>bufs := (bufs s)(i :=
    (bufs s i)\<lparr>b_dev := ROOTDEV, b_blockno := bn, b_valid := False, b_refcnt := 1\<rparr>)\<rparr>)))"
proof -
  obtain xs where xs: "lru s xs" using assms(2) by (auto simp: bcache_ok_def)
  have "find (\<lambda>i. b_dev (bufs s i) = ROOTDEV \<and> b_blockno (bufs s i) = bn) xs = None"
    using assms(3) xs by (auto simp: slot_None lru_def find_None_iff)
  then have miss: "loopf (NBUF + 1) (bget_cached ROOTDEV bn) (bnext (acq BcacheLock s) BHead) (acq BcacheLock s) = Ok None (acq BcacheLock s)"
    using cached_loop[of "acq BcacheLock s" "bprev s" BHead xs "NBUF + 1" ROOTDEV bn] xs lru_NBUF[OF xs]
    by (simp add: lru_def del: loopf.simps bnext.simps)
  obtain i where i: "find (\<lambda>i. b_refcnt (bufs s i) = 0) (rev xs) = Some i"
    using assms(4) xs by (cases "find (\<lambda>i. b_refcnt (bufs s i) = 0) (rev xs)") (auto simp: find_None_iff lru_def)
  then have lt: "i < NBUF" "b_refcnt (bufs s i) = 0"
    using xs find_mem[OF i] by (auto simp: lru_def)
  have "dl (bprev s) (bnext s) BHead (map BBuf (rev xs)) BHead"
    using dl_rev[of "bnext s" "bprev s" BHead "map BBuf xs" BHead] xs by (simp add: lru_def rev_map)
  then have hit: "loopf (NBUF + 1) bget_unused (bprev (acq BcacheLock s) BHead) (acq BcacheLock s) = Ok (Some i) (acq BcacheLock s)"
    using unused_loop[of "acq BcacheLock s" "bnext s" BHead "rev xs" "NBUF + 1"] i lru_NBUF[OF xs]
    by (simp del: loopf.simps bprev.simps)
  have "\<not> sl_locked (slocks s (BufSL i))" using bcache_okD(2)[OF assms(2)] lt by simp
  then show ?thesis using assms(1) miss hit lt
    by (intro exI[of _ i]) (simp add: bget_def kmon setb_def acquiresleep_free take_sl_def del: loopf.simps)
qed

lemma bget_full:
  assumes "quiet s" "bcache_ok s" "slot s bn = None" "\<forall>i<NBUF. b_refcnt (bufs s i) \<noteq> 0"
  shows "bget ROOTDEV bn s = Panic ''bget: no buffers''"
proof -
  obtain xs where xs: "lru s xs" using assms(2) by (auto simp: bcache_ok_def)
  have "find (\<lambda>i. b_dev (bufs s i) = ROOTDEV \<and> b_blockno (bufs s i) = bn) xs = None"
    using assms(3) xs by (auto simp: slot_None lru_def find_None_iff)
  then have miss: "loopf (NBUF + 1) (bget_cached ROOTDEV bn) (bnext (acq BcacheLock s) BHead) (acq BcacheLock s) = Ok None (acq BcacheLock s)"
    using cached_loop[of "acq BcacheLock s" "bprev s" BHead xs "NBUF + 1" ROOTDEV bn] xs lru_NBUF[OF xs]
    by (simp add: lru_def del: loopf.simps bnext.simps)
  have none: "find (\<lambda>i. b_refcnt (bufs s i) = 0) (rev xs) = None"
    using assms(4) xs by (auto simp: find_None_iff lru_def)
  have "dl (bprev s) (bnext s) BHead (map BBuf (rev xs)) BHead"
    using dl_rev[of "bnext s" "bprev s" BHead "map BBuf xs" BHead] xs by (simp add: lru_def rev_map)
  then have "loopf (NBUF + 1) bget_unused (bprev (acq BcacheLock s) BHead) (acq BcacheLock s) = Ok None (acq BcacheLock s)"
    using unused_loop[of "acq BcacheLock s" "bnext s" BHead "rev xs" "NBUF + 1"] none lru_NBUF[OF xs]
    by (simp del: loopf.simps bprev.simps)
  with miss assms(1) show ?thesis by (simp add: bget_def kmon del: loopf.simps)
qed

section \<open>Reading a block\<close>

definition bread_post :: "kstate \<Rightarrow> nat \<Rightarrow> nat \<Rightarrow> kstate \<Rightarrow> bool" where
  "bread_post s bn i t = (i < NBUF \<and> quiet t \<and> disk_ok t \<and> io_frame s t \<and> disk_img t = disk_img s \<and> disk_hist t = disk_hist s \<and>
     slocks t = (slocks s)(BufSL i := (slocks s (BufSL i))\<lparr>sl_locked := True, sl_pid := mypid s\<rparr>) \<and>
     bnext t = bnext s \<and> bprev t = bprev s \<and> (\<forall>j. j \<noteq> i \<longrightarrow> bufs t j = bufs s j) \<and>
     b_valid (bufs t i) \<and> b_dev (bufs t i) = ROOTDEV \<and> b_blockno (bufs t i) = bn \<and> b_data (bufs t i) = content s bn \<and>
     (slot s bn = Some i \<and> b_refcnt (bufs t i) = b_refcnt (bufs s i) + 1
      \<or> slot s bn = None \<and> b_refcnt (bufs s i) = 0 \<and> b_refcnt (bufs t i) = 1))"

lemma links_cong:
  assumes "bhead_next t = bhead_next s" "bhead_prev t = bhead_prev s"
    "\<And>j. b_next (bufs t j) = b_next (bufs s j)" "\<And>j. b_prev (bufs t j) = b_prev (bufs s j)"
  shows "bnext t = bnext s" "bprev t = bprev s"
proof -
  have "bnext t q = bnext s q" "bprev t q = bprev s q" for q by (cases q; simp add: assms)+
  then show "bnext t = bnext s" "bprev t = bprev s" by auto
qed

text \<open>The state in which \<open>bget\<close> returns buffer \<open>i\<close>: its lock is taken and its fields are \<open>b\<close>.\<close>

lemma bread_of_bget:
  assumes s: "quiet s" "disk_ok s" and bn: "2 * bn < 2 ^ 32" and i: "i < NBUF"
    and get: "bget ROOTDEV bn s = Ok i (sync (take_sl (BufSL i) (s\<lparr>bufs := (bufs s)(i := b)\<rparr>)))"
    and b: "b_dev b = ROOTDEV" "b_blockno b = bn" "b_next b = b_next (bufs s i)" "b_prev b = b_prev (bufs s i)"
      "b_valid b \<Longrightarrow> b_data b = content s bn" "\<not> b_valid b \<Longrightarrow> disk_img s bn = content s bn"
      "slot s bn = Some i \<and> b_refcnt b = b_refcnt (bufs s i) + 1 \<or> slot s bn = None \<and> b_refcnt (bufs s i) = 0 \<and> b_refcnt b = 1"
  shows "\<exists>t. bread ROOTDEV bn s = Ok i t \<and> bread_post s bn i t"
proof (cases "b_valid b")
  case True
  let ?t = "sync (take_sl (BufSL i) (s\<lparr>bufs := (bufs s)(i := b)\<rparr>))"
  have "bread ROOTDEV bn s = Ok i ?t"
    using get True by (simp add: bread_def kmon getb_def take_sl_def)
  moreover have "bnext ?t = bnext s" "bprev ?t = bprev s"
    by (rule links_cong; simp add: take_sl_def b)+
  moreover have "io_frame s ?t"
    by (auto simp: io_frame_def other_sl_def take_sl_def intro!: arg_cong[where f=sync] kstate.equality)
  ultimately show ?thesis using s i b True
    by (auto simp: bread_post_def take_sl_def disk_ok_def)
next
  case False
  let ?u = "take_sl (BufSL i) (s\<lparr>bufs := (bufs s)(i := b)\<rparr>)"
  have u: "quiet (sync ?u)" "disk_ok (sync ?u)" "2 * b_blockno (bufs (sync ?u) i) < 2 ^ 32"
    using s bn b by (simp_all add: take_sl_def disk_ok_def)
  then obtain v m where v: "vd_idle v"
    and rw: "virtio_disk_rw i False (sync ?u) = Ok () (sync ((transfer i False (b_blockno (bufs (sync ?u) i)) (sync ?u))\<lparr>vdisk := v, mmio := m\<rparr>))"
    using virtio_disk_rw_eq[of "sync ?u" i False] by blast
  let ?t = "sync (?u\<lparr>bufs := (bufs s)(i := b\<lparr>b_disk := False, b_data := disk_img s bn, b_valid := True\<rparr>), vdisk := v, mmio := m\<rparr>)"
  have "bread ROOTDEV bn s = Ok i ?t"
    using get False rw b
    by (auto simp: bread_def kmon buf_access take_sl_def transfer_def intro!: arg_cong[where f=sync] kstate.equality)
  moreover have "bnext ?t = bnext s" "bprev ?t = bprev s"
    by (rule links_cong; simp add: take_sl_def b)+
  moreover have "io_frame s ?t"
    by (auto simp: io_frame_def other_sl_def take_sl_def intro!: arg_cong[where f=sync] kstate.equality)
  ultimately show ?thesis using s i b False v
    by (auto simp: bread_post_def take_sl_def disk_ok_def)
qed

lemma bread_concrete:
  assumes "io_inv s" "2 * bn < 2 ^ 32" "bn \<notin> held s" "slot s bn \<noteq> None \<or> (\<exists>i<NBUF. b_refcnt (bufs s i) = 0)"
  shows "\<exists>i t. bread ROOTDEV bn s = Ok i t \<and> bread_post s bn i t"
proof (cases "slot s bn")
  case (Some i)
  note s = io_invD[OF assms(1)] and D = slot_SomeD[OF Some]
  have "\<not> sl_locked (slocks s (BufSL i))" using Some assms(3) by (auto simp: held_def)
  note get = bget_hit[OF s(1) s(3) Some this]
  have c: "content s bn = (if b_valid (bufs s i) then b_data (bufs s i) else disk_img s bn)" using Some by (simp add: content_def)
  have "\<exists>t. bread ROOTDEV bn s = Ok i t \<and> bread_post s bn i t"
    by (rule bread_of_bget[OF s(1,2) assms(2) _ get]) (use D Some c in simp_all)
  then show ?thesis by blast
next
  case None
  note s = io_invD[OF assms(1)]
  obtain i where i: "i < NBUF" "b_refcnt (bufs s i) = 0" and get: "bget ROOTDEV bn s = Ok i (sync (take_sl (BufSL i) (s\<lparr>bufs := (bufs s)(i :=
    (bufs s i)\<lparr>b_dev := ROOTDEV, b_blockno := bn, b_valid := False, b_refcnt := 1\<rparr>)\<rparr>)))"
    using bget_miss[OF s(1,3) None] assms(4) None by auto
  have c: "content s bn = disk_img s bn" using None by (simp add: content_def)
  have "\<exists>t. bread ROOTDEV bn s = Ok i t \<and> bread_post s bn i t"
    by (rule bread_of_bget[OF s(1,2) assms(2) i(1) get]) (use i None c in simp_all)
  then show ?thesis by blast
qed

text \<open>What reading a block does to the block store.\<close>

lemma bread_postD:
  assumes "bread_post s bn i t"
  shows "i < NBUF" "\<And>j. j \<noteq> i \<Longrightarrow> bufs t j = bufs s j" "b_valid (bufs t i)" "b_dev (bufs t i) = ROOTDEV"
    "b_blockno (bufs t i) = bn" "b_data (bufs t i) = content s bn" "disk_img t = disk_img s" "disk_hist t = disk_hist s"
    "slot s bn = Some i \<and> b_refcnt (bufs t i) = b_refcnt (bufs s i) + 1
      \<or> slot s bn = None \<and> b_refcnt (bufs s i) = 0 \<and> b_refcnt (bufs t i) = 1"
  using assms unfolding bread_post_def by blast+

lemma slot_upd:
  assumes "bcache_ok s" "i < NBUF" "\<And>j. j \<noteq> i \<Longrightarrow> bufs t j = bufs s j" "b_dev (bufs t i) = ROOTDEV" "b_blockno (bufs t i) = bn"
    "slot s bn = Some i \<or> slot s bn = None"
  shows "slot t n = (if n = bn then Some i else if slot s n = Some i then None else slot s n)"
proof -
  have other: "\<not> (b_dev (bufs s j) = ROOTDEV \<and> b_blockno (bufs s j) = bn)" if "j < NBUF" "j \<noteq> i" for j
    using that assms(6) bcache_okD(7)[OF assms(1), of j i] slot_SomeD[of s bn i] unfolding slot_None by metis
  show ?thesis
  proof (cases "n = bn")
    case True
    have "find (\<lambda>j. b_dev (bufs t j) = ROOTDEV \<and> b_blockno (bufs t j) = bn) [0..<NBUF] = Some i"
      by (rule find_unique) (use assms(2-5) other in \<open>auto, metis\<close>)
    with True show ?thesis by (simp add: slot_def)
  next
    case False
    show ?thesis
    proof (cases "slot s n")
      case None
      then have "slot t n = None" using False assms(3,5) unfolding slot_None by metis
      with None False show ?thesis by simp
    next
      case (Some j)
      note D = slot_SomeD[OF Some]
      show ?thesis
      proof (cases "j = i")
        case True
        have "\<not> (b_dev (bufs t k) = ROOTDEV \<and> b_blockno (bufs t k) = n)" if "k < NBUF" for k
          using that D True False assms(3,5) bcache_okD(7)[OF assms(1), of k i] by metis
        then have "slot t n = None" unfolding slot_None by blast
        with True Some False show ?thesis by simp
      next
        case ne: False
        have "find (\<lambda>k. b_dev (bufs t k) = ROOTDEV \<and> b_blockno (bufs t k) = n) [0..<NBUF] = Some j"
        proof (rule find_unique)
          fix k assume "k \<in> set [0..<NBUF]" "b_dev (bufs t k) = ROOTDEV \<and> b_blockno (bufs t k) = n"
          then show "k = j" using D False assms(3,5) bcache_okD(7)[OF assms(1), of k j] by (metis atLeastLessThan_iff set_upt)
        qed (use D ne assms(3) in auto)
        with ne Some False show ?thesis by (simp add: slot_def)
      qed
    qed
  qed
qed

lemma lru_links: "bnext t = bnext s \<Longrightarrow> bprev t = bprev s \<Longrightarrow> lru t xs = lru s xs"
  by (simp add: lru_def)

lemma bread_ok:
  assumes "bcache_ok s" "bread_post s bn i t"
  shows "bcache_ok t"
proof -
  note D = bread_postD[OF assms(2)] and B = bcache_okD[OF assms(1)]
  have lk: "slocks t = (slocks s)(BufSL i := (slocks s (BufSL i))\<lparr>sl_locked := True, sl_pid := mypid s\<rparr>)"
    and links: "bnext t = bnext s" "bprev t = bprev s" and pid: "mypid t = mypid s"
    using assms(2) unfolding bread_post_def by (blast, blast, blast, metis io_frame_same(4))
  have lk': "slocks t (BufSL j) = (if j = i then (slocks s (BufSL i))\<lparr>sl_locked := True, sl_pid := mypid s\<rparr> else slocks s (BufSL j))" for j
    by (simp add: lk)
  have pos: "0 < b_refcnt (bufs t i)" using D(1,9) B(1)[of i] by auto
  have uniq: "j = k" if "j < NBUF" "k < NBUF" "b_dev (bufs t j) = ROOTDEV" "b_dev (bufs t k) = ROOTDEV"
      "b_blockno (bufs t j) = b_blockno (bufs t k)" for j k
  proof -
    have "slot t (b_blockno (bufs t j)) = Some j" if "j < NBUF" "b_dev (bufs t j) = ROOTDEV" for j
    proof (cases "j = i")
      case True
      then show ?thesis using slot_upd[OF assms(1) D(1,2,4,5), of "b_blockno (bufs t j)"] D(5,9) by auto
    next
      case False
      then have "slot s (b_blockno (bufs t j)) = Some j" using slot_SomeI[OF assms(1)] that D(2) by simp
      moreover have "b_blockno (bufs t j) \<noteq> bn" using calculation D(9) False by auto
      ultimately show ?thesis using slot_upd[OF assms(1) D(1,2,4,5), of "b_blockno (bufs t j)"] D(9) False by auto
    qed
    with that show ?thesis by (metis option.inject)
  qed
  obtain xs where "lru s xs" using assms(1) by (auto simp: bcache_ok_def)
  then have l: "\<exists>xs. lru t xs" using lru_links[OF links] by blast
  have other: "bufs t j = bufs s j \<or> j = i" for j using D(2) by blast
  show ?thesis unfolding bcache_ok_def
  proof (intro conjI allI impI)
    show "\<exists>xs. lru t xs" by (rule l)
  next
    fix j assume j: "j < NBUF"
    show "0 \<le> b_refcnt (bufs t j)" using pos B(1)[OF j] other[of j] by auto
    show "\<not> sl_locked (slocks t (BufSL j))" if "b_refcnt (bufs t j) = 0"
      using that pos B(2)[OF j] other[of j] by (auto simp: lk')
    show "b_data (bufs t j) = disk_img t (b_blockno (bufs t j))" if "b_refcnt (bufs t j) = 0" "b_valid (bufs t j)"
      using that pos B(3)[OF j] other[of j] D(7) by auto
    show "b_valid (bufs t j)" if "b_refcnt (bufs t j) \<noteq> 0" using that B(4)[OF j] D(3) other[of j] by auto
    show "b_dev (bufs t j) = ROOTDEV" if "b_valid (bufs t j)" using that B(5)[OF j] D(4) other[of j] by auto
    show "sl_pid (slocks t (BufSL j)) = mypid t" if "sl_locked (slocks t (BufSL j))"
      using that B(6)[OF j] pid by (auto simp: lk' split: if_splits)
  next
    fix j k assume "j < NBUF" "k < NBUF"
      "b_dev (bufs t j) = ROOTDEV \<and> b_dev (bufs t k) = ROOTDEV \<and> b_blockno (bufs t j) = b_blockno (bufs t k)"
    then show "j = k" using uniq by blast
  qed
qed

lemma bread_abs:
  assumes "bcache_ok s" "bread_post s bn i t"
  shows "slot t bn = Some i" "content t = content s" "rc t = (rc s)(bn := rc s bn + 1)" "held t = insert bn (held s)"
    "\<And>n. 0 < rc s n \<Longrightarrow> slot t n = slot s n"
proof -
  note D = bread_postD[OF assms(2)] and B = bcache_okD[OF assms(1)]
  have lk: "slocks t (BufSL j) = (if j = i then (slocks s (BufSL i))\<lparr>sl_locked := True, sl_pid := mypid s\<rparr> else slocks s (BufSL j))" for j
    using assms(2) unfolding bread_post_def by simp
  have sl: "slot t n = (if n = bn then Some i else if slot s n = Some i then None else slot s n)" for n
    by (rule slot_upd[OF assms(1) D(1)]) (use D(2,4,5,9) in auto)
  have old: "b_refcnt (bufs s i) = 0 \<and> b_valid (bufs s i) = b_valid (bufs s i)" if "slot s n = Some i" "n \<noteq> bn" for n
    using that D(9) slot_SomeD[of s n i] slot_SomeD[of s bn i] by auto
  have pt: "content t n = content s n \<and> rc t n = ((rc s)(bn := rc s bn + 1)) n \<and> (n \<in> held t \<longleftrightarrow> n \<in> insert bn (held s)) \<and>
     (0 < rc s n \<longrightarrow> slot t n = slot s n)" for n
  proof (cases "n = bn")
    case True
    then show ?thesis using sl[of n] D(3,6,9) by (auto simp: content_def rc_def held_def lk)
  next
    case ne: False
    show ?thesis
    proof (cases "slot s n = Some i")
      case True
      then have z: "b_refcnt (bufs s i) = 0" using old ne by blast
      then have "content s n = disk_img s n" "n \<notin> held s" "rc s n = 0"
        using True B(2,3)[of i] D(1) slot_SomeD[OF True] by (auto simp: content_def held_def rc_def)
      then show ?thesis using True ne sl[of n] D(7) by (auto simp: content_def held_def rc_def)
    next
      case False
      then have "slot t n = slot s n" "\<And>j. slot s n = Some j \<Longrightarrow> j \<noteq> i" using sl[of n] ne by auto
      then show ?thesis using ne D(2,7) by (auto simp: content_def held_def rc_def lk split: option.split)
    qed
  qed
  show "slot t bn = Some i" using sl[of bn] by simp
  show "content t = content s" "rc t = (rc s)(bn := rc s bn + 1)" "held t = insert bn (held s)" using pt by blast+
  show "slot t n = slot s n" if "0 < rc s n" for n using pt that by blast
qed

lemma free_buffer:
  assumes "bcache_ok s" "card {n. 0 < rc s n} < NBUF"
  shows "\<exists>i<NBUF. b_refcnt (bufs s i) = 0"
proof (rule ccontr)
  assume "\<not> ?thesis"
  then have pos: "0 < b_refcnt (bufs s i)" "b_dev (bufs s i) = ROOTDEV" if "i < NBUF" for i
    using that bcache_okD(1,4,5)[OF assms(1), of i] by (metis order_le_less)+
  let ?f = "\<lambda>i. b_blockno (bufs s i)"
  have sub: "?f ` {..<NBUF} \<subseteq> {n. 0 < rc s n}"
    using pos slot_SomeI[OF assms(1)] by (auto simp: rc_def)
  have "{n. 0 < rc s n} \<subseteq> ?f ` {..<NBUF}"
    by (auto simp: rc_def split: option.splits dest: slot_SomeD)
  then have "finite {n. 0 < rc s n}" by (rule finite_subset) simp
  then have "card (?f ` {..<NBUF}) \<le> card {n. 0 < rc s n}" using sub by (rule card_mono)
  moreover have "inj_on ?f {..<NBUF}"
    using pos bcache_okD(7)[OF assms(1)] by (auto simp: inj_on_def)
  ultimately show False using assms(2) by (simp add: card_image)
qed

text \<open>Reading a block, as seen by the block store.\<close>

lemma bread_spec:
  assumes "io_inv s" "2 * bn < 2 ^ 32" "bn \<notin> held s" "0 < rc s bn \<or> card {n. 0 < rc s n} < NBUF"
  obtains i t where "bread ROOTDEV bn s = Ok i t" "io_inv t" "io_frame s t" "slot t bn = Some i" "content t = content s"
    "rc t = (rc s)(bn := rc s bn + 1)" "held t = insert bn (held s)" "disk_img t = disk_img s" "disk_hist t = disk_hist s"
    "\<And>n. 0 < rc s n \<Longrightarrow> slot t n = slot s n" "b_data (bufs t i) = content s bn"
proof -
  have "slot s bn \<noteq> None \<or> (\<exists>i<NBUF. b_refcnt (bufs s i) = 0)"
    using assms(4) free_buffer[OF io_invD(3)[OF assms(1)]] by (auto simp: rc_def)
  then obtain i t where r: "bread ROOTDEV bn s = Ok i t" and P: "bread_post s bn i t"
    using bread_concrete[OF assms(1-3)] by blast
  note ok = io_invD(3)[OF assms(1)]
  have "io_inv t" "io_frame s t" using P bread_ok[OF ok P] unfolding bread_post_def io_inv_def by blast+
  with r bread_abs[OF ok P] bread_postD(6-8)[OF P] show thesis by (intro that)
qed

section \<open>Changing one buffer\<close>

lemma core_fields:
  "core b = core c \<Longrightarrow> b_valid b = b_valid c" "core b = core c \<Longrightarrow> b_dev b = b_dev c" "core b = core c \<Longrightarrow> b_blockno b = b_blockno c"
  "core b = core c \<Longrightarrow> b_refcnt b = b_refcnt c" "core b = core c \<Longrightarrow> b_data b = b_data c"
  by (simp_all add: core_def)

text \<open>
  Every operation on a cached block changes only its buffer (apart from list pointers): the data becomes \<open>d\<close>, the reference
  count \<open>r\<close>, the lock state \<open>L\<close>, and the block on the disk \<open>e\<close>.
\<close>

lemma store_upd:
  assumes ok: "bcache_ok s" and sl: "slot s bn = Some i"
    and oth: "\<And>j. j \<noteq> i \<Longrightarrow> core (bufs t j) = core (bufs s j)"
    and own: "b_valid (bufs t i)" "b_dev (bufs t i) = ROOTDEV" "b_blockno (bufs t i) = bn"
      "b_refcnt (bufs t i) = r" "b_data (bufs t i) = d" "0 \<le> r"
    and lk: "\<And>j. j \<noteq> i \<Longrightarrow> slocks t (BufSL j) = slocks s (BufSL j)" "sl_locked (slocks t (BufSL i)) = L"
      "L \<Longrightarrow> sl_pid (slocks t (BufSL i)) = mypid s" "L \<Longrightarrow> r \<noteq> 0"
    and st: "mypid t = mypid s" "lru t xs" "disk_img t = (disk_img s)(bn := e)" "r = 0 \<Longrightarrow> d = e"
  shows "bcache_ok t \<and> slot t = slot s \<and> content t = (content s)(bn := d) \<and> rc t = (rc s)(bn := r) \<and>
    held t = (if L then insert bn (held s) else held s - {bn})"
proof -
  note B = bcache_okD[OF ok] and I = slot_SomeD[OF sl]
  note oth' = core_fields[OF oth]
  have ids: "b_dev (bufs t j) = b_dev (bufs s j)" "b_blockno (bufs t j) = b_blockno (bufs s j)" for j
    using oth'(2,3)[of j] own(2,3) I by (cases "j = i"; simp)+
  then have slot: "slot t = slot s" by (rule slot_same)
  have nbn: "b_blockno (bufs s j) \<noteq> bn" if "j < NBUF" "j \<noteq> i" "b_dev (bufs s j) = ROOTDEV" for j
    using that B(7)[of j i] I by metis
  have "bcache_ok t" unfolding bcache_ok_def
  proof (intro conjI allI impI)
    show "\<exists>xs. lru t xs" using st(2) by blast
  next
    fix j assume j: "j < NBUF"
    show "0 \<le> b_refcnt (bufs t j)" using own(4,6) B(1)[OF j] oth'(4)[of j] by (cases "j = i") auto
    show "\<not> sl_locked (slocks t (BufSL j))" if "b_refcnt (bufs t j) = 0"
      using that own(4) lk(1)[of j] lk(2,4) B(2)[OF j] oth'(4)[of j] by (cases "j = i") auto
    show "b_data (bufs t j) = disk_img t (b_blockno (bufs t j))" if "b_refcnt (bufs t j) = 0" "b_valid (bufs t j)"
      using that own(3-5) st(3,4) B(3)[OF j] B(5)[OF j] nbn[OF j] oth'[of j] by (cases "j = i") auto
    show "b_valid (bufs t j)" if "b_refcnt (bufs t j) \<noteq> 0" using that own(1) B(4)[OF j] oth'[of j] by (cases "j = i") auto
    show "b_dev (bufs t j) = ROOTDEV" if "b_valid (bufs t j)" using that own(2) B(5)[OF j] oth'[of j] by (cases "j = i") auto
    show "sl_pid (slocks t (BufSL j)) = mypid t" if "sl_locked (slocks t (BufSL j))"
      using that lk(2,3) lk(1)[of j] B(6)[OF j] st(1) by (cases "j = i") auto
  next
    fix j k assume "j < NBUF" "k < NBUF"
      "b_dev (bufs t j) = ROOTDEV \<and> b_dev (bufs t k) = ROOTDEV \<and> b_blockno (bufs t j) = b_blockno (bufs t k)"
    then show "j = k" using B(7) by (simp add: ids)
  qed
  moreover have "content t n = ((content s)(bn := d)) n \<and> rc t n = ((rc s)(bn := r)) n \<and>
      (n \<in> held t \<longleftrightarrow> n \<in> (if L then insert bn (held s) else held s - {bn}))" for n
  proof (cases "n = bn")
    case True
    then show ?thesis using sl own lk(2) by (simp add: content_def rc_def held_def slot)
  next
    case False
    then have "slot s n = Some j \<Longrightarrow> j \<noteq> i" for j using I slot_SomeD by metis
    with False st(3) oth' lk(1) show ?thesis
      by (cases "slot s n") (auto simp: content_def rc_def held_def slot)
  qed
  ultimately show ?thesis using slot by blast
qed

lemma heldD:
  assumes "io_inv s" "slot s bn = Some i" "bn \<in> held s"
  shows "i < NBUF" "sl_locked (slocks s (BufSL i))" "sl_pid (slocks s (BufSL i)) = mypid s" "holds_sl (BufSL i) s"
    "0 < b_refcnt (bufs s i)" "b_valid (bufs s i)" "b_dev (bufs s i) = ROOTDEV" "b_blockno (bufs s i) = bn"
    "b_data (bufs s i) = content s bn" "b_refcnt (bufs s i) = rc s bn"
proof -
  note B = bcache_okD[OF io_invD(3)[OF assms(1)]] and I = slot_SomeD[OF assms(2)]
  show "i < NBUF" "b_dev (bufs s i) = ROOTDEV" "b_blockno (bufs s i) = bn" using I by auto
  show l: "sl_locked (slocks s (BufSL i))" using assms(2,3) by (auto simp: held_def)
  show "sl_pid (slocks s (BufSL i)) = mypid s" "holds_sl (BufSL i) s" using B(6) I l by (auto simp: holds_sl_def)
  show "0 < b_refcnt (bufs s i)" using B(1,2)[of i] I l by (metis order_le_less)
  then show "b_valid (bufs s i)" using B(4)[of i] I by auto
  then show "b_data (bufs s i) = content s bn" "b_refcnt (bufs s i) = rc s bn" using assms(2) by (auto simp: content_def rc_def)
qed

lemma lru_ex: "io_inv s \<Longrightarrow> \<exists>xs. lru s xs"
  by (auto simp: io_inv_def bcache_ok_def)

lemma bwrite_spec:
  assumes "io_inv s" "slot s bn = Some i" "bn \<in> held s" "2 * bn < 2 ^ 32"
  obtains t where "bwrite i s = Ok () t" "io_inv t" "io_frame s t" "slot t = slot s" "content t = content s" "rc t = rc s"
    "held t = held s" "disk_img t = (disk_img s)(bn := content s bn)" "disk_hist t = disk_hist s @ [(bn, content s bn)]"
proof -
  note H = heldD[OF assms(1-3)] and s = io_invD[OF assms(1)]
  have bn: "2 * b_blockno (bufs (sync s) i) < 2 ^ 32" using H(8) assms(4) by simp
  obtain v m where v: "vd_idle v"
    and rw: "virtio_disk_rw i True (sync s) = Ok () (sync ((transfer i True (b_blockno (bufs (sync s) i)) (sync s))\<lparr>vdisk := v, mmio := m\<rparr>))"
    using virtio_disk_rw_eq[of "sync s" i True] s bn by (auto simp: disk_ok_def)
  define t where "t = sync ((transfer i True bn s)\<lparr>vdisk := v, mmio := m\<rparr>)"
  have run: "bwrite i s = Ok () t"
    using rw s(1) H(4,8) by (simp add: bwrite_def kmon holdingsleep_quiet transfer_def t_def)
  obtain xs where "lru s xs" using lru_ex[OF assms(1)] ..
  moreover have "bnext t = bnext s" "bprev t = bprev s"
    by (rule links_cong; simp add: transfer_def t_def)+
  ultimately have xs: "lru t xs" by (simp add: lru_def)
  have b: "bufs t = (bufs s)(i := (bufs s i)\<lparr>b_disk := False, b_data := content s bn\<rparr>)"
    "disk_img t = (disk_img s)(bn := content s bn)" "slocks t = slocks s" "mypid t = mypid s"
    "disk_hist t = disk_hist s @ [(bn, content s bn)]"
    using H(9) by (simp_all add: transfer_def t_def)
  have "bcache_ok t \<and> slot t = slot s \<and> content t = (content s)(bn := content s bn) \<and> rc t = (rc s)(bn := rc s bn) \<and>
    held t = (if True then insert bn (held s) else held s - {bn})"
    by (rule store_upd[OF s(3) assms(2) _ _ _ _ _ _ _ _ _ _ _ _ xs]) (use H in \<open>auto simp: b core_def\<close>)
  moreover have "quiet t" "disk_ok t" using s v by (simp_all add: t_def transfer_def disk_ok_def)
  moreover have "io_frame s t"
    by (auto simp: io_frame_def other_sl_def t_def transfer_def intro!: arg_cong[where f=sync] kstate.equality)
  ultimately show thesis using assms(3) b by (intro that[OF run]) (simp_all add: io_inv_def insert_absorb)
qed

lemma brelse_spec:
  assumes "io_inv s" "slot s bn = Some i" "bn \<in> held s" "1 < rc s bn \<or> content s bn = disk_img s bn"
  obtains t where "brelse i s = Ok () t" "io_inv t" "io_frame s t" "slot t = slot s" "content t = content s"
    "rc t = (rc s)(bn := rc s bn - 1)" "held t = held s - {bn}" "disk_img t = disk_img s" "disk_hist t = disk_hist s"
proof -
  note H = heldD[OF assms(1-3)] and s = io_invD[OF assms(1)]
  define u where "u = (drop_sl (BufSL i) s)\<lparr>bufs := (bufs s)(i := (bufs s i)\<lparr>b_refcnt := b_refcnt (bufs s i) - 1\<rparr>)\<rparr>"
  define w where "w = (if b_refcnt (bufs s i) = 1 then mtf i u else u)"
  have w: "relinked u w" using mtf_relinked relinked_refl by (simp add: w_def)
  then obtain a b c where wE: "w = u\<lparr>bufs := a, bhead_prev := b, bhead_next := c\<rparr>" and wc: "\<And>j. core (bufs w j) = core (bufs u j)"
    by (rule relinkedE) (rule that; assumption)
  have qw: "quiet w" using relinked_quiet[OF w] s(1) by (simp add: u_def drop_sl_def)
  have run: "brelse i s = Ok () (sync w)"
    using s(1) H(4)
    by (simp add: brelse_def kmon holdingsleep_quiet releasesleep_quiet buf_access move_to_front_eq drop_sl_def u_def w_def)
  obtain xs where "lru s xs" using lru_ex[OF assms(1)] ..
  moreover have "bnext u = bnext s" "bprev u = bprev s"
    by (rule links_cong; simp add: u_def drop_sl_def)+
  ultimately have "lru u xs" by (simp add: lru_def)
  then have "\<exists>ys. lru w ys" using mtf_lru[of u xs i] H(1) by (auto simp: w_def)
  then obtain ys where ys: "lru (sync w) ys" by (auto simp: lru_def)
  have uc: "core (bufs u j) = core (bufs s j)" if "j \<noteq> i" for j using that by (simp add: u_def)
  note own = core_fields[OF wc, of i]
  have bi: "bufs u i = (bufs s i)\<lparr>b_refcnt := b_refcnt (bufs s i) - 1\<rparr>" by (simp add: u_def)
  have lk: "slocks w = slocks (drop_sl (BufSL i) s)" "disk_img w = disk_img s" "mypid w = mypid s" "disk_hist w = disk_hist s"
    by (simp_all add: wE) (simp_all add: u_def drop_sl_def)
  have "bcache_ok (sync w) \<and> slot (sync w) = slot s \<and> content (sync w) = (content s)(bn := content s bn) \<and>
    rc (sync w) = (rc s)(bn := rc s bn - 1) \<and> held (sync w) = (if False then insert bn (held s) else held s - {bn})"
    by (rule store_upd[OF s(3) assms(2) _ _ _ _ _ _ _ _ _ _ _ _ ys, where e="disk_img s bn"])
      (use H assms(4) own in \<open>auto simp: wc uc bi lk drop_sl_def\<close>)
  moreover have "disk_ok (sync w)" using s(2) by (simp add: wE disk_ok_def) (simp add: u_def drop_sl_def)
  moreover have "io_frame s (sync w)"
    by (simp add: wE io_frame_def other_sl_def u_def drop_sl_def)
  ultimately show thesis using qw lk by (intro that[OF run]) (simp_all add: io_inv_def)
qed

text \<open>Changes of one buffer's data or reference count by code that has the block locked.\<close>

lemma setb_spec:
  assumes "io_inv s" "slot s bn = Some i" "bn \<in> held s"
    and f: "f = (\<lambda>b. b\<lparr>b_data := g (b_data b), b_refcnt := b_refcnt b + k\<rparr>)" "0 < rc s bn + k"
  defines "t \<equiv> s\<lparr>bufs := (bufs s)(i := f (bufs s i))\<rparr>"
  shows "io_inv t" "slot t = slot s" "content t = (content s)(bn := g (content s bn))" "rc t = (rc s)(bn := rc s bn + k)"
    "held t = held s" "disk_img t = disk_img s" "disk_hist t = disk_hist s" "io_frame s (sync t)"
proof -
  note H = heldD[OF assms(1-3)] and s = io_invD[OF assms(1)]
  obtain xs where "lru s xs" using lru_ex[OF assms(1)] ..
  moreover have "bnext t = bnext s" "bprev t = bprev s"
    by (rule links_cong; simp add: t_def f)+
  ultimately have xs: "lru t xs" by (simp add: lru_def)
  have "bcache_ok t \<and> slot t = slot s \<and> content t = (content s)(bn := g (content s bn)) \<and> rc t = (rc s)(bn := rc s bn + k) \<and>
    held t = (if True then insert bn (held s) else held s - {bn})"
    by (rule store_upd[OF s(3) assms(2) _ _ _ _ _ _ _ _ _ _ _ _ xs, where e="disk_img s bn"])
      (use H f(2) in \<open>auto simp: t_def f(1)\<close>)
  moreover have "quiet t" "disk_ok t" using s by (simp_all add: t_def disk_ok_def)
  ultimately show "io_inv t" "slot t = slot s" "content t = (content s)(bn := g (content s bn))"
    "rc t = (rc s)(bn := rc s bn + k)" "held t = held s" using assms(3) by (simp_all add: io_inv_def insert_absorb)
  show "disk_img t = disk_img s" "disk_hist t = disk_hist s" "io_frame s (sync t)"
    by (simp_all add: t_def io_frame_def other_sl_def)
qed

text \<open>The block store depends on the cache, the locks, the disk image and the identity of the running process only.\<close>

lemma store_cong:
  assumes "bufs t = bufs s" "disk_img t = disk_img s" "slocks t = slocks s" "bhead_next t = bhead_next s" "bhead_prev t = bhead_prev s"
    "mypid t = mypid s"
  shows "slot t = slot s" "content t = content s" "rc t = rc s" "held t = held s" "bcache_ok t = bcache_ok s"
proof -
  show sl: "slot t = slot s" by (rule ext) (simp add: slot_def assms)
  show "content t = content s" by (rule ext) (simp add: content_def sl assms split: option.split)
  show "rc t = rc s" by (rule ext) (simp add: rc_def sl assms split: option.split)
  show "held t = held s" by (simp add: held_def sl assms)
  have "bnext t = bnext s" "bprev t = bprev s" by (rule links_cong; simp add: assms)+
  then have "lru t xs = lru s xs" for xs by (simp add: lru_def)
  then show "bcache_ok t = bcache_ok s" by (simp add: bcache_ok_def assms)
qed

lemma store_sync [simp]:
  "slot (sync s) = slot s" "content (sync s) = content s" "rc (sync s) = rc s" "held (sync s) = held s" "io_inv (sync s) = io_inv s"
  using store_cong[of "sync s" s] by (simp_all add: io_inv_def disk_ok_def)

lemma store_klog [simp]:
  "slot (s\<lparr>klog := k\<rparr>) = slot s" "content (s\<lparr>klog := k\<rparr>) = content s" "rc (s\<lparr>klog := k\<rparr>) = rc s" "held (s\<lparr>klog := k\<rparr>) = held s"
  "io_inv (s\<lparr>klog := k\<rparr>) = io_inv s"
  using store_cong[of "s\<lparr>klog := k\<rparr>" s] by (simp_all add: io_inv_def disk_ok_def)

lemma bpin_eq: "quiet s \<Longrightarrow> bpin i s = Ok () (sync (s\<lparr>bufs := (bufs s)(i := (bufs s i)\<lparr>b_refcnt := b_refcnt (bufs s i) + 1\<rparr>)\<rparr>))"
  by (simp add: bpin_def kmon setb_def)

lemma bunpin_eq: "quiet s \<Longrightarrow> bunpin i s = Ok () (sync (s\<lparr>bufs := (bufs s)(i := (bufs s i)\<lparr>b_refcnt := b_refcnt (bufs s i) - 1\<rparr>)\<rparr>))"
  by (simp add: bunpin_def kmon setb_def)

section \<open>Initialisation\<close>

lemma links_locks [simp]: "bnext (s\<lparr>locks := l, slocks := k\<rparr>) = bnext s" "bprev (s\<lparr>locks := l, slocks := k\<rparr>) = bprev s"
  by (rule links_cong; simp)+

lemma binit_list:
  assumes "dl (bnext s) (bprev s) BHead (map BBuf xs) BHead" "distinct (xs @ ys)"
  shows "\<exists>t. foreach ys binit_one s = Ok () t \<and> dl (bnext t) (bprev t) BHead (map BBuf (rev ys @ xs)) BHead \<and>
    (\<forall>i. core (bufs t i) = core (bufs s i)) \<and> disk_img t = disk_img s \<and>
    (\<forall>i. sl_locked (slocks t (BufSL i)) \<longrightarrow> sl_locked (slocks s (BufSL i)) \<and> i \<notin> set ys)"
  using assms
proof (induction ys arbitrary: xs s)
  case Nil
  then show ?case by (auto simp: kmon)
next
  case (Cons b ys)
  let ?f = "bnext s BHead"
  define u where "u = (upd_prev (BBuf b) BHead (upd_next (BBuf b) ?f s))
       \<lparr>locks := (locks s)(SleepLk (BufSL b) := (locks s (SleepLk (BufSL b)))\<lparr>lkname := ''sleep lock'', locked := False, lkcpu := None\<rparr>),
        slocks := (slocks s)(BufSL b := (slocks s (BufSL b))\<lparr>sl_name := ''buffer'', sl_locked := False, sl_pid := 0\<rparr>)\<rparr>"
  define t where "t = upd_next BHead (BBuf b) (upd_prev ?f (BBuf b) u)"
  have one: "binit_one b s = Ok () t"
    by (simp add: binit_one_def kmon set_links initsleeplock_def initlock_def set_lock_def setsl_def t_def u_def
        del: set_bnext.simps set_bprev.simps)
  have links: "bnext t = (bnext s)(BBuf b := ?f, BHead := BBuf b)" "bprev t = (bprev s)(BBuf b := BHead, ?f := BBuf b)"
    unfolding t_def u_def by (simp_all only: upd_links links_locks)
  have list: "dl (bnext t) (bprev t) BHead (BBuf b # map BBuf xs) BHead"
    unfolding links using Cons.prems by (intro dl_insert) (auto simp: distinct_map inj_on_def)
  have "relinked u t" unfolding t_def by (rule relinked_trans[OF relinked_upd(2) relinked_upd(1)])
  moreover have "core (bufs u i) = core (bufs s i)" "disk_img u = disk_img s" for i by (simp_all add: u_def core_def)
  ultimately have same: "core (bufs t i) = core (bufs s i)" "disk_img t = disk_img s" "slocks t = slocks u" for i
    by (auto elim!: relinkedE)
  obtain r where "foreach ys binit_one t = Ok () r" "dl (bnext r) (bprev r) BHead (map BBuf (rev ys @ b # xs)) BHead"
    "\<forall>i. core (bufs r i) = core (bufs t i)" "disk_img r = disk_img t"
    "\<forall>i. sl_locked (slocks r (BufSL i)) \<longrightarrow> sl_locked (slocks t (BufSL i)) \<and> i \<notin> set ys"
    using Cons.IH[of t "b # xs"] list Cons.prems(2) by auto
  with foreach_step[of binit_one, OF one, of ys] same show ?case by (auto simp: u_def split: if_splits)
qed

section \<open>Theorems\<close>

text \<open>
  C29: \<open>binit\<close> links all buffers into the list, and the cache it sets up satisfies the invariant every other operation keeps: the
  list is a permutation of the buffers, no two buffers hold the same block, and every unreferenced buffer agrees with the disk.
\<close>

theorem binit_establishes_cache:
  assumes "\<And>i. bufs s i = zero_buf" "\<And>i. \<not> sl_locked (slocks s (BufSL i))"
  shows "\<exists>t. binit s = Ok () t \<and> lru t (rev [0..<NBUF]) \<and> bcache_ok t \<and> content t = disk_img s \<and> rc t = (\<lambda>_. 0)"
proof -
  let ?u = "s\<lparr>locks := (locks s)(BcacheLock := (locks s BcacheLock)\<lparr>lkname := ''bcache'', locked := False, lkcpu := None\<rparr>),
     bhead_prev := BHead, bhead_next := BHead\<rparr>"
  obtain t where t: "foreach [0..<NBUF] binit_one ?u = Ok () t" "dl (bnext t) (bprev t) BHead (map BBuf (rev [0..<NBUF])) BHead"
    "\<forall>i. core (bufs t i) = core zero_buf" "disk_img t = disk_img s" "\<forall>i. sl_locked (slocks t (BufSL i)) \<longrightarrow> sl_locked (slocks s (BufSL i))"
    using binit_list[of ?u "[]" "[0..<NBUF]"] assms(1) by auto
  have run: "binit s = Ok () t"
    using t(1) by (simp add: binit_def initlock_def set_lock_def kmon)
  have l: "lru t (rev [0..<NBUF])" using t(2) by (auto simp: lru_def)
  note z = core_fields[OF t(3)[rule_format]]
  have z': "\<not> b_valid (bufs t i)" "b_dev (bufs t i) = 0" "b_refcnt (bufs t i) = 0" for i using z[of i] by (simp_all add: zero_buf_def)
  have sl: "slot t n = None" for n unfolding slot_None by (simp add: z' ROOTDEV_def)
  have "bcache_ok t" unfolding bcache_ok_def using l t(5) assms(2) by (auto simp: z' ROOTDEV_def)
  moreover have "content t = disk_img s" "rc t = (\<lambda>_. 0)" using t(4) sl by (auto simp: content_def rc_def fun_eq_iff)
  ultimately show ?thesis using run l by blast
qed

theorem binit_establishes_cache_witness:
  "\<exists>t. binit (boot_state 0 0 0 (\<lambda>_ _. 7)) = Ok () t \<and> lru t (rev [0..<NBUF]) \<and> bcache_ok t"
  using binit_establishes_cache[of "boot_state 0 0 0 (\<lambda>_ _. 7)"] by (auto simp: boot_state_def)

text \<open>A cache for examples: all buffers linked and unused.\<close>

definition demo_io :: "(nat \<Rightarrow> bdata) \<Rightarrow> kstate" where
  "demo_io img = (demo_disk img)\<lparr>bufs := (\<lambda>i. zero_buf\<lparr>b_next := (if i = 29 then BHead else BBuf (i + 1)),
     b_prev := (if i = 0 then BHead else BBuf (i - 1))\<rparr>), bhead_next := BBuf 0, bhead_prev := BBuf 29\<rparr>"

lemma demo_io_facts: "io_inv (demo_io img)" "held (demo_io img) = {}" "rc (demo_io img) = (\<lambda>_. 0)" "content (demo_io img) = img"
proof -
  let ?s = "demo_io img"
  have b: "\<not> b_valid (bufs ?s i)" "b_dev (bufs ?s i) = 0" "b_refcnt (bufs ?s i) = 0" for i
    by (simp_all add: demo_io_def zero_buf_def)
  have l: "\<not> sl_locked (slocks ?s (BufSL i))" for i
    by (simp add: demo_io_def demo_disk_def demo_run_def) (simp add: boot_state_def)
  have img: "disk_img ?s = img" by (simp add: demo_io_def demo_disk_def demo_run_def) (simp add: boot_state_def)
  have "lru ?s [0..<NBUF]"
  proof -
    have "dl (bnext ?s) (bprev ?s) BHead (map BBuf [0..<30]) BHead" by (simp add: demo_io_def upt_rec)
    then show ?thesis by (simp add: lru_def NBUF_def MAXOPBLOCKS_def atLeast0LessThan)
  qed
  then have "bcache_ok ?s" unfolding bcache_ok_def using l by (auto simp: b ROOTDEV_def)
  moreover have "quiet ?s" "disk_ok ?s" using demo_disk_ok[of img] by (simp_all add: demo_io_def disk_ok_def)
  ultimately show "io_inv ?s" by (simp add: io_inv_def)
  have sl: "slot ?s n = None" for n unfolding slot_None by (simp add: b ROOTDEV_def)
  then show "held ?s = {}" "rc ?s = (\<lambda>_. 0)" "content ?s = img" by (auto simp: held_def rc_def content_def img fun_eq_iff)
qed

text \<open>
  C10: \<open>bread\<close> returns with a locked buffer that holds the current content of the block: the cached data if the block is cached, what
  the disk holds otherwise. It adds one reference to the block, never loses the content of another block by recycling its buffer,
  and keeps the cache invariant (in particular, at most one buffer per block).
\<close>

theorem bread_reads_block:
  assumes "io_inv s" "2 * bn < 2 ^ 32" "bn \<notin> held s" "0 < rc s bn \<or> card {n. 0 < rc s n} < NBUF"
  shows "\<exists>i t. bread ROOTDEV bn s = Ok i t \<and> io_inv t \<and> slot t bn = Some i \<and> b_data (bufs t i) = content s bn \<and>
    content t = content s \<and> rc t = (rc s)(bn := rc s bn + 1) \<and> held t = insert bn (held s) \<and> disk_img t = disk_img s"
  using bread_spec[OF assms] by metis

theorem bread_reads_block_witness:
  "\<exists>i t. bread ROOTDEV 45 (demo_io (\<lambda>_ _. 7)) = Ok i t \<and> b_data (bufs t i) 0 = 7 \<and> rc t 45 = 1"
proof -
  let ?s = "demo_io (\<lambda>_ _. 7)"
  have "(45::nat) \<notin> held ?s" "card {n. 0 < rc ?s n} < NBUF" "2 * 45 < (2::nat) ^ 32"
    by (simp_all add: demo_io_facts NBUF_def MAXOPBLOCKS_def)
  with bread_reads_block[OF demo_io_facts(1), of 45] obtain i t where "bread ROOTDEV 45 ?s = Ok i t" "b_data (bufs t i) = content ?s 45"
    "rc t = (rc ?s)(45 := rc ?s 45 + 1)" by blast
  then show ?thesis by (auto simp: demo_io_facts)
qed

text \<open>
  C30: With every buffer referenced, asking for a block that is not cached panics, so the cache never hands out a buffer that is in use.
\<close>

theorem bread_panics_when_full:
  assumes "quiet s" "bcache_ok s" "slot s bn = None" "\<forall>i<NBUF. b_refcnt (bufs s i) \<noteq> 0"
  shows "bread ROOTDEV bn s = Panic ''bget: no buffers''"
  using bget_full[OF assms] by (simp add: bread_def kmon)

theorem bread_panics_when_full_witness:
  "\<exists>s. quiet s \<and> bcache_ok s \<and> bread ROOTDEV 100 s = Panic ''bget: no buffers''"
proof -
  let ?d = "demo_io (\<lambda>_ _. 7)"
  let ?s = "?d\<lparr>bufs := (\<lambda>i. (bufs ?d i)\<lparr>b_dev := ROOTDEV, b_blockno := i, b_valid := True, b_refcnt := 1\<rparr>)\<rparr>"
  have d: "quiet ?d" "bcache_ok ?d" using demo_io_facts(1) by (simp_all add: io_inv_def)
  obtain xs where "lru ?d xs" using d(2) by (auto simp: bcache_ok_def)
  moreover have "bnext ?s = bnext ?d" "bprev ?s = bprev ?d" by (rule links_cong; simp)+
  ultimately have l: "lru ?s xs" by (simp add: lru_def)
  have lk: "\<not> sl_locked (slocks ?s (BufSL i))" if "i < NBUF" for i
    using bcache_okD(2)[OF d(2) that] by (simp add: demo_io_def zero_buf_def)
  have ok: "bcache_ok ?s" unfolding bcache_ok_def using l lk by auto
  have none: "slot ?s 100 = None" unfolding slot_None by (simp add: NBUF_def MAXOPBLOCKS_def)
  have q: "quiet ?s" using d(1) by simp
  have "bread ROOTDEV 100 ?s = Panic ''bget: no buffers''"
    by (rule bread_panics_when_full[OF q ok none]) simp
  with q ok show ?thesis by blast
qed

text \<open>
  C3: Reading a block, changing its data, writing it and releasing it leaves the new data on the disk and in the cache, changes no
  other block, and gives back the reference and the lock.
\<close>

theorem read_modify_write:
  assumes "io_inv s" "2 * bn < 2 ^ 32" "bn \<notin> held s" "0 < rc s bn \<or> card {n. 0 < rc s n} < NBUF"
  shows "\<exists>t. bnd (bread ROOTDEV bn) (\<lambda>i. thn (setb i (\<lambda>b. b\<lparr>b_data := d\<rparr>)) (thn (bwrite i) (brelse i))) s = Ok () t \<and>
    io_inv t \<and> disk_img t = (disk_img s)(bn := d) \<and> content t = (content s)(bn := d) \<and> rc t = rc s \<and> held t = held s"
proof -
  obtain i t where r: "bread ROOTDEV bn s = Ok i t" "io_inv t" "slot t bn = Some i" "content t = content s"
    "rc t = (rc s)(bn := rc s bn + 1)" "held t = insert bn (held s)" "disk_img t = disk_img s"
    using bread_spec[OF assms] by metis
  let ?u = "t\<lparr>bufs := (bufs t)(i := (bufs t i)\<lparr>b_data := d\<rparr>)\<rparr>"
  have h: "bn \<in> held t" and pos: "0 < rc t bn" using r heldD(5,10)[OF r(2,3)] by auto
  have fe: "(\<lambda>b. b\<lparr>b_data := d\<rparr>) = (\<lambda>b :: buf. b\<lparr>b_data := (\<lambda>_. d) (b_data b), b_refcnt := b_refcnt b + 0\<rparr>)"
    by (rule ext) simp
  have "0 < rc t bn + 0" using pos by simp
  note m = setb_spec[OF r(2,3) h fe this]
  obtain v where w: "bwrite i ?u = Ok () v" "io_inv v" "slot v = slot ?u" "content v = content ?u" "rc v = rc ?u" "held v = held ?u"
    "disk_img v = (disk_img ?u)(bn := content ?u bn)"
    using bwrite_spec[OF m(1), of bn i] m(2,5) r(3) h assms(2) by metis
  then have "content v bn = disk_img v bn" "slot v bn = Some i" "bn \<in> held v" using m r(3) h by auto
  then obtain x where x: "brelse i v = Ok () x" "io_inv x" "content x = content v" "rc x = (rc v)(bn := rc v bn - 1)"
    "held x = held v - {bn}" "disk_img x = disk_img v"
    using brelse_spec[OF w(2)] by metis
  have "bnd (bread ROOTDEV bn) (\<lambda>i. thn (setb i (\<lambda>b. b\<lparr>b_data := d\<rparr>)) (thn (bwrite i) (brelse i))) s = Ok () x"
    using r(1) w(1) x(1) by (simp add: kmon setb_def)
  moreover have "content x = (content s)(bn := d)" "disk_img x = (disk_img s)(bn := d)" "rc x = rc s" "held x = held s"
    using x w m r assms(3) by auto
  ultimately show ?thesis using x(2) by blast
qed

theorem read_modify_write_witness:
  "\<exists>t. bnd (bread ROOTDEV 45) (\<lambda>i. thn (setb i (\<lambda>b. b\<lparr>b_data := (\<lambda>_. 9)\<rparr>)) (thn (bwrite i) (brelse i))) (demo_io (\<lambda>_ _. 7))
     = Ok () t \<and> disk_img t 45 3 = 9"
proof -
  let ?s = "demo_io (\<lambda>_ _. 7)"
  have "(45::nat) \<notin> held ?s" "card {n. 0 < rc ?s n} < NBUF" "2 * 45 < (2::nat) ^ 32"
    by (simp_all add: demo_io_facts NBUF_def MAXOPBLOCKS_def)
  with read_modify_write[OF demo_io_facts(1), of 45 _ "\<lambda>_. 9"] show ?thesis by fastforce
qed

end
