(* ===== verification/Log.thy ===== *)
theory Log
  imports Bio
begin

text \<open>
  The write-ahead log (\<^verbatim>\<open>log.c\<close>). The second half proves what the log is for: if the machine stops at any moment during
  a commit, recovery at the next boot leaves either all of the transaction's blocks updated or none.
\<close>

section \<open>The code\<close>

definition setlog :: "(klog \<Rightarrow> klog) \<Rightarrow> unit kernel" where
  "setlog f = modify (\<lambda>s. s\<lparr>klog := f (klog s)\<rparr>)"

definition set_lh_n :: "int \<Rightarrow> unit kernel" where
  "set_lh_n n = setlog (\<lambda>l. l\<lparr>log_lh := (log_lh l)\<lparr>lh_n := n\<rparr>\<rparr>)"

definition set_lh_block :: "nat \<Rightarrow> nat \<Rightarrow> unit kernel" where
  "set_lh_block i n = setlog (\<lambda>l. l\<lparr>log_lh := (log_lh l)\<lparr>lh_block := (lh_block (log_lh l))(i := n)\<rparr>\<rparr>)"

text \<open>\<open>memmove\<close> of \<open>BSIZE\<close> bytes between the data arrays of two buffers, which have that size, copies the whole array.\<close>

definition copy_data :: "nat \<Rightarrow> nat \<Rightarrow> unit kernel" where
  "copy_data dst src = bnd (getb src) (\<lambda>b. setb dst (\<lambda>d. d\<lparr>b_data := b_data b\<rparr>))"

definition install_one :: "bool \<Rightarrow> nat \<Rightarrow> unit kernel" where
  "install_one recovering tail =
     bnd (gets klog) (\<lambda>l.
     bnd (bread (log_dev l) (log_start l + tail + 1)) (\<lambda>lbuf.
     bnd (bread (log_dev l) (lh_block (log_lh l) tail)) (\<lambda>dbuf.
     thn (copy_data dbuf lbuf) (
     thn (bwrite dbuf) (
     thn (whenM (\<not> recovering) (bunpin dbuf)) (
     thn (brelse lbuf)
     (brelse dbuf)))))))"

definition install_trans :: "bool \<Rightarrow> unit kernel" where
  "install_trans recovering =
     bnd (gets klog) (\<lambda>l. foreach [0..<nat (lh_n (log_lh l))] (install_one recovering))"

definition read_head :: "unit kernel" where
  "read_head =
     bnd (gets klog) (\<lambda>l.
     bnd (bread (log_dev l) (log_start l)) (\<lambda>i.
     bnd (getb i) (\<lambda>b.
     thn (set_lh_n (sint (le32 (b_data b) 0))) (
     thn (foreach [0..<nat (sint (le32 (b_data b) 0))] (\<lambda>k. set_lh_block k (unat (le32 (b_data b) (4 + 4 * k)))))
     (brelse i)))))"

definition put_data32 :: "nat \<Rightarrow> nat \<Rightarrow> u32 \<Rightarrow> unit kernel" where
  "put_data32 i off v = setb i (\<lambda>b. b\<lparr>b_data := put32 (b_data b) off v\<rparr>)"

definition write_head :: "unit kernel" where
  "write_head =
     bnd (gets klog) (\<lambda>l.
     bnd (bread (log_dev l) (log_start l)) (\<lambda>i.
     thn (put_data32 i 0 (word_of_int (lh_n (log_lh l)))) (
     thn (foreach [0..<nat (lh_n (log_lh l))] (\<lambda>k. put_data32 i (4 + 4 * k) (of_nat (lh_block (log_lh l) k)))) (
     thn (bwrite i)
     (brelse i)))))"

definition recover_from_log :: "unit kernel" where
  "recover_from_log =
     thn read_head (
     thn (install_trans True) (
     thn (set_lh_n 0)
     write_head))"

definition initlog :: "nat \<Rightarrow> superblock \<Rightarrow> unit kernel" where
  "initlog dev sb =
     (if BSIZE \<le> 4 + 4 * LOGSIZE then panic ''initlog: too big logheader'' else
     thn (initlock LogLock ''log'') (
     thn (setlog (\<lambda>l. l\<lparr>log_start := sb_logstart sb\<rparr>)) (
     thn (setlog (\<lambda>l. l\<lparr>log_size := int (sb_nlog sb)\<rparr>)) (
     thn (setlog (\<lambda>l. l\<lparr>log_dev := dev\<rparr>))
     recover_from_log))))"

text \<open>The loop of \<open>begin_op\<close>, entered with the log's lock held; a thread that has to wait continues in \<open>begin_op_resume\<close>.\<close>

definition begin_op_loop :: "unit kernel" where
  "begin_op_loop =
     bnd (gets klog) (\<lambda>l.
     if log_committing l then sleep LogChan LogLock
     else if lh_n (log_lh l) + (log_outstanding l + 1) * int MAXOPBLOCKS > int LOGSIZE then sleep LogChan LogLock
     else thn (setlog (\<lambda>l. l\<lparr>log_outstanding := log_outstanding l + 1\<rparr>)) (release LogLock))"

definition begin_op :: "unit kernel" where
  "begin_op = thn (acquire LogLock) begin_op_loop"

definition begin_op_resume :: "nat \<Rightarrow> unit kernel" where
  "begin_op_resume p = thn (sleep_resume p LogLock) begin_op_loop"

definition write_log_one :: "nat \<Rightarrow> unit kernel" where
  "write_log_one tail =
     bnd (gets klog) (\<lambda>l.
     bnd (bread (log_dev l) (log_start l + tail + 1)) (\<lambda>dst.
     bnd (bread (log_dev l) (lh_block (log_lh l) tail)) (\<lambda>src.
     thn (copy_data dst src) (
     thn (bwrite dst) (
     thn (brelse src)
     (brelse dst))))))"

definition write_log :: "unit kernel" where
  "write_log = bnd (gets klog) (\<lambda>l. foreach [0..<nat (lh_n (log_lh l))] write_log_one)"

definition commit :: "unit kernel" where
  "commit =
     bnd (gets klog) (\<lambda>l.
     whenM (0 < lh_n (log_lh l)) (
       thn write_log (
       thn write_head (
       thn (install_trans False) (
       thn (set_lh_n 0)
       write_head)))))"

definition end_op :: "unit kernel" where
  "end_op =
     thn (acquire LogLock) (
     thn (setlog (\<lambda>l. l\<lparr>log_outstanding := log_outstanding l - 1\<rparr>)) (
     bnd (gets klog) (\<lambda>l.
     if log_committing l then panic ''log.committing'' else
     bnd (if log_outstanding l = 0
          then thn (setlog (\<lambda>l. l\<lparr>log_committing := True\<rparr>)) (ret True)
          else thn (wakeup LogChan) (ret False)) (\<lambda>do_commit.
     thn (release LogLock) (
     whenM do_commit (
       thn commit (
       thn (acquire LogLock) (
       thn (setlog (\<lambda>l. l\<lparr>log_committing := False\<rparr>)) (
       thn (wakeup LogChan)
       (release LogLock))))))))))"

definition log_find :: "klog \<Rightarrow> nat \<Rightarrow> nat" where
  "log_find l blockno = (case find (\<lambda>i. lh_block (log_lh l) i = blockno) [0..<nat (lh_n (log_lh l))] of
     Some i \<Rightarrow> i | None \<Rightarrow> nat (lh_n (log_lh l)))"

definition log_write :: "nat \<Rightarrow> unit kernel" where
  "log_write b =
     thn (acquire LogLock) (
     bnd (gets klog) (\<lambda>l.
     if int LOGSIZE \<le> lh_n (log_lh l) \<or> log_size l - 1 \<le> lh_n (log_lh l) then panic ''too big a transaction'' else
     if log_outstanding l < 1 then panic ''log_write outside of trans'' else
     bnd (getb b) (\<lambda>bb.
     let i = log_find l (b_blockno bb) in
     thn (set_lh_block i (b_blockno bb)) (
     thn (whenM (int i = lh_n (log_lh l)) (thn (bpin b) (set_lh_n (lh_n (log_lh l) + 1))))
     (release LogLock)))))"

lemmas log_access = setlog_def set_lh_n_def set_lh_block_def

section \<open>Copying blocks\<close>

lemma rc_nonneg: "io_inv s \<Longrightarrow> 0 \<le> rc s n"
  using bcache_okD(1)[OF io_invD(3)] by (auto simp: rc_def split: option.split dest: slot_SomeD)

lemma rc_finite: "finite {n. 0 < rc s n}"
proof (rule finite_subset)
  show "{n. 0 < rc s n} \<subseteq> (\<lambda>i. b_blockno (bufs s i)) ` {..<NBUF}"
    by (auto simp: rc_def split: option.splits dest: slot_SomeD)
qed simp

lemma clean_content: "io_inv s \<Longrightarrow> rc s n = 0 \<Longrightarrow> content s n = disk_img s n"
  using bcache_okD(3)[OF io_invD(3)] by (auto simp: rc_def content_def split: option.splits dest: slot_SomeD)

lemma two_bread:
  assumes "io_inv s" "held s = {}" "x \<noteq> y" "2 * x < 2 ^ 32" "2 * y < 2 ^ 32"
    and room: "card (insert x (insert y {n. 0 < rc s n})) \<le> NBUF"
  obtains i j t u where "bread ROOTDEV x s = Ok i t" "bread ROOTDEV y t = Ok j u" "io_frame s t" "io_frame s u" "io_inv u"
    "slot u x = Some i" "slot u y = Some j" "content u = content s" "rc u = (rc s)(x := rc s x + 1, y := rc s y + 1)"
    "held u = {x, y}" "disk_img u = disk_img s" "disk_hist u = disk_hist s"
proof -
  let ?R = "{n. 0 < rc s n}"
  have r1: "0 < rc s x \<or> card ?R < NBUF"
  proof (cases "0 < rc s x")
    case False
    then have "card (insert x ?R) = card ?R + 1" using rc_finite by simp
    moreover have "card (insert x ?R) \<le> card (insert x (insert y ?R))" using rc_finite by (intro card_mono) auto
    ultimately show ?thesis using room by linarith
  qed simp
  have xh: "x \<notin> held s" using assms(2) by simp
  obtain i t where t: "bread ROOTDEV x s = Ok i t" "io_inv t" "io_frame s t" "slot t x = Some i" "content t = content s"
    "rc t = (rc s)(x := rc s x + 1)" "held t = insert x (held s)" "disk_img t = disk_img s" "disk_hist t = disk_hist s"
    using bread_spec[OF assms(1,4) xh r1] by metis
  have R: "{n. 0 < rc t n} = insert x ?R" using t(6) rc_nonneg[OF assms(1), of x] by auto
  have r2: "0 < rc t y \<or> card {n. 0 < rc t n} < NBUF"
  proof (cases "0 < rc s y")
    case False
    then have "card (insert y (insert x ?R)) = card (insert x ?R) + 1" using rc_finite assms(3) by simp
    then show ?thesis using room R by (simp add: insert_commute)
  qed (use t(6) assms(3) in simp)
  have yh: "y \<notin> held t" using t(7) assms(2,3) by simp
  obtain j u where u: "bread ROOTDEV y t = Ok j u" "io_inv u" "io_frame t u" "slot u y = Some j" "content u = content t"
    "rc u = (rc t)(y := rc t y + 1)" "held u = insert y (held t)" "disk_img u = disk_img t" "disk_hist u = disk_hist t"
    "slot u x = slot t x"
    using bread_spec[OF t(2) assms(5) yh r2] t(6) rc_nonneg[OF assms(1), of x]
    by (metis fun_upd_same zle_add1_eq_le)
  show thesis
    by (rule that[OF t(1) u(1) t(3) io_frame_trans[OF t(3) u(3)] u(2)]) (use t u assms(2,3) in auto)
qed

text \<open>Changing the data of a locked block, alone and followed by writing the block to the disk.\<close>

lemma setb_data:
  assumes "io_inv u" "slot u a = Some i" "a \<in> held u"
  obtains u' where "setb i (\<lambda>b. b\<lparr>b_data := g (b_data b)\<rparr>) u = Ok () u'" "io_inv u'" "io_frame u u'" "slot u' = slot u"
    "content u' = (content u)(a := g (content u a))" "rc u' = rc u" "held u' = held u" "disk_img u' = disk_img u" "disk_hist u' = disk_hist u"
proof -
  have fe: "(\<lambda>b. b\<lparr>b_data := g (b_data b)\<rparr>) = (\<lambda>b :: buf. b\<lparr>b_data := g (b_data b), b_refcnt := b_refcnt b + 0\<rparr>)"
    by (rule ext) simp
  have pos: "0 < rc u a + 0" using heldD(5,10)[OF assms] by simp
  note m = setb_spec[OF assms fe pos]
  show thesis by (rule that[of "u\<lparr>bufs := (bufs u)(i := (bufs u i)\<lparr>b_data := g (b_data (bufs u i))\<rparr>)\<rparr>"])
    (use m in \<open>simp_all add: buf_access kmon io_frame_def other_sl_def\<close>)
qed

lemma setb_held:
  assumes "io_inv u" "slot u a = Some i" "a \<in> held u" "2 * a < 2 ^ 32"
  obtains u' v where "setb i (\<lambda>b. b\<lparr>b_data := g (b_data b)\<rparr>) u = Ok () u'" "bwrite i u' = Ok () v" "io_inv v" "io_frame u v" "slot v = slot u"
    "content v = (content u)(a := g (content u a))" "rc v = rc u" "held v = held u" "disk_img v = (disk_img u)(a := g (content u a))"
    "disk_hist v = disk_hist u @ [(a, g (content u a))]"
proof -
  obtain u' where m: "setb i (\<lambda>b. b\<lparr>b_data := g (b_data b)\<rparr>) u = Ok () u'" "io_inv u'" "io_frame u u'" "slot u' = slot u"
    "content u' = (content u)(a := g (content u a))" "rc u' = rc u" "held u' = held u" "disk_img u' = disk_img u" "disk_hist u' = disk_hist u"
    using setb_data[OF assms(1-3)] .
  have h: "slot u' a = Some i" "a \<in> held u'" using m assms by simp_all
  obtain v where w: "bwrite i u' = Ok () v" "io_inv v" "io_frame u' v" "slot v = slot u'" "content v = content u'" "rc v = rc u'" "held v = held u'"
    "disk_img v = (disk_img u')(a := content u' a)" "disk_hist v = disk_hist u' @ [(a, content u' a)]"
    using bwrite_spec[OF m(2) h assms(4)] .
  show thesis by (rule that[OF m(1) w(1,2) io_frame_trans[OF m(3) w(3)]]) (use w m in simp_all)
qed

lemma copy_held:
  assumes "io_inv u" "slot u a = Some i" "slot u c = Some j" "a \<in> held u" "c \<in> held u" "2 * a < 2 ^ 32"
  obtains u' v where "copy_data i j u = Ok () u'" "bwrite i u' = Ok () v" "io_inv v" "io_frame u v" "slot v = slot u"
    "content v = (content u)(a := content u c)" "rc v = rc u" "held v = held u" "disk_img v = (disk_img u)(a := content u c)"
    "disk_hist v = disk_hist u @ [(a, content u c)]"
proof -
  have run: "copy_data i j u = setb i (\<lambda>b. b\<lparr>b_data := content u c\<rparr>) u"
    using heldD(9)[OF assms(1,3,5)] by (simp add: copy_data_def kmon buf_access)
  show thesis by (rule setb_held[OF assms(1,2,4,6), where g="\<lambda>_. content u c"]) (rule that; simp add: run)
qed

section \<open>Sequences of block writes\<close>

definition apply_writes :: "(nat \<times> bdata) list \<Rightarrow> (nat \<Rightarrow> bdata) \<Rightarrow> (nat \<Rightarrow> bdata)" where
  "apply_writes ws f = fold (\<lambda>(n, d) f. f(n := d)) ws f"

lemma apply_writes_simps [simp]:
  "apply_writes [] f = f" "apply_writes (x # ws) f = apply_writes ws (f(fst x := snd x))"
  "apply_writes (ws @ vs) f = apply_writes vs (apply_writes ws f)"
  by (auto simp: apply_writes_def split_beta)

lemma apply_writes_other: "n \<notin> fst ` set ws \<Longrightarrow> apply_writes ws f n = f n"
  by (induction ws arbitrary: f) auto

lemma apply_writes_in: "distinct (map fst ws) \<Longrightarrow> (n, d) \<in> set ws \<Longrightarrow> apply_writes ws f n = d"
  by (induction ws arbitrary: f) (auto simp: apply_writes_other image_iff)

section \<open>Moving a transaction through the log\<close>

text \<open>
  \<open>log_ok st B\<close>: the block numbers \<open>B\<close> of a transaction are different, lie on the disk and outside the log, which starts
  at \<open>st\<close>. \<open>logged s st B\<close>: the in-memory log header lists \<open>B\<close>, and no buffer is locked.
\<close>

definition log_ok :: "nat \<Rightarrow> nat list \<Rightarrow> bool" where
  "log_ok st B = (distinct B \<and> (\<forall>b\<in>set B. 2 * b < 2 ^ 32 \<and> (b < st \<or> st + length B < b)) \<and>
     2 * (st + length B) < 2 ^ 32 \<and> length B \<le> LOGSIZE)"

definition logged :: "kstate \<Rightarrow> nat \<Rightarrow> nat list \<Rightarrow> bool" where
  "logged s st B = (io_inv s \<and> held s = {} \<and> log_dev (klog s) = ROOTDEV \<and> log_start (klog s) = st \<and>
     lh_n (log_lh (klog s)) = int (length B) \<and> (\<forall>k<length B. lh_block (log_lh (klog s)) k = B ! k))"

lemma log_ok_nth:
  assumes "log_ok st B" "k < length B"
  shows "2 * (B ! k) < 2 ^ 32" "B ! k < st \<or> st + length B < B ! k" "2 * (st + k + 1) < 2 ^ 32"
    "j \<le> length B \<Longrightarrow> B ! k \<noteq> st + j"
proof -
  have "B ! k \<in> set B" using assms by simp
  then show b: "2 * (B ! k) < 2 ^ 32" "B ! k < st \<or> st + length B < B ! k" using assms(1) unfolding log_ok_def by blast+
  have "2 * (st + length B) < 2 ^ 32" using assms(1) unfolding log_ok_def by blast
  moreover have "st + k + 1 \<le> st + length B" using assms(2) by simp
  ultimately show "2 * (st + k + 1) < 2 ^ 32" by (meson le_less_trans mult_le_mono2)
  show "B ! k \<noteq> st + j" if "j \<le> length B" using b that by auto
qed

lemma card_le_two:
  assumes "finite R" "card R < NBUF" "y \<in> R \<or> card R + 1 < NBUF" shows "card (insert x (insert y R)) \<le> NBUF"
proof (cases "y \<in> R")
  case True
  then have "insert x (insert y R) = insert x R" by auto
  then show ?thesis using assms(1,2) card_insert_le_m1[of "Suc (card R)" R x] by (simp add: card_insert_if)
next
  case False
  then have "card (insert y R) = card R + 1" using assms(1) by simp
  then show ?thesis using assms False by (simp add: card_insert_if)
qed

lemma write_log_step:
  assumes "logged s st B" "log_ok st B" "k < length B" "0 < rc s (B ! k)" "rc s (st + k + 1) = 0" "card {n. 0 < rc s n} < NBUF"
  obtains t where "write_log_one k s = Ok () t" "logged t st B" "io_frame s t" "rc t = rc s"
    "content t = (content s)(st + k + 1 := content s (B ! k))" "disk_img t = (disk_img s)(st + k + 1 := content s (B ! k))"
    "disk_hist t = disk_hist s @ [(st + k + 1, content s (B ! k))]"
proof -
  let ?x = "st + k + 1" and ?y = "B ! k"
  note L = assms(1)[unfolded logged_def] and N = log_ok_nth[OF assms(2,3)]
  have inv: "io_inv s" "held s = {}" using L by blast+
  have ne: "?x \<noteq> ?y" using N(4)[of "k + 1"] assms(3) by simp
  have "card (insert ?x (insert ?y {n. 0 < rc s n})) \<le> NBUF"
    using assms(4,6) by (intro card_le_two rc_finite) auto
  then obtain i j t u where r: "bread ROOTDEV ?x s = Ok i t" "bread ROOTDEV ?y t = Ok j u" and fr: "io_frame s t" "io_frame s u"
    and u: "io_inv u" "slot u ?x = Some i" "slot u ?y = Some j" "content u = content s" "rc u = (rc s)(?x := rc s ?x + 1, ?y := rc s ?y + 1)"
    "held u = {?x, ?y}" "disk_img u = disk_img s" "disk_hist u = disk_hist s"
    using two_bread[OF inv ne N(3,1)] by metis
  have hx: "?x \<in> held u" "?y \<in> held u" using u(6) by auto
  obtain u' v where c: "copy_data i j u = Ok () u'" "bwrite i u' = Ok () v" and v: "io_inv v" "io_frame u v" "slot v = slot u"
    "content v = (content u)(?x := content u ?y)" "rc v = rc u" "held v = held u" "disk_img v = (disk_img u)(?x := content u ?y)"
    "disk_hist v = disk_hist u @ [(?x, content u ?y)]"
    using copy_held[OF u(1-3) hx N(3)] by metis
  have vy: "slot v ?y = Some j" "?y \<in> held v" "1 < rc v ?y \<or> content v ?y = disk_img v ?y"
    using v(3,5,6) u(3,5,6) assms(4) ne by simp_all
  obtain w where w: "brelse j v = Ok () w" "io_inv w" "io_frame v w" "slot w = slot v" "content w = content v"
    "rc w = (rc v)(?y := rc v ?y - 1)" "held w = held v - {?y}" "disk_img w = disk_img v" "disk_hist w = disk_hist v"
    using brelse_spec[OF v(1) vy] by metis
  have wx: "slot w ?x = Some i" "?x \<in> held w" "1 < rc w ?x \<or> content w ?x = disk_img w ?x" using w v u ne by auto
  obtain z where z: "brelse i w = Ok () z" "io_inv z" "io_frame w z" "slot z = slot w" "content z = content w"
    "rc z = (rc w)(?x := rc w ?x - 1)" "held z = held w - {?x}" "disk_img z = disk_img w" "disk_hist z = disk_hist w"
    using brelse_spec[OF w(2) wx] by metis
  have f: "io_frame s z" using fr(2) v(2) w(3) z(3) io_frame_trans by blast
  have l: "log_dev (klog s) = ROOTDEV" "log_start (klog s) = st" "lh_block (log_lh (klog s)) k = B ! k"
    using L assms(3) by blast+
  have run: "write_log_one k s = Ok () z"
    using r c w(1) z(1) by (simp add: write_log_one_def kmon l)
  show thesis
  proof (rule that[OF run _ f])
    have "held z = {}" using z(7) w(7) v(6) u(6) by auto
    then show "logged z st B" using L z(2) io_frame_same(1)[OF f] unfolding logged_def by simp
    show "rc z = rc s" using z(6) w(6) v(5) u(5) ne by (auto simp: fun_eq_iff)
  qed (use z w v u in simp_all)
qed

text \<open>The block writes of the three phases of a commit, and of recovery.\<close>

definition log_writes :: "nat \<Rightarrow> nat list \<Rightarrow> (nat \<Rightarrow> bdata) \<Rightarrow> nat \<Rightarrow> (nat \<times> bdata) list" where
  "log_writes st B c n = map (\<lambda>k. (st + k + 1, c (B ! k))) [0..<n]"

definition home_writes :: "nat \<Rightarrow> nat list \<Rightarrow> (nat \<Rightarrow> bdata) \<Rightarrow> nat \<Rightarrow> (nat \<times> bdata) list" where
  "home_writes st B c n = map (\<lambda>k. (B ! k, c (st + k + 1))) [0..<n]"

lemma log_writes_Suc: "log_writes st B c (Suc n) = log_writes st B c n @ [(st + n + 1, c (B ! n))]"
  by (simp add: log_writes_def)

lemma home_writes_Suc: "home_writes st B c (Suc n) = home_writes st B c n @ [(B ! n, c (st + n + 1))]"
  by (simp add: home_writes_def)

lemma log_writes_home:
  assumes "log_ok st B" "n \<le> length B" "k < length B"
  shows "apply_writes (log_writes st B c n) f (B ! k) = f (B ! k)"
proof (rule apply_writes_other)
  have no: "B ! k \<noteq> st + j + 1" if "j < n" for j using log_ok_nth(4)[OF assms(1,3), of "j + 1"] that assms(2) by simp
  have "fst ` set (log_writes st B c n) = (\<lambda>j. st + j + 1) ` {..<n}" by (auto simp: log_writes_def image_image)
  then show "B ! k \<notin> fst ` set (log_writes st B c n)" using no by blast
qed

lemma home_writes_log:
  assumes "log_ok st B" "n \<le> length B" "j \<le> length B"
  shows "apply_writes (home_writes st B c n) f (st + j) = f (st + j)"
proof (rule apply_writes_other)
  have no: "st + j \<noteq> B ! k" if "k < n" for k using log_ok_nth(4)[OF assms(1), of k j] that assms(2,3) by simp
  have "fst ` set (home_writes st B c n) = (\<lambda>k. B ! k) ` {..<n}" by (auto simp: home_writes_def image_image)
  then show "st + j \<notin> fst ` set (home_writes st B c n)" using no by (simp add: image_iff)
qed

lemma write_log_spec:
  assumes "logged s st B" "log_ok st B" "rc s = (\<lambda>n. if n \<in> set B then 1 else 0)" "length B < NBUF"
  obtains t where "write_log s = Ok () t" "logged t st B" "io_frame s t" "rc t = rc s"
    "content t = apply_writes (log_writes st B (content s) (length B)) (content s)"
    "disk_img t = apply_writes (log_writes st B (content s) (length B)) (disk_img s)"
    "disk_hist t = disk_hist s @ log_writes st B (content s) (length B)"
proof -
  let ?W = "log_writes st B (content s)"
  let ?I = "\<lambda>k t. logged t st B \<and> io_frame s t \<and> rc t = rc s \<and> content t = apply_writes (?W k) (content s) \<and>
     disk_img t = apply_writes (?W k) (disk_img s) \<and> disk_hist t = disk_hist s @ ?W k"
  let ?n = "[0..<length B]"
  have R: "{n. 0 < rc s n} = set B" using assms(3) by auto
  have "card (set B) < NBUF" using assms(4) card_length[of B] by linarith
  then have card: "card {n. 0 < rc s n} < NBUF" unfolding R .
  have "\<exists>t. write_log_one (?n ! k) r = Ok () t \<and> ?I (Suc k) t" if k: "k < length ?n" and I: "?I k r" for k r
  proof -
    have k': "k < length B" "?n ! k = k" using k by simp_all
    have "st + k + 1 \<notin> set B" using log_ok_nth(4)[OF assms(2), of _ "k + 1"] k' by (auto simp: in_set_conv_nth)
    then have rc: "0 < rc r (B ! k)" "rc r (st + k + 1) = 0" "card {n. 0 < rc r n} < NBUF"
      using I assms(3) k' card by simp_all
    have val: "content r (B ! k) = content s (B ! k)" using I log_writes_home[OF assms(2), of k k] k' by simp
    obtain t where "write_log_one k r = Ok () t" "logged t st B" "io_frame r t" "rc t = rc r"
      "content t = (content r)(st + k + 1 := content r (B ! k))" "disk_img t = (disk_img r)(st + k + 1 := content r (B ! k))"
      "disk_hist t = disk_hist r @ [(st + k + 1, content r (B ! k))]"
      using write_log_step[OF _ assms(2) k'(1) rc] I by metis
    moreover have "io_frame s t" using I calculation(3) io_frame_trans by blast
    ultimately show ?thesis using I val k' by (auto simp: log_writes_Suc)
  qed
  moreover have "?I 0 s" using assms(1) by (simp add: log_writes_def)
  ultimately have "\<exists>t. foreach ?n write_log_one s = Ok () t \<and> ?I (length ?n) t"
    by (rule foreach_inv[where I="?I", rotated])
  then obtain t where t: "foreach ?n write_log_one s = Ok () t" "?I (length B) t" by auto
  have "write_log s = Ok () t" using t(1) assms(1) by (simp add: write_log_def kmon logged_def)
  then show thesis by (rule that) (use t(2) in blast)+
qed

section \<open>Installing a transaction\<close>

lemma bunpin_held:
  assumes "io_inv u" "slot u a = Some i" "a \<in> held u" "1 < rc u a"
  obtains v where "bunpin i u = Ok () v" "io_inv v" "io_frame u v" "slot v = slot u" "content v = content u"
    "rc v = (rc u)(a := rc u a - 1)" "held v = held u" "disk_img v = disk_img u" "disk_hist v = disk_hist u"
proof -
  have fe: "(\<lambda>b. b\<lparr>b_refcnt := b_refcnt b - 1\<rparr>) = (\<lambda>b :: buf. b\<lparr>b_data := b_data b, b_refcnt := b_refcnt b + - 1\<rparr>)"
    by (rule ext) simp
  have pos: "0 < rc u a + - 1" using assms(4) by simp
  note m = setb_spec[OF assms(1-3) fe pos]
  have q: "quiet u" using io_invD(1)[OF assms(1)] .
  show thesis by (rule that[OF bunpin_eq[OF q]]) (use m in simp_all)
qed

lemma install_step:
  assumes "logged s st B" "log_ok st B" "k < length B" "rec \<or> rc s (B ! k) = 1" "rec \<longrightarrow> rc s (B ! k) = 0" "rc s (st + k + 1) = 0"
    "card (insert (st + k + 1) (insert (B ! k) {n. 0 < rc s n})) \<le> NBUF"
  obtains t where "install_one rec k s = Ok () t" "logged t st B" "io_frame s t" "rc t = (rc s)(B ! k := 0)"
    "content t = (content s)(B ! k := content s (st + k + 1))" "disk_img t = (disk_img s)(B ! k := content s (st + k + 1))"
    "disk_hist t = disk_hist s @ [(B ! k, content s (st + k + 1))]"
proof -
  let ?x = "st + k + 1" and ?y = "B ! k"
  note L = assms(1)[unfolded logged_def] and N = log_ok_nth[OF assms(2,3)]
  have inv: "io_inv s" "held s = {}" using L by blast+
  have ne: "?x \<noteq> ?y" using N(4)[of "k + 1"] assms(3) by simp
  obtain i j t u where r: "bread ROOTDEV ?x s = Ok i t" "bread ROOTDEV ?y t = Ok j u" and fr: "io_frame s t" "io_frame s u"
    and u: "io_inv u" "slot u ?x = Some i" "slot u ?y = Some j" "content u = content s" "rc u = (rc s)(?x := rc s ?x + 1, ?y := rc s ?y + 1)"
    "held u = {?x, ?y}" "disk_img u = disk_img s" "disk_hist u = disk_hist s"
    using two_bread[OF inv ne N(3,1) assms(7)] by metis
  have hx: "?x \<in> held u" "?y \<in> held u" using u(6) by auto
  obtain u' v where c: "copy_data j i u = Ok () u'" "bwrite j u' = Ok () v" and v: "io_inv v" "io_frame u v" "slot v = slot u"
    "content v = (content u)(?y := content u ?x)" "rc v = rc u" "held v = held u" "disk_img v = (disk_img u)(?y := content u ?x)"
    "disk_hist v = disk_hist u @ [(?y, content u ?x)]"
    using copy_held[OF u(1,3,2) hx(2,1) N(1)] by metis
  obtain p where p: "whenM (\<not> rec) (bunpin j) v = Ok () p" "io_inv p" "io_frame v p" "slot p = slot v" "content p = content v"
    "rc p = (rc v)(?y := 1)" "held p = held v" "disk_img p = disk_img v" "disk_hist p = disk_hist v"
  proof (cases rec)
    case True
    then show thesis using assms(5) v(1,5) u(5) by (intro that[of v]) (simp_all add: kmon fun_eq_iff)
  next
    case False
    then have one: "1 < rc v ?y" "rc v ?y - 1 = 1" using assms(4) v(5) u(5) ne by simp_all
    have wh: "whenM (\<not> rec) (bunpin j) = bunpin j" using False by (simp add: whenM_def)
    have vy: "slot v ?y = Some j" "?y \<in> held v" using v(3,6) u(3) hx(2) by simp_all
    show thesis by (rule bunpin_held[OF v(1) vy one(1)]) (rule that, unfold wh one(2), assumption+)
  qed
  have px: "slot p ?x = Some i" "?x \<in> held p" "1 < rc p ?x \<or> content p ?x = disk_img p ?x"
    using p v u ne clean_content[OF inv(1) assms(6)] by auto
  obtain w where w: "brelse i p = Ok () w" "io_inv w" "io_frame p w" "slot w = slot p" "content w = content p"
    "rc w = (rc p)(?x := rc p ?x - 1)" "held w = held p - {?x}" "disk_img w = disk_img p" "disk_hist w = disk_hist p"
    using brelse_spec[OF p(2) px] by metis
  have wy: "slot w ?y = Some j" "?y \<in> held w" "1 < rc w ?y \<or> content w ?y = disk_img w ?y" using w p v u ne by auto
  obtain z where z: "brelse j w = Ok () z" "io_inv z" "io_frame w z" "slot z = slot w" "content z = content w"
    "rc z = (rc w)(?y := rc w ?y - 1)" "held z = held w - {?y}" "disk_img z = disk_img w" "disk_hist z = disk_hist w"
    using brelse_spec[OF w(2) wy] by metis
  have f: "io_frame s z" using fr(2) v(2) p(3) w(3) z(3) io_frame_trans by blast
  have l: "log_dev (klog s) = ROOTDEV" "log_start (klog s) = st" "lh_block (log_lh (klog s)) k = B ! k"
    using L assms(3) by blast+
  have run: "install_one rec k s = Ok () z"
    using r c p(1) w(1) z(1) by (simp add: install_one_def l bnd_Ok[of _ s] bnd_Ok[of _ t] thn_Ok gets_apply)
  show thesis
  proof (rule that[OF run _ f])
    have "held z = {}" using z(7) w(7) p(7) v(6) u(6) by auto
    then show "logged z st B" using L z(2) io_frame_same(1)[OF f] unfolding logged_def by simp
    show "rc z = (rc s)(B ! k := 0)" using z(6) w(6) p(6) v(5) u(5) ne assms(6) by (auto simp: fun_eq_iff)
  qed (use z w p v u in simp_all)
qed

lemma install_trans_spec:
  assumes "logged s st B" "log_ok st B" "rc s = (\<lambda>n. if n \<in> set B \<and> \<not> rec then 1 else 0)" "length B < NBUF \<or> rec"
  obtains t where "install_trans rec s = Ok () t" "logged t st B" "io_frame s t" "rc t = (\<lambda>_. 0)"
    "content t = apply_writes (home_writes st B (content s) (length B)) (content s)"
    "disk_img t = apply_writes (home_writes st B (content s) (length B)) (disk_img s)"
    "disk_hist t = disk_hist s @ home_writes st B (content s) (length B)"
proof -
  let ?W = "home_writes st B (content s)"
  let ?I = "\<lambda>k t. logged t st B \<and> io_frame s t \<and> rc t = (\<lambda>n. if n \<in> set (drop k B) \<and> \<not> rec then 1 else 0) \<and>
     content t = apply_writes (?W k) (content s) \<and> disk_img t = apply_writes (?W k) (disk_img s) \<and> disk_hist t = disk_hist s @ ?W k"
  let ?n = "[0..<length B]"
  have d: "distinct B" using assms(2) unfolding log_ok_def by blast
  have "\<exists>t. install_one rec (?n ! k) r = Ok () t \<and> ?I (Suc k) t" if k: "k < length ?n" and I: "?I k r" for k r
  proof -
    have k': "k < length B" "?n ! k = k" using k by simp_all
    have dk: "drop k B = B ! k # drop (Suc k) B" using k'(1) by (rule Cons_nth_drop_Suc[symmetric])
    have nd: "B ! k \<notin> set (drop (Suc k) B)" using distinct_drop[OF d, of k] unfolding dk by simp
    have nin: "st + k + 1 \<notin> set B" using log_ok_nth(4)[OF assms(2), of _ "k + 1"] k' by (auto simp: in_set_conv_nth)
    have R: "insert (st + k + 1) (insert (B ! k) {n. 0 < rc r n}) \<subseteq> set ((st + k + 1) # (if rec then [B ! k] else drop k B))"
      using I dk by auto
    have "card (insert (st + k + 1) (insert (B ! k) {n. 0 < rc r n})) \<le> length ((st + k + 1) # (if rec then [B ! k] else drop k B))"
      by (rule order_trans[OF card_mono[OF _ R] card_length]) simp
    also have "\<dots> \<le> NBUF" using assms(4) by (auto simp: param_defs)
    finally have c: "card (insert (st + k + 1) (insert (B ! k) {n. 0 < rc r n})) \<le> NBUF" .
    have rc: "rec \<or> rc r (B ! k) = 1" "rec \<longrightarrow> rc r (B ! k) = 0" "rc r (st + k + 1) = 0"
      using I dk nin in_set_dropD[of "st + k + 1" k B] by auto
    have val: "content r (st + k + 1) = content s (st + k + 1)" using I home_writes_log[OF assms(2), of k "k + 1"] k' by simp
    obtain t where t: "install_one rec k r = Ok () t" "logged t st B" "io_frame r t" "rc t = (rc r)(B ! k := 0)"
      "content t = (content r)(B ! k := content r (st + k + 1))" "disk_img t = (disk_img r)(B ! k := content r (st + k + 1))"
      "disk_hist t = disk_hist r @ [(B ! k, content r (st + k + 1))]"
      using install_step[OF conjunct1[OF I] assms(2) k'(1) rc c] .
    have "rc t = (\<lambda>n. if n \<in> set (drop (Suc k) B) \<and> \<not> rec then 1 else 0)"
      using t(4) I dk nd by (auto simp: fun_eq_iff)
    moreover have "io_frame s t" using I t(3) io_frame_trans by blast
    ultimately show ?thesis using I val k' t by (simp add: home_writes_Suc)
  qed
  moreover have "?I 0 s" using assms(1,3) by (simp add: home_writes_def)
  ultimately have "\<exists>t. foreach ?n (install_one rec) s = Ok () t \<and> ?I (length ?n) t"
    by (rule foreach_inv[where I="?I", rotated])
  then obtain t where t: "foreach ?n (install_one rec) s = Ok () t" "?I (length B) t" by auto
  have "install_trans rec s = Ok () t" using t(1) assms(1) by (simp add: install_trans_def kmon logged_def)
  then show thesis by (rule that) (use t(2) in simp_all)
qed

section \<open>The header block\<close>

definition head_n :: "bdata \<Rightarrow> int" where
  "head_n d = sint (le32 d 0)"

definition head_block :: "bdata \<Rightarrow> nat \<Rightarrow> nat" where
  "head_block d k = unat (le32 d (4 + 4 * k))"

definition head_put :: "int \<Rightarrow> (nat \<Rightarrow> nat) \<Rightarrow> bdata \<Rightarrow> bdata" where
  "head_put n blk d = fold (\<lambda>k d. put32 d (4 + 4 * k) (of_nat (blk k))) [0..<nat n] (put32 d 0 (word_of_int n))"

lemma le32_fold_put:
  "(\<And>k. k < n \<Longrightarrow> a + 4 \<le> 4 + 4 * k \<or> 4 + 4 * k + 4 \<le> a) \<Longrightarrow>
    le32 (fold (\<lambda>k d. put32 d (4 + 4 * k) (f k)) [0..<n] d) a = le32 d (a::nat)"
  by (induction n) (simp_all add: le32_put32_other_nat)

lemma head_n_put: "- (2 ^ 31) \<le> n \<Longrightarrow> n < 2 ^ 31 \<Longrightarrow> head_n (head_put n blk d) = n"
  by (simp add: head_n_def head_put_def le32_fold_put sint_sbintrunc' signed_take_bit_int_eq_self)

lemma head_block_put:
  assumes "k < nat n" "blk k < 2 ^ 32" shows "head_block (head_put n blk d) k = blk k"
proof -
  have "le32 (fold (\<lambda>k d. put32 d (4 + 4 * k) (of_nat (blk k))) [0..<m] e) (4 + 4 * k) = of_nat (blk k)" if "k < m" for m e
    using that
  proof (induction m)
    case (Suc m)
    then show ?case by (cases "k = m") (simp_all add: le32_put32_other_nat)
  qed simp
  then show ?thesis using assms by (simp add: head_block_def head_put_def unat_of_nat)
qed

lemma setb_apply: "setb i f s = Ok () (s\<lparr>bufs := (bufs s)(i := f (bufs s i))\<rparr>)"
  by (simp add: kmon buf_access)

lemma foreach_setb:
  "foreach ks (\<lambda>k. setb i (\<lambda>b. b\<lparr>b_data := f k (b_data b)\<rparr>)) s = setb i (\<lambda>b. b\<lparr>b_data := fold f ks (b_data b)\<rparr>) s"
  by (induction ks arbitrary: s) (simp_all add: kmon buf_access)

lemma put_head_eq:
  "thn (put_data32 i 0 (word_of_int n)) (foreach [0..<nat n] (\<lambda>k. put_data32 i (4 + 4 * k) (of_nat (blk k)))) s =
     setb i (\<lambda>b. b\<lparr>b_data := head_put n blk (b_data b)\<rparr>) s"
  by (simp add: put_data32_def thn_apply setb_apply[of i "\<lambda>b. b\<lparr>b_data := put32 (b_data b) 0 (word_of_int n)\<rparr>"]
      foreach_setb[where f="\<lambda>k d. put32 d (4 + 4 * k) (of_nat (blk k))"]) (simp add: setb_apply head_put_def)

definition log_at :: "kstate \<Rightarrow> nat \<Rightarrow> bool" where
  "log_at s st = (io_inv s \<and> held s = {} \<and> log_dev (klog s) = ROOTDEV \<and> log_start (klog s) = st)"

lemma logged_log_at: "logged s st B \<Longrightarrow> log_at s st"
  by (simp add: logged_def log_at_def)

lemma write_head_spec:
  assumes "log_at s st" "2 * st < 2 ^ 32" "rc s st = 0" "card {n. 0 < rc s n} < NBUF"
  defines "d \<equiv> head_put (lh_n (log_lh (klog s))) (lh_block (log_lh (klog s))) (disk_img s st)"
  obtains t where "write_head s = Ok () t" "log_at t st" "io_frame s t" "rc t = rc s"
    "content t = (content s)(st := d)" "disk_img t = (disk_img s)(st := d)" "disk_hist t = disk_hist s @ [(st, d)]"
proof -
  note L = assms(1)[unfolded log_at_def]
  have s: "io_inv s" "st \<notin> held s" using L by auto
  have c: "content s st = disk_img s st" using clean_content[OF s(1) assms(3)] .
  obtain i t where t: "bread ROOTDEV st s = Ok i t" "io_inv t" "io_frame s t" "slot t st = Some i" "content t = content s"
    "rc t = (rc s)(st := rc s st + 1)" "held t = insert st (held s)" "disk_img t = disk_img s" "disk_hist t = disk_hist s"
    using bread_spec[OF s(1) assms(2) s(2) disjI2[OF assms(4)]] by metis
  have st: "st \<in> held t" using t(7) by simp
  let ?g = "head_put (lh_n (log_lh (klog s))) (lh_block (log_lh (klog s)))"
  obtain u v where v: "setb i (\<lambda>b. b\<lparr>b_data := ?g (b_data b)\<rparr>) t = Ok () u"
    "bwrite i u = Ok () v" "io_inv v" "io_frame t v" "slot v = slot t" "content v = (content t)(st := ?g (content t st))" "rc v = rc t"
    "held v = held t" "disk_img v = (disk_img t)(st := ?g (content t st))" "disk_hist v = disk_hist t @ [(st, ?g (content t st))]"
    using setb_held[OF t(2,4) st assms(2), where g="?g"] .
  have vs: "slot v st = Some i" "st \<in> held v" "1 < rc v st \<or> content v st = disk_img v st" using v t st by simp_all
  obtain z where z: "brelse i v = Ok () z" "io_inv z" "io_frame v z" "slot z = slot v" "content z = content v"
    "rc z = (rc v)(st := rc v st - 1)" "held z = held v - {st}" "disk_img z = disk_img v" "disk_hist z = disk_hist v"
    using brelse_spec[OF v(3) vs] by metis
  have f: "io_frame s z" using t(3) v(4) z(3) io_frame_trans by blast
  have "write_head s = thn (thn (put_data32 i 0 (word_of_int (lh_n (log_lh (klog s))))) (foreach [0..<nat (lh_n (log_lh (klog s)))]
      (\<lambda>k. put_data32 i (4 + 4 * k) (of_nat (lh_block (log_lh (klog s)) k))))) (thn (bwrite i) (brelse i)) t"
    using t(1) L by (simp add: write_head_def bnd_apply gets_apply thn_assoc)
  also have "\<dots> = Ok () z"
    using v(1,2) z(1) by (simp add: thn_apply[of "thn _ _"] put_head_eq thn_apply[of "bwrite _"])
  finally have run: "write_head s = Ok () z" .
  show thesis
  proof (rule that[OF run _ f])
    have "held z = {}" using z(7) v(8) t(7) L by auto
    then show "log_at z st" using L z(2) io_frame_same(1)[OF f] unfolding log_at_def by simp
    show "rc z = rc s" using z(6) v(7) t(6) by (auto simp: fun_eq_iff)
  qed (use z v t in \<open>simp_all add: d_def c\<close>)
qed

definition head_log :: "bdata \<Rightarrow> logheader \<Rightarrow> logheader" where
  "head_log d h = h\<lparr>lh_n := head_n d, lh_block := fold (\<lambda>k f. f(k := head_block d k)) [0..<nat (head_n d)] (lh_block h)\<rparr>"

lemma fold_upd: "fold (\<lambda>k f. f(k := g k)) [0..<n] f = (\<lambda>k. if k < n then g k else f k)"
  by (induction n) (auto simp: fun_eq_iff)

lemma head_log_block: "k < nat (head_n d) \<Longrightarrow> lh_block (head_log d h) k = head_block d k"
  by (simp add: head_log_def fold_upd)

lemma foreach_set_lh_block:
  "foreach ks (\<lambda>k. set_lh_block k (g k)) s =
     Ok () (s\<lparr>klog := (klog s)\<lparr>log_lh := (log_lh (klog s))\<lparr>lh_block := fold (\<lambda>k f. f(k := g k)) ks (lh_block (log_lh (klog s)))\<rparr>\<rparr>\<rparr>)"
  by (induction ks arbitrary: s) (simp_all add: kmon log_access)

lemma set_lh_n_apply: "set_lh_n n s = Ok () (s\<lparr>klog := (klog s)\<lparr>log_lh := (log_lh (klog s))\<lparr>lh_n := n\<rparr>\<rparr>\<rparr>)"
  by (simp add: kmon log_access)

lemma read_head_spec:
  assumes "log_at s st" "2 * st < 2 ^ 32" "rc s = (\<lambda>_. 0)"
  obtains t where "read_head s = Ok () t" "log_at t st" "klog t = (klog s)\<lparr>log_lh := head_log (disk_img s st) (log_lh (klog s))\<rparr>"
    "rc t = (\<lambda>_. 0)" "content t = content s" "disk_img t = disk_img s" "disk_hist t = disk_hist s"
proof -
  note L = assms(1)[unfolded log_at_def]
  have s: "io_inv s" "st \<notin> held s" using L by auto
  have c: "content s st = disk_img s st" using clean_content[OF s(1)] assms(3) by simp
  have room: "0 < rc s st \<or> card {n. 0 < rc s n} < NBUF" using assms(3) by (simp add: param_defs)
  obtain i t where t: "bread ROOTDEV st s = Ok i t" "io_inv t" "io_frame s t" "slot t st = Some i" "content t = content s"
    "rc t = (rc s)(st := rc s st + 1)" "held t = insert st (held s)" "disk_img t = disk_img s" "disk_hist t = disk_hist s"
    "b_data (bufs t i) = content s st"
    using bread_spec[OF s(1) assms(2) s(2) room] by metis
  let ?k = "(klog s)\<lparr>log_lh := head_log (disk_img s st) (log_lh (klog s))\<rparr>"
  let ?u = "t\<lparr>klog := ?k\<rparr>"
  have us: "io_inv ?u" "slot ?u st = Some i" "st \<in> held ?u" "1 < rc ?u st \<or> content ?u st = disk_img ?u st" using t c by simp_all
  obtain z where z: "brelse i ?u = Ok () z" "io_inv z" "io_frame ?u z" "slot z = slot ?u" "content z = content ?u"
    "rc z = (rc ?u)(st := rc ?u st - 1)" "held z = held ?u - {st}" "disk_img z = disk_img ?u" "disk_hist z = disk_hist ?u"
    using brelse_spec[OF us] by metis
  have run: "read_head s = Ok () z"
    using t(1,10) z(1) L io_frame_same(1)[OF t(3)] c
    by (simp add: read_head_def kmon buf_access foreach_set_lh_block set_lh_n_apply head_log_def head_n_def head_block_def)
  have k: "klog z = ?k" using io_frame_same(1)[OF z(3)] by simp
  show thesis
  proof (rule that[OF run _ k])
    have "held z = {}" using z(7) t(7) L by auto
    then show "log_at z st" using L z(2) k unfolding log_at_def by simp
    show "rc z = (\<lambda>_. 0)" using z(6) t(6) assms(3) by (auto simp: fun_eq_iff)
  qed (use z t in simp_all)
qed

section \<open>Recovery and commit\<close>

lemma log_at_klog: "log_at s st \<Longrightarrow> log_at (s\<lparr>klog := (klog s)\<lparr>log_lh := h\<rparr>\<rparr>) st"
  by (simp add: log_at_def)

lemma log_at_st: "log_ok st B \<Longrightarrow> 2 * st < 2 ^ 32"
  by (simp add: log_ok_def)

text \<open>What a header block says, as a list of block numbers, and the header that says there is no transaction.\<close>

definition head_list :: "bdata \<Rightarrow> nat list" where
  "head_list d = map (head_block d) [0..<nat (head_n d)]"

lemma head_list_put:
  assumes "log_ok st B" "n = int (length B)" "\<And>k. k < length B \<Longrightarrow> blk k = B ! k"
  shows "head_n (head_put n blk d) = n" "head_list (head_put n blk d) = B"
proof -
  have "length B \<le> LOGSIZE" using assms(1) unfolding log_ok_def by blast
  then have n: "- (2 ^ 31) \<le> n" "n < 2 ^ 31" using assms(2) by (simp_all add: param_defs)
  show e: "head_n (head_put n blk d) = n" using head_n_put[OF n] .
  have len: "length (head_list (head_put n blk d)) = length B" unfolding head_list_def e by (simp add: assms(2))
  show "head_list (head_put n blk d) = B"
  proof (rule nth_equalityI[OF len])
    fix k assume "k < length (head_list (head_put n blk d))"
    then have k: "k < length B" "k < nat n" unfolding len by (simp_all add: assms(2))
    moreover have "blk k < 2 ^ 32" using log_ok_nth(1)[OF assms(1) k(1)] assms(3)[OF k(1)] by simp
    ultimately show "head_list (head_put n blk d) ! k = B ! k"
      using assms(3) unfolding head_list_def e by (simp add: head_block_put)
  qed
qed

lemma log_ok_Nil: "log_ok st [] = (2 * st < 2 ^ 32)"
  by (simp add: log_ok_def)

text \<open>Ending a transaction in the log: the header on disk is cleared.\<close>

definition clear_head :: "logheader \<Rightarrow> bdata \<Rightarrow> bdata" where
  "clear_head h d = head_put 0 (lh_block h) d"

lemma clear_head_n: "head_n (clear_head h d) = 0"
  unfolding clear_head_def by (rule head_n_put) simp_all

lemma clear_spec:
  assumes "log_at s st" "2 * st < 2 ^ 32" "rc s = (\<lambda>_. 0)"
  obtains t where "thn (set_lh_n 0) write_head s = Ok () t" "logged t st []" "rc t = (\<lambda>_. 0)"
    "klog t = (klog s)\<lparr>log_lh := (log_lh (klog s))\<lparr>lh_n := 0\<rparr>\<rparr>"
    "content t = (content s)(st := clear_head (log_lh (klog s)) (disk_img s st))"
    "disk_img t = (disk_img s)(st := clear_head (log_lh (klog s)) (disk_img s st))"
    "disk_hist t = disk_hist s @ [(st, clear_head (log_lh (klog s)) (disk_img s st))]"
proof -
  let ?u = "s\<lparr>klog := (klog s)\<lparr>log_lh := (log_lh (klog s))\<lparr>lh_n := 0\<rparr>\<rparr>\<rparr>"
  let ?d = "head_put (lh_n (log_lh (klog ?u))) (lh_block (log_lh (klog ?u))) (disk_img ?u st)"
  have r: "rc ?u st = 0" "card {n. 0 < rc ?u n} < NBUF" using assms(3) by (simp_all add: param_defs)
  obtain t where t: "write_head ?u = Ok () t" "log_at t st" "io_frame ?u t" "rc t = rc ?u"
    "content t = (content ?u)(st := ?d)" "disk_img t = (disk_img ?u)(st := ?d)" "disk_hist t = disk_hist ?u @ [(st, ?d)]"
    using write_head_spec[OF log_at_klog[OF assms(1)] assms(2) r] .
  have k: "klog t = (klog s)\<lparr>log_lh := (log_lh (klog s))\<lparr>lh_n := 0\<rparr>\<rparr>" using io_frame_same(1)[OF t(3)] by simp
  have lg: "logged t st []" using t(2) k by (simp add: logged_def log_at_def)
  have run: "thn (set_lh_n 0) write_head s = Ok () t" using t(1) by (simp add: thn_apply set_lh_n_apply)
  show thesis by (rule that[OF run lg _ k]) (use t assms(3) in \<open>simp_all add: clear_head_def\<close>)
qed

lemma recover_spec:
  assumes "log_at s st" "rc s = (\<lambda>_. 0)" and d: "d = disk_img s st" "0 \<le> head_n d" "log_ok st (head_list d)"
  defines "W \<equiv> home_writes st (head_list d) (disk_img s) (length (head_list d))"
  obtains t h where "recover_from_log s = Ok () t" "logged t st []" "rc t = (\<lambda>_. 0)" "content t = disk_img t"
    "disk_img t = apply_writes (W @ [(st, clear_head h d)]) (disk_img s)"
    "klog t = (klog s)\<lparr>log_lh := log_lh (klog t)\<rparr>"
proof -
  let ?B = "head_list d"
  have st: "2 * st < 2 ^ 32" using log_at_st[OF d(3)] .
  have "content s = disk_img s" using clean_content assms(1,2) by (auto simp: fun_eq_iff log_at_def)
  then obtain t where t: "read_head s = Ok () t" "log_at t st" "klog t = (klog s)\<lparr>log_lh := head_log d (log_lh (klog s))\<rparr>"
    "rc t = (\<lambda>_. 0)" "content t = disk_img s" "disk_img t = disk_img s" "disk_hist t = disk_hist s"
    using read_head_spec[OF assms(1) st assms(2)] unfolding d(1) by metis
  have "lh_n (log_lh (klog t)) = int (length ?B)" "\<forall>k<length ?B. lh_block (log_lh (klog t)) k = ?B ! k"
    using t(3) d(2) by (simp_all add: head_list_def head_log_block) (simp add: head_log_def)
  then have lt: "logged t st ?B" using t(2) by (simp add: logged_def log_at_def)
  have rt: "rc t = (\<lambda>n. if n \<in> set ?B \<and> \<not> True then 1 else 0)" using t(4) by simp
  obtain u where u: "install_trans True t = Ok () u" "logged u st ?B" "io_frame t u" "rc u = (\<lambda>_. 0)"
    "content u = apply_writes W (disk_img s)" "disk_img u = apply_writes W (disk_img s)"
    using install_trans_spec[OF lt d(3) rt disjI2[OF TrueI]] unfolding t(5,6) W_def by metis
  have "disk_img u st = disk_img s st" using home_writes_log[OF d(3) order_refl, of 0] u(6) by (simp add: W_def)
  then obtain v h where v: "thn (set_lh_n 0) write_head u = Ok () v" "logged v st []" "rc v = (\<lambda>_. 0)"
    "content v = (content u)(st := clear_head h d)" "disk_img v = (disk_img u)(st := clear_head h d)"
    "klog v = (klog u)\<lparr>log_lh := (log_lh (klog u))\<lparr>lh_n := 0\<rparr>\<rparr>"
    using clear_spec[OF logged_log_at[OF u(2)] st u(4)] unfolding d(1) by metis
  have run: "recover_from_log s = Ok () v" using t(1) u(1) v(1) by (simp add: recover_from_log_def thn_apply[of read_head] thn_apply[of "install_trans _"])
  have "klog v = (klog s)\<lparr>log_lh := log_lh (klog v)\<rparr>" using v(6) io_frame_same(1)[OF u(3)] t(3) by simp
  then show thesis by (rule that[OF run v(2,3), rotated 2]) (use v u in simp_all)
qed

lemma quiet_initlock: "quiet s \<Longrightarrow> quiet (s\<lparr>locks := (locks s)(lk := (locks s lk)\<lparr>lkname := n, locked := False, lkcpu := None\<rparr>)\<rparr>)"
  unfolding quiet_def freelk_def cpu_ok_def by simp

lemma mypid_locks [simp]: "mypid (s\<lparr>locks := l\<rparr>) = mypid s"
  by (simp add: mypid_def)

lemma initlog_spec:
  assumes "io_inv r" "held r = {}" "rc r = (\<lambda>_. 0)" "sb_logstart sb = st" "d = disk_img r st" "0 \<le> head_n d" "log_ok st (head_list d)"
  defines "W \<equiv> home_writes st (head_list d) (disk_img r) (length (head_list d))"
  obtains t h where "initlog ROOTDEV sb r = Ok () t" "logged t st []" "rc t = (\<lambda>_. 0)" "content t = disk_img t"
    "disk_img t = apply_writes (W @ [(st, clear_head h d)]) (disk_img r)"
    "log_size (klog t) = int (sb_nlog sb)" "log_outstanding (klog t) = log_outstanding (klog r)" "log_committing (klog t) = log_committing (klog r)"
proof -
  let ?k = "(klog r)\<lparr>log_start := st, log_size := int (sb_nlog sb), log_dev := ROOTDEV\<rparr>"
  let ?r = "r\<lparr>locks := (locks r)(LogLock := (locks r LogLock)\<lparr>lkname := ''log'', locked := False, lkcpu := None\<rparr>), klog := ?k\<rparr>"
  have st: "slot ?r = slot r" "content ?r = content r" "rc ?r = rc r" "held ?r = held r" "bcache_ok ?r = bcache_ok r"
    by (rule store_cong; simp)+
  moreover have "quiet ?r" "disk_ok ?r" using quiet_initlock[of r LogLock] io_invD(1,2)[OF assms(1)] by (simp_all add: disk_ok_def)
  ultimately have "io_inv ?r" using assms(1) by (simp add: io_inv_def)
  then have at: "log_at ?r st" "rc ?r = (\<lambda>_. 0)" "d = disk_img ?r st" using assms st by (simp_all add: log_at_def)
  have "initlog ROOTDEV sb r = recover_from_log ?r"
    by (simp add: initlog_def initlock_def set_lock_def setlog_def kmon param_defs BSIZE_def assms(4))
  moreover have W: "W = home_writes st (head_list d) (disk_img ?r) (length (head_list d))" by (simp add: W_def)
  moreover obtain t h where t: "recover_from_log ?r = Ok () t" "logged t st []" "rc t = (\<lambda>_. 0)" "content t = disk_img t"
    "disk_img t = apply_writes (W @ [(st, clear_head h d)]) (disk_img ?r)" "klog t = (klog ?r)\<lparr>log_lh := log_lh (klog t)\<rparr>"
    by (rule recover_spec[OF at assms(6,7)]) (rule that, unfold W, assumption+)
  moreover have "log_size (klog t) = int (sb_nlog sb)" "log_outstanding (klog t) = log_outstanding (klog r)" "log_committing (klog t) = log_committing (klog r)"
    by (subst t(6), simp)+
  ultimately show thesis by (intro that[of t h]) simp_all
qed

definition commit_writes :: "nat \<Rightarrow> nat list \<Rightarrow> (nat \<Rightarrow> bdata) \<Rightarrow> bdata \<Rightarrow> bdata \<Rightarrow> (nat \<times> bdata) list" where
  "commit_writes st B c h e = log_writes st B c (length B) @ [(st, h)] @ map (\<lambda>b. (b, c b)) B @ [(st, e)]"

lemma log_writes_at:
  assumes "k < n" shows "apply_writes (log_writes st B c n) f (st + k + 1) = c (B ! k)"
proof (rule apply_writes_in)
  show "distinct (map fst (log_writes st B c n))" by (simp add: log_writes_def comp_def distinct_map inj_on_def)
  show "(st + k + 1, c (B ! k)) \<in> set (log_writes st B c n)" using assms by (auto simp: log_writes_def)
qed

lemma log_writes_st: "apply_writes (log_writes st B c n) f st = f st"
  by (rule apply_writes_other) (auto simp: log_writes_def)

lemma home_writes_new:
  "(\<And>k. k < length B \<Longrightarrow> c' (st + k + 1) = c (B ! k)) \<Longrightarrow> home_writes st B c' (length B) = map (\<lambda>b. (b, c b)) B"
  by (rule nth_equalityI) (auto simp: home_writes_def)

lemma commit_spec:
  assumes "logged s st B" "log_ok st B" "B \<noteq> []" "length B < NBUF" "rc s = (\<lambda>n. if n \<in> set B then 1 else 0)"
  obtains t h e where "commit s = Ok () t" "logged t st []" "rc t = (\<lambda>_. 0)" "content t = disk_img t"
    "disk_hist t = disk_hist s @ commit_writes st B (content s) h e" "disk_img t = apply_writes (commit_writes st B (content s) h e) (disk_img s)"
    "head_n h = int (length B)" "head_list h = B" "head_n e = 0" "klog t = (klog s)\<lparr>log_lh := (log_lh (klog s))\<lparr>lh_n := 0\<rparr>\<rparr>"
proof -
  let ?W = "log_writes st B (content s) (length B)" and ?N = "map (\<lambda>b. (b, content s b)) B"
  note L = assms(1)[unfolded logged_def]
  obtain t where t: "write_log s = Ok () t" "logged t st B" "io_frame s t" "rc t = rc s" "content t = apply_writes ?W (content s)"
    "disk_img t = apply_writes ?W (disk_img s)" "disk_hist t = disk_hist s @ ?W"
    using write_log_spec[OF assms(1,2,5,4)] .
  have kt: "klog t = klog s" using io_frame_same(1)[OF t(3)] .
  define h where "h = head_put (lh_n (log_lh (klog t))) (lh_block (log_lh (klog t))) (disk_img t st)"
  have "st \<notin> set B" using log_ok_nth(4)[OF assms(2), of _ 0] by (auto simp: in_set_conv_nth)
  then have st: "rc t st = 0" "2 * st < 2 ^ 32" using t(4) assms(5) log_at_st[OF assms(2)] by simp_all
  have "{n. 0 < rc t n} = set B" using t(4) assms(5) by auto
  then have "card {n. 0 < rc t n} < NBUF" using assms(4) card_length[of B] by simp
  then obtain u where u: "write_head t = Ok () u" "log_at u st" "io_frame t u" "rc u = rc t" "content u = (content t)(st := h)"
    "disk_img u = (disk_img t)(st := h)" "disk_hist u = disk_hist t @ [(st, h)]"
    using write_head_spec[OF logged_log_at[OF t(2)] st(2,1)] unfolding h_def by blast
  have ku: "klog u = klog s" using io_frame_same(1)[OF u(3)] kt by simp
  have lu: "logged u st B" using u(2) L ku by (simp add: logged_def log_at_def)
  have ru: "rc u = (\<lambda>n. if n \<in> set B \<and> \<not> False then 1 else 0)" using u(4) t(4) assms(5) by simp
  have "content u (st + k + 1) = content s (B ! k)" if "k < length B" for k
    using u(5) t(5) log_writes_at[OF that, of st B "content s"] by simp
  then have hw: "home_writes st B (content u) (length B) = ?N" by (rule home_writes_new)
  obtain v where v: "install_trans False u = Ok () v" "logged v st B" "io_frame u v" "rc v = (\<lambda>_. 0)" "content v = apply_writes ?N (content u)"
    "disk_img v = apply_writes ?N (disk_img u)" "disk_hist v = disk_hist u @ ?N"
    using install_trans_spec[OF lu assms(2) ru disjI1[OF assms(4)]] unfolding hw .
  define e where "e = clear_head (log_lh (klog v)) (disk_img v st)"
  obtain w where w: "thn (set_lh_n 0) write_head v = Ok () w" "logged w st []" "rc w = (\<lambda>_. 0)"
    "klog w = (klog v)\<lparr>log_lh := (log_lh (klog v))\<lparr>lh_n := 0\<rparr>\<rparr>" "content w = (content v)(st := e)"
    "disk_img w = (disk_img v)(st := e)" "disk_hist w = disk_hist v @ [(st, e)]"
    using clear_spec[OF logged_log_at[OF v(2)] st(2) v(4)] unfolding e_def .
  have run: "commit s = Ok () w"
    using t(1) u(1) v(1) w(1) L assms(3)
    by (simp add: commit_def bnd_apply gets_apply whenM_apply thn_apply[of write_log] thn_apply[of write_head] thn_apply[of "install_trans _"])
  have "content w = disk_img w" using clean_content w(2,3) by (auto simp: fun_eq_iff logged_def)
  moreover have "head_n h = int (length B)" "head_list h = B"
    using head_list_put[OF assms(2), of "lh_n (log_lh (klog t))"] L kt by (simp_all add: h_def)
  moreover have "head_n e = 0" by (simp add: e_def clear_head_n)
  moreover have "klog w = (klog s)\<lparr>log_lh := (log_lh (klog s))\<lparr>lh_n := 0\<rparr>\<rparr>" using w(4) io_frame_same(1)[OF v(3)] ku by simp
  ultimately show thesis using w t u v by (intro that[OF run w(2,3)]) (simp_all add: commit_writes_def)
qed

section \<open>Inside a transaction\<close>

text \<open>
  \<open>in_op s st B\<close>: a file system operation is in progress, the transaction has updated the blocks \<open>B\<close> so far, and every reference to a
  cached block is either the log's pin or the lock of the running process.
\<close>

definition log_room :: "nat \<Rightarrow> nat \<Rightarrow> bool" where
  "log_room st b = (2 * b < 2 ^ 32 \<and> (b < st \<or> st + LOGSIZE \<le> b))"

definition in_op :: "kstate \<Rightarrow> nat \<Rightarrow> nat list \<Rightarrow> bool" where
  "in_op s st B = (io_inv s \<and> log_dev (klog s) = ROOTDEV \<and> log_start (klog s) = st \<and> log_size (klog s) = int LOGSIZE \<and>
     \<not> log_committing (klog s) \<and> 0 < log_outstanding (klog s) \<and> lh_n (log_lh (klog s)) = int (length B) \<and>
     (\<forall>k<length B. lh_block (log_lh (klog s)) k = B ! k) \<and> distinct B \<and> (\<forall>b\<in>set B. log_room st b) \<and> 2 * (st + LOGSIZE) < 2 ^ 32 \<and>
     length B < LOGSIZE \<and> rc s = (\<lambda>n. of_bool (n \<in> set B) + of_bool (n \<in> held s)))"

lemma in_op_log_ok: "in_op s st B \<Longrightarrow> log_ok st B"
  by (auto simp: in_op_def log_ok_def log_room_def)

lemma in_op_logged: "in_op s st B \<Longrightarrow> held s = {} \<Longrightarrow> logged s st B \<and> rc s = (\<lambda>n. if n \<in> set B then 1 else 0)"
  by (auto simp: in_op_def logged_def fun_eq_iff)

lemma in_opI:
  assumes "in_op s st B" "io_inv t" "klog t = klog s" "rc t = (\<lambda>n. of_bool (n \<in> set B) + of_bool (n \<in> held t))"
  shows "in_op t st B"
  using assms by (simp add: in_op_def)

lemma op_bread:
  assumes "in_op s st B" "2 * bn < 2 ^ 32" "bn \<notin> held s" "bn \<in> set B \<or> card (set B \<union> held s) < NBUF"
  obtains i t where "bread ROOTDEV bn s = Ok i t" "in_op t st B" "io_frame s t" "slot t bn = Some i" "content t = content s"
    "held t = insert bn (held s)" "disk_img t = disk_img s" "disk_hist t = disk_hist s"
    "\<And>n. n \<in> held s \<Longrightarrow> slot t n = slot s n" "b_data (bufs t i) = content s bn"
proof -
  have s: "io_inv s" "rc s = (\<lambda>n. of_bool (n \<in> set B) + of_bool (n \<in> held s))" using assms(1) unfolding in_op_def by blast+
  have "{n. 0 < rc s n} = set B \<union> held s" using s(2) by auto
  then have room: "0 < rc s bn \<or> card {n. 0 < rc s n} < NBUF" using assms(4) s(2) by auto
  show thesis
    by (rule bread_spec[OF s(1) assms(2,3) room], rule that, assumption)
      (use s(2) assms(1,3) io_frame_same(1) in \<open>auto intro!: in_opI[OF assms(1)] simp: fun_eq_iff\<close>)
qed

lemma op_setb:
  assumes "in_op s st B" "slot s bn = Some i" "bn \<in> held s"
  obtains t where "setb i (\<lambda>b. b\<lparr>b_data := g (b_data b)\<rparr>) s = Ok () t" "in_op t st B" "io_frame s t" "slot t = slot s"
    "content t = (content s)(bn := g (content s bn))" "held t = held s" "disk_img t = disk_img s" "disk_hist t = disk_hist s"
proof -
  have s: "io_inv s" "rc s = (\<lambda>n. of_bool (n \<in> set B) + of_bool (n \<in> held s))" using assms(1) unfolding in_op_def by blast+
  show thesis
    by (rule setb_data[OF s(1) assms(2,3), of g], rule that, assumption)
      (use s(2) assms(1) io_frame_same(1) in \<open>auto intro!: in_opI[OF assms(1)]\<close>)
qed

lemma op_brelse:
  assumes "in_op s st B" "slot s bn = Some i" "bn \<in> held s" "bn \<in> set B \<or> content s bn = disk_img s bn"
  obtains t where "brelse i s = Ok () t" "in_op t st B" "io_frame s t" "slot t = slot s" "content t = content s"
    "held t = held s - {bn}" "disk_img t = disk_img s" "disk_hist t = disk_hist s"
proof -
  have s: "io_inv s" "rc s = (\<lambda>n. of_bool (n \<in> set B) + of_bool (n \<in> held s))" using assms(1) unfolding in_op_def by blast+
  have ok: "1 < rc s bn \<or> content s bn = disk_img s bn" using assms(3,4) s(2) by auto
  show thesis
    by (rule brelse_spec[OF s(1) assms(2,3) ok], rule that, assumption)
      (use s(2) assms(1,3) io_frame_same(1) in \<open>auto intro!: in_opI[OF assms(1)] simp: fun_eq_iff\<close>)
qed

text \<open>\<open>op_frame s t\<close>: between \<open>s\<close> and \<open>t\<close> only the cache, the disk, the driver and the log have changed.\<close>

definition op_frame :: "kstate \<Rightarrow> kstate \<Rightarrow> bool" where
  "op_frame s t = (sync t = sync (s\<lparr>slocks := slocks t, bufs := bufs t, bhead_prev := bhead_prev t, bhead_next := bhead_next t,
     vdisk := vdisk t, disk_img := disk_img t, disk_hist := disk_hist t, mmio := mmio t, klog := klog t\<rparr>) \<and> other_sl s t)"

lemma io_op_frame: "io_frame s t \<Longrightarrow> op_frame s t"
  using io_frame_same(1)[of s t] by (simp add: io_frame_def op_frame_def)

lemma op_frame_refl [simp]: "op_frame s s"
  by (simp add: op_frame_def)

lemma op_frame_trans: "op_frame s t \<Longrightarrow> op_frame t u \<Longrightarrow> op_frame s u"
proof -
  assume a: "op_frame s t" and b: "op_frame t u"
  let ?f = "\<lambda>r. r\<lparr>slocks := slocks u, bufs := bufs u, bhead_prev := bhead_prev u, bhead_next := bhead_next u, vdisk := vdisk u,
     disk_img := disk_img u, disk_hist := disk_hist u, mmio := mmio u, klog := klog u\<rparr>"
  have "sync u = sync (?f t)" using b unfolding op_frame_def by (rule conjunct1)
  also have "\<dots> = sync (?f (sync t))" by simp
  also have "sync t = sync (s\<lparr>slocks := slocks t, bufs := bufs t, bhead_prev := bhead_prev t, bhead_next := bhead_next t,
     vdisk := vdisk t, disk_img := disk_img t, disk_hist := disk_hist t, mmio := mmio t, klog := klog t\<rparr>)"
    using a unfolding op_frame_def by (rule conjunct1)
  also have "sync (?f (sync (s\<lparr>slocks := slocks t, bufs := bufs t, bhead_prev := bhead_prev t, bhead_next := bhead_next t,
     vdisk := vdisk t, disk_img := disk_img t, disk_hist := disk_hist t, mmio := mmio t, klog := klog t\<rparr>))) = sync (?f s)" by simp
  finally show ?thesis using a b other_sl_trans unfolding op_frame_def by blast
qed

lemma op_frame_select:
  assumes "op_frame s t" "\<And>u. f (sync u) = f u"
    "\<And>u a b c d e g h k l. f (u\<lparr>slocks := a, bufs := b, bhead_prev := c, bhead_next := d, vdisk := e, disk_img := g, disk_hist := h, mmio := k, klog := l\<rparr>) = f u"
  shows "f t = f s"
proof -
  have "f t = f (sync t)" by (simp add: assms(2))
  also have "\<dots> = f (s\<lparr>slocks := slocks t, bufs := bufs t, bhead_prev := bhead_prev t, bhead_next := bhead_next t,
     vdisk := vdisk t, disk_img := disk_img t, disk_hist := disk_hist t, mmio := mmio t, klog := klog t\<rparr>)"
    using assms(1) unfolding op_frame_def by (simp add: assms(2))
  finally show ?thesis by (simp add: assms(3))
qed

lemma op_frame_same: "op_frame s t \<Longrightarrow> sblk t = sblk s" "op_frame s t \<Longrightarrow> inodes t = inodes s" "op_frame s t \<Longrightarrow> mypid t = mypid s"
  "op_frame s t \<Longrightarrow> curproc t = curproc s" "op_frame s t \<Longrightarrow> procs t = procs s" "op_frame s t \<Longrightarrow> mem t = mem s"
  "op_frame s t \<Longrightarrow> files t = files s" "op_frame s t \<Longrightarrow> freelist t = freelist s" "op_frame s t \<Longrightarrow> pipes t = pipes s"
  by (erule op_frame_select; simp)+

lemma log_find_cases:
  assumes "lh_n (log_lh l) = int (length B)" "\<And>k. k < length B \<Longrightarrow> lh_block (log_lh l) k = B ! k"
  shows "log_find l bn < length B \<and> B ! log_find l bn = bn \<or> log_find l bn = length B \<and> bn \<notin> set B"
proof (cases "find (\<lambda>i. lh_block (log_lh l) i = bn) [0..<length B]")
  case None
  then have "bn \<notin> set B" using assms(2) by (auto simp: find_None_iff in_set_conv_nth)
  then show ?thesis using None assms(1) by (simp add: log_find_def)
next
  case (Some k)
  then show ?thesis using assms find_mem[OF Some] by (auto simp: log_find_def)
qed

lemma log_write_run:
  assumes "quiet s" "lh_n (log_lh (klog s)) < int LOGSIZE" "lh_n (log_lh (klog s)) < log_size (klog s) - 1" "0 < log_outstanding (klog s)"
    and k: "k = log_find (klog s) (b_blockno (bufs s i))"
  shows "log_write i s = Ok () (sync (if int k = lh_n (log_lh (klog s))
    then s\<lparr>bufs := (bufs s)(i := (bufs s i)\<lparr>b_refcnt := b_refcnt (bufs s i) + 1\<rparr>),
       klog := (klog s)\<lparr>log_lh := (log_lh (klog s))\<lparr>lh_block := (lh_block (log_lh (klog s)))(k := b_blockno (bufs s i)), lh_n := lh_n (log_lh (klog s)) + 1\<rparr>\<rparr>\<rparr>
    else s\<lparr>klog := (klog s)\<lparr>log_lh := (log_lh (klog s))\<lparr>lh_block := (lh_block (log_lh (klog s)))(k := b_blockno (bufs s i))\<rparr>\<rparr>\<rparr>))"
proof -
  have c: "\<not> (int LOGSIZE \<le> lh_n (log_lh (klog s)) \<or> log_size (klog s) - 1 \<le> lh_n (log_lh (klog s)))" "\<not> log_outstanding (klog s) < 1"
    using assms(2-4) by linarith+
  show ?thesis
    using assms(1) c k by (simp add: log_write_def kmon buf_access bpin_def log_access Let_def)
qed

lemma op_log_write:
  assumes "in_op s st B" "slot s bn = Some i" "bn \<in> held s" "log_room st bn" "length B < LOGSIZE - 1"
  obtains t where "log_write i s = Ok () t" "in_op t st (if bn \<in> set B then B else B @ [bn])" "op_frame s t" "slot t = slot s"
    "content t = content s" "held t = held s" "disk_img t = disk_img s" "disk_hist t = disk_hist s"
proof -
  note O = assms(1)[unfolded in_op_def]
  have s: "io_inv s" "quiet s" using O by (auto dest: io_invD)
  have bn: "b_blockno (bufs s i) = bn" using slot_SomeD[OF assms(2)] by simp
  define k where "k = log_find (klog s) bn"
  have n: "lh_n (log_lh (klog s)) < int LOGSIZE" "lh_n (log_lh (klog s)) < log_size (klog s) - 1" "0 < log_outstanding (klog s)"
    using O assms(5) by auto
  have kc: "k < length B \<and> B ! k = bn \<or> k = length B \<and> bn \<notin> set B" unfolding k_def by (rule log_find_cases) (use O in blast)+
  have fe: "(\<lambda>b. b\<lparr>b_refcnt := b_refcnt b + 1\<rparr>) = (\<lambda>b :: buf. b\<lparr>b_data := b_data b, b_refcnt := b_refcnt b + 1\<rparr>)" by (rule ext) simp
  have pos: "0 < rc s bn + 1" using rc_nonneg[OF s(1), of bn] by simp
  note m = setb_spec[OF s(1) assms(2,3) fe pos]
  note run = log_write_run[OF s(2) n, of k i, unfolded bn, OF k_def]
  show thesis
  proof (cases "bn \<in> set B")
    case True
    then have k: "k < length B" "B ! k = bn" using kc by auto
    then have "int k \<noteq> lh_n (log_lh (klog s))" using O by simp
    note that[OF run[unfolded if_not_P[OF this]]]
    then show thesis by this (use True O k in \<open>auto simp: in_op_def op_frame_def other_sl_def\<close>)
  next
    case False
    then have k: "k = length B" using kc in_set_conv_nth by force
    then have "int k = lh_n (log_lh (klog s))" using O by simp
    note that[OF run[unfolded if_P[OF this]]]
    then show thesis by this (use False O k m assms(3-5) in \<open>auto simp: in_op_def op_frame_def other_sl_def nth_append fun_eq_iff\<close>)
  qed
qed

lemma new_other: "b \<notin> set B \<Longrightarrow> apply_writes (map (\<lambda>b. (b, c b)) B) f b = f b"
  by (rule apply_writes_other) (simp add: image_image)

lemma new_in: "apply_writes (map (\<lambda>b. (b, c b)) B) f b = (if b \<in> set B then c b else f b)"
  by (induction B arbitrary: f) auto

lemma log_writes_out: "b \<notin> {st..st + length B} \<Longrightarrow> m \<le> length B \<Longrightarrow> apply_writes (log_writes st B c m) f b = f b"
  by (rule apply_writes_other) (auto simp: log_writes_def)

lemma take_commit_writes:
  assumes "m \<le> 2 * length B + 1"
  shows "take m (commit_writes st B c h e) = (if m \<le> length B then log_writes st B c m else
     log_writes st B c (length B) @ [(st, h)] @ map (\<lambda>b. (b, c b)) (take (m - length B - 1) B))"
  using assms by (auto simp: commit_writes_def log_writes_def take_map take_Cons')

lemma take_commit_all: "2 * length B + 1 < m \<Longrightarrow> take m (commit_writes st B c h e) = commit_writes st B c h e"
  by (simp add: commit_writes_def log_writes_def)

section \<open>Beginning and ending operations\<close>

lemma begin_op_admit:
  assumes "quiet s" "\<not> log_committing (klog s)" "lh_n (log_lh (klog s)) + (log_outstanding (klog s) + 1) * int MAXOPBLOCKS \<le> int LOGSIZE"
  shows "begin_op s = Ok () (sync (s\<lparr>klog := (klog s)\<lparr>log_outstanding := log_outstanding (klog s) + 1\<rparr>\<rparr>))"
  using assms by (simp add: begin_op_def begin_op_loop_def kmon log_access not_less)

lemma begin_op_wait:
  assumes "quiet s" "curproc s = Some p"
    "log_committing (klog s) \<or> int LOGSIZE < lh_n (log_lh (klog s)) + (log_outstanding (klog s) + 1) * int MAXOPBLOCKS"
  shows "begin_op s = Swtch (acq (ProcLock p) (s\<lparr>procs := (procs s)(p :=
     (procs s p)\<lparr>p_chan := LogChan, p_state := SLEEPING, p_intena := sie s\<rparr>)\<rparr>))"
proof -
  have "sleep LogChan LogLock (acq LogLock s) = Swtch (acq (ProcLock p) (s\<lparr>procs := (procs s)(p :=
     (procs s p)\<lparr>p_chan := LogChan, p_state := SLEEPING, p_intena := sie s\<rparr>)\<rparr>))"
    by (rule sleep_eq) (use assms in simp_all)
  then show ?thesis using assms by (auto simp: begin_op_def begin_op_loop_def kmon)
qed

lemma end_op_more:
  assumes "quiet s" "\<not> log_committing (klog s)" "log_outstanding (klog s) \<noteq> 1"
  shows "end_op s = Ok () (sync (s\<lparr>klog := (klog s)\<lparr>log_outstanding := log_outstanding (klog s) - 1\<rparr>\<rparr>))"
  using assms by (simp add: end_op_def kmon log_access)

lemma end_op_last:
  assumes "quiet s" "\<not> log_committing (klog s)" "log_outstanding (klog s) = 1"
    and "commit (sync (s\<lparr>klog := (klog s)\<lparr>log_outstanding := 0, log_committing := True\<rparr>\<rparr>)) = Ok () t" "quiet t"
  shows "end_op s = Ok () (sync (t\<lparr>klog := (klog t)\<lparr>log_committing := False\<rparr>\<rparr>))"
  using assms by (simp add: end_op_def kmon log_access)

lemma end_op_spec:
  assumes "in_op s st B" "held s = {}" "log_outstanding (klog s) = 1" "B \<noteq> []"
  obtains t where "end_op s = Ok () t" "logged t st []" "rc t = (\<lambda>_. 0)" "content t = disk_img t"
    "\<And>b. b \<notin> {st..st + length B} \<Longrightarrow> content t b = content s b" "head_n (disk_img t st) = 0"
    "\<not> log_committing (klog t)" "log_outstanding (klog t) = 0"
proof -
  let ?s = "sync (s\<lparr>klog := (klog s)\<lparr>log_outstanding := 0, log_committing := True\<rparr>\<rparr>)"
  note O = assms(1)[unfolded in_op_def]
  have q: "quiet s" "io_inv s" using O io_invD(1) by auto
  have l: "logged ?s st B" "rc ?s = (\<lambda>n. if n \<in> set B then 1 else 0)" using in_op_logged[OF assms(1,2)] by (simp_all add: logged_def)
  have nb: "length B < NBUF" using O by (simp add: param_defs)
  obtain t h e where t: "commit ?s = Ok () t" "logged t st []" "rc t = (\<lambda>_. 0)" "content t = disk_img t"
    "disk_img t = apply_writes (commit_writes st B (content ?s) h e) (disk_img ?s)" "head_n e = 0"
    "klog t = (klog ?s)\<lparr>log_lh := (log_lh (klog ?s))\<lparr>lh_n := 0\<rparr>\<rparr>"
    using commit_spec[OF l(1) in_op_log_ok[OF assms(1)] assms(4) nb l(2)] by metis
  have qt: "quiet t" using t(2) io_invD(1) unfolding logged_def by blast
  have out: "content t b = content s b" if "b \<notin> {st..st + length B}" for b
    using that t(4,5) log_writes_out[OF that order_refl] clean_content[OF q(2), of b] l(2)
    by (auto simp: commit_writes_def new_in split: if_splits)
  have nc: "\<not> log_committing (klog s)" using O by blast
  note run = end_op_last[OF q(1) nc assms(3) t(1) qt]
  show thesis by (rule that[OF run])
    (use t out in \<open>simp_all add: logged_def commit_writes_def\<close>)
qed

section \<open>Properties\<close>

text \<open>A machine that has just booted from the disk \<open>img\<close>: the block cache is initialised, and nothing has been read or locked.\<close>

definition rebooted :: "kstate \<Rightarrow> (nat \<Rightarrow> bdata) \<Rightarrow> bool" where
  "rebooted r img = (io_inv r \<and> held r = {} \<and> rc r = (\<lambda>_. 0) \<and> disk_img r = img)"

lemma recover_before:
  assumes "rebooted r img" "sb_logstart sb = st" "2 * st < 2 ^ 32" "head_n (img st) = 0"
  obtains t where "initlog ROOTDEV sb r = Ok () t" "logged t st []" "rc t = (\<lambda>_. 0)" "content t = disk_img t"
    "head_n (disk_img t st) = 0" "\<And>b. b \<noteq> st \<Longrightarrow> disk_img t b = img b"
proof -
  note R = assms(1)[unfolded rebooted_def]
  have l: "head_list (img st) = []" using assms(4) by (simp add: head_list_def)
  have r: "io_inv r" "held r = {}" "rc r = (\<lambda>_. 0)" "img st = disk_img r st" using R by blast+
  have h: "0 \<le> head_n (img st)" "log_ok st (head_list (img st))" using assms(3,4) l by (simp_all add: log_ok_Nil)
  show thesis by (rule initlog_spec[OF r(1-3) assms(2) r(4) h], rule that, assumption)
    (use R in \<open>simp_all add: l home_writes_def clear_head_n\<close>)
qed

lemma recover_after:
  assumes "rebooted r img" "sb_logstart sb = st" "log_ok st B" "head_n (img st) = int (length B)" "head_list (img st) = B"
    "\<And>k. k < length B \<Longrightarrow> img (st + k + 1) = c (B ! k)"
  obtains t where "initlog ROOTDEV sb r = Ok () t" "logged t st []" "rc t = (\<lambda>_. 0)" "content t = disk_img t"
    "head_n (disk_img t st) = 0" "\<And>b. b \<noteq> st \<Longrightarrow> disk_img t b = (if b \<in> set B then c b else img b)"
proof -
  note R = assms(1)[unfolded rebooted_def]
  have r: "io_inv r" "held r = {}" "rc r = (\<lambda>_. 0)" "img st = disk_img r st" and im: "disk_img r = img" using R by blast+
  have h: "0 \<le> head_n (img st)" "log_ok st (head_list (img st))" using assms(3-5) by simp_all
  have hw: "home_writes st B img (length B) = map (\<lambda>b. (b, c b)) B" using assms(6) by (rule home_writes_new)
  show thesis by (rule initlog_spec[OF r(1-3) assms(2) r(4) h], rule that, assumption)
    (simp_all add: assms(5) im hw clear_head_n new_in)
qed

definition recovers :: "superblock \<Rightarrow> nat \<Rightarrow> nat list \<Rightarrow> (nat \<Rightarrow> bdata) \<Rightarrow> kstate \<Rightarrow> bool" where
  "recovers sb st B c r = (\<exists>r'. initlog ROOTDEV sb r = Ok () r' \<and> head_n (disk_img r' st) = 0 \<and>
     (\<forall>b. b \<notin> {st..st + length B} \<longrightarrow> content r' b = c b))"

lemma recovers_before:
  assumes "rebooted r img" "sb_logstart sb = st" "2 * st < 2 ^ 32" "head_n (img st) = 0" "\<And>b. b \<notin> {st..st + length B} \<Longrightarrow> img b = c b"
  shows "recovers sb st B c r"
  by (rule recover_before[OF assms(1-4)]) (use assms(5) in \<open>auto simp: recovers_def\<close>)

lemma recovers_after:
  fixes B c j f h st
  defines "img \<equiv> apply_writes (map (\<lambda>b. (b, c b)) (take j B)) ((apply_writes (log_writes st B c (length B)) f)(st := h))"
  assumes "rebooted r img" "sb_logstart sb = st" "log_ok st B" "head_n h = int (length B)" "head_list h = B" "\<And>b. b \<notin> set B \<Longrightarrow> c b = f b"
  shows "recovers sb st B c r"
proof -
  have st: "st + k \<notin> set B" if "k \<le> length B" for k
    using log_ok_nth(4)[OF assms(4) _ that] by (auto simp: in_set_conv_nth)
  have T: "b \<notin> set (take j B)" if "b \<notin> set B" for b using that set_take_subset by fastforce
  have hd: "img st = h" using T st[of 0] by (simp add: img_def new_other)
  have lg: "img (st + k + 1) = c (B ! k)" if "k < length B" for k
    using T st[of "k + 1"] that log_writes_at[OF that, of st B c] by (simp add: img_def new_other)
  have o: "(if b \<in> set B then c b else img b) = c b" if "b \<notin> {st..st + length B}" for b
    using that T assms(7) log_writes_out[OF that order_refl] by (auto simp: img_def new_other)
  have hn: "head_n (img st) = int (length B)" "head_list (img st) = B" using hd assms(5,6) by simp_all
  show ?thesis by (rule recover_after[OF assms(2,3,4) hn lg]) (use o in \<open>auto simp: recovers_def\<close>)
qed

text \<open>
  C1: A commit is atomic with respect to crashes. Let the log hold a transaction that updates the blocks \<open>B\<close>, and let the machine
  stop after any number \<open>m\<close> of the disk writes of \<open>commit\<close>. The recovery of the next boot returns, and what every block outside the log
  then reads as is its old contents if \<open>m \<le> length B\<close>, for all blocks together, and its new contents otherwise. The header on disk is clear
  again, so the disk is ready for the next transaction and for another crash.
\<close>

theorem commit_crash_atomic:
  assumes "logged s st B" "log_ok st B" "B \<noteq> []" "length B < NBUF" "rc s = (\<lambda>n. if n \<in> set B then 1 else 0)" "head_n (disk_img s st) = 0"
    "sb_logstart sb = st"
  shows "\<exists>t W. commit s = Ok () t \<and> disk_hist t = disk_hist s @ W \<and> disk_img t = apply_writes W (disk_img s) \<and>
    (\<forall>m r. rebooted r (apply_writes (take m W) (disk_img s)) \<longrightarrow>
      recovers sb st B (if m \<le> length B then disk_img s else content s) r)"
proof -
  obtain t h e where t: "commit s = Ok () t" "disk_hist t = disk_hist s @ commit_writes st B (content s) h e"
    "disk_img t = apply_writes (commit_writes st B (content s) h e) (disk_img s)"
    and h: "head_n h = int (length B)" "head_list h = B" "head_n e = 0"
    using commit_spec[OF assms(1-5)] by metis
  let ?W = "commit_writes st B (content s) h e" and ?c = "content s"
  have clean: "?c b = disk_img s b" if "b \<notin> set B" for b
    using clean_content[of s b] assms(1,5) that by (simp add: logged_def)
  have "recovers sb st B (if m \<le> length B then disk_img s else content s) r"
    if r: "rebooted r (apply_writes (take m ?W) (disk_img s))" for m r
  proof -
    consider (old) "m \<le> length B" | (mid) "length B < m" "m \<le> 2 * length B + 1" | (new) "2 * length B + 1 < m" by linarith
    then show ?thesis
    proof cases
      case old
      then have "rebooted r (apply_writes (log_writes st B ?c m) (disk_img s))" using r take_commit_writes[of m B st ?c h e] by simp
      then have "recovers sb st B (disk_img s) r"
        by (rule recovers_before[OF _ assms(7) log_at_st[OF assms(2)]])
          (use old assms(6) in \<open>simp_all add: log_writes_st log_writes_out\<close>)
      then show ?thesis using old by simp
    next
      case mid
      then show ?thesis
        using recovers_after[where f="disk_img s", OF _ assms(7,2) h(1,2) clean] r take_commit_writes[of m B st ?c h e] by simp
    next
      case new
      then have "rebooted r (apply_writes ?W (disk_img s))" using r take_commit_all[of B m st ?c h e] by simp
      then have "recovers sb st B ?c r"
        by (rule recovers_before[OF _ assms(7) log_at_st[OF assms(2)]])
          (auto simp: commit_writes_def h(3) new_in clean log_writes_out)
      then show ?thesis using new by simp
    qed
  qed
  then show ?thesis using t by blast
qed

text \<open>A state in the middle of a transaction: block 45 has been updated in the cache and logged, and the disk is empty.\<close>

definition demo_buf :: "buf \<Rightarrow> buf" where
  "demo_buf b = b\<lparr>b_valid := True, b_dev := ROOTDEV, b_blockno := 45, b_refcnt := 1, b_data := (\<lambda>_. 7)\<rparr>"

definition demo_log :: "nat \<Rightarrow> (nat \<Rightarrow> nat) \<Rightarrow> int \<Rightarrow> klog" where
  "demo_log n blk k = \<lparr>log_start = 2, log_size = int LOGSIZE, log_outstanding = k, log_committing = False, log_dev = ROOTDEV,
     log_lh = \<lparr>lh_n = int n, lh_block = blk\<rparr>\<rparr>"

definition demo_tx :: kstate where
  "demo_tx = (demo_io (\<lambda>_ _. 0))\<lparr>bufs := (bufs (demo_io (\<lambda>_ _. 0)))(0 := demo_buf (bufs (demo_io (\<lambda>_ _. 0)) 0)),
     klog := demo_log 1 (\<lambda>_. 45) 1\<rparr>"

definition demo_sb :: superblock where
  "demo_sb = \<lparr>sb_magic = FSMAGIC, sb_size = 1000, sb_nblocks = 954, sb_ninodes = 200, sb_nlog = 30, sb_logstart = 2,
     sb_inodestart = 32, sb_bmapstart = 45\<rparr>"

lemma demo_tx_store:
  "io_inv demo_tx" "held demo_tx = {}" "rc demo_tx = (\<lambda>n. if n = 45 then 1 else 0)" "content demo_tx = (\<lambda>n _. if n = 45 then 7 else 0)"
proof -
  let ?d = "demo_io (\<lambda>_ _. 0)" and ?s = demo_tx
  have d: "quiet ?d" "bcache_ok ?d" "disk_ok ?d" using demo_io_facts(1) by (simp_all add: io_inv_def)
  have b: "bufs ?s i = (if i = 0 then demo_buf (bufs ?d 0) else bufs ?d i)" "\<not> b_valid (bufs ?d i)" "b_dev (bufs ?d i) = 0"
    "b_refcnt (bufs ?d i) = 0" for i by (simp_all add: demo_tx_def demo_io_def zero_buf_def)
  obtain xs where "lru ?d xs" using d(2) by (auto simp: bcache_ok_def)
  moreover have "bnext ?s = bnext ?d" "bprev ?s = bprev ?d" by (rule links_cong; simp add: demo_tx_def demo_buf_def)+
  ultimately have l: "lru ?s xs" by (simp add: lru_def)
  have lk: "\<not> sl_locked (slocks ?s (BufSL i))" if "i < NBUF" for i
    using bcache_okD(2)[OF d(2) that b(4)] by (simp add: demo_tx_def)
  have ok: "bcache_ok ?s" unfolding bcache_ok_def using l lk by (auto simp: b demo_buf_def ROOTDEV_def)
  moreover have "quiet ?s" "disk_ok ?s" using d by (simp_all add: demo_tx_def disk_ok_def)
  ultimately show "io_inv ?s" by (simp add: io_inv_def)
  have sl: "slot ?s n = (if n = 45 then Some 0 else None)" for n
    using slot_SomeI[OF ok, of 0 45] by (auto simp: slot_None b demo_buf_def ROOTDEV_def NBUF_def MAXOPBLOCKS_def)
  then show "held ?s = {}" using lk[of 0] by (auto simp: held_def NBUF_def MAXOPBLOCKS_def split: if_splits)
  have "disk_img ?s = (\<lambda>_ _. 0)" by (simp add: demo_tx_def demo_io_def demo_disk_def demo_run_def) (simp add: boot_state_def)
  then show "rc ?s = (\<lambda>n. if n = 45 then 1 else 0)" "content ?s = (\<lambda>n _. if n = 45 then 7 else 0)"
    by (auto simp: rc_def content_def sl b demo_buf_def fun_eq_iff)
qed

lemma demo_tx_op: "in_op demo_tx 2 [45]" "disk_img demo_tx = (\<lambda>_ _. 0)" "log_outstanding (klog demo_tx) = 1"
proof -
  have "klog demo_tx = demo_log 1 (\<lambda>_. 45) 1" by (simp add: demo_tx_def)
  then show "in_op demo_tx 2 [45]" "log_outstanding (klog demo_tx) = 1"
    using demo_tx_store by (auto simp: in_op_def demo_log_def log_room_def param_defs fun_eq_iff)
  show "disk_img demo_tx = (\<lambda>_ _. 0)" by (simp add: demo_tx_def demo_io_def demo_disk_def demo_run_def) (simp add: boot_state_def)
qed

lemma rebooted_demo: "rebooted (demo_io img) img"
proof -
  have "disk_img (demo_io img) = img" by (simp add: demo_io_def demo_disk_def demo_run_def) (simp add: boot_state_def)
  then show ?thesis by (simp add: rebooted_def demo_io_facts)
qed

theorem commit_crash_atomic_witness:
  "\<exists>t W. commit demo_tx = Ok () t \<and> disk_hist t = disk_hist demo_tx @ W \<and>
    (\<forall>m. recovers demo_sb 2 [45] (if m \<le> 1 then (\<lambda>_ _. 0) else (\<lambda>n _. if n = 45 then 7 else 0)) (demo_io (apply_writes (take m W) (\<lambda>_ _. 0))))"
proof -
  have l: "logged demo_tx 2 [45]" "rc demo_tx = (\<lambda>n. if n \<in> set [45] then 1 else 0)"
    using in_op_logged[OF demo_tx_op(1) demo_tx_store(2)] by blast+
  have h: "head_n (disk_img demo_tx 2) = 0" by (simp add: demo_tx_op(2) head_n_def le32_def)
  obtain t W where "commit demo_tx = Ok () t" "disk_hist t = disk_hist demo_tx @ W"
    and r: "\<forall>m r. rebooted r (apply_writes (take m W) (disk_img demo_tx)) \<longrightarrow>
      recovers demo_sb 2 [45] (if m \<le> length [45::nat] then disk_img demo_tx else content demo_tx) r"
    using commit_crash_atomic[OF l(1) in_op_log_ok[OF demo_tx_op(1)] _ _ l(2) h, of demo_sb] by (auto simp: param_defs demo_sb_def)
  moreover have "recovers demo_sb 2 [45] (if m \<le> 1 then (\<lambda>_ _. 0) else (\<lambda>n _. if n = 45 then 7 else 0)) (demo_io (apply_writes (take m W) (\<lambda>_ _. 0)))" for m
    using r[rule_format, OF rebooted_demo, of m] by (simp add: demo_tx_op(2) demo_tx_store(4) split: if_splits)
  ultimately show ?thesis by blast
qed

text \<open>
  C25: Ending the last operation of a transaction writes it to the disk: \<open>end_op\<close> returns, every block outside the log then has on disk
  the contents it had in the cache, the log is empty on disk and in memory, no block is pinned any more and the log admits operations again.
\<close>

theorem end_op_makes_durable:
  assumes "in_op s st B" "held s = {}" "log_outstanding (klog s) = 1" "B \<noteq> []"
  shows "\<exists>t. end_op s = Ok () t \<and> (\<forall>b. b \<notin> {st..st + length B} \<longrightarrow> disk_img t b = content s b) \<and> content t = disk_img t \<and>
    head_n (disk_img t st) = 0 \<and> lh_n (log_lh (klog t)) = 0 \<and> rc t = (\<lambda>_. 0) \<and> \<not> log_committing (klog t) \<and> log_outstanding (klog t) = 0"
  by (rule end_op_spec[OF assms]) (auto simp: logged_def)

theorem end_op_makes_durable_witness:
  "\<exists>t. end_op demo_tx = Ok () t \<and> disk_img t 45 0 = 7 \<and> disk_img t 46 0 = 0"
  using end_op_makes_durable[OF demo_tx_op(1) demo_tx_store(2) demo_tx_op(3)] by (fastforce simp: demo_tx_store(4))

text \<open>
  C26: \<open>log_write\<close> adds a block the caller has locked to the transaction: a block that is already in it is absorbed, so that the
  transaction stays a list of different blocks, and a new one is pinned in the cache until it has been installed. No contents change, and
  nothing is written to the disk.
\<close>

theorem log_write_records:
  assumes "in_op s st B" "slot s bn = Some i" "bn \<in> held s" "log_room st bn" "length B < LOGSIZE - 1"
  shows "\<exists>t. log_write i s = Ok () t \<and> in_op t st (if bn \<in> set B then B else B @ [bn]) \<and> content t = content s \<and>
    held t = held s \<and> disk_img t = disk_img s \<and> disk_hist t = disk_hist s"
  using op_log_write[OF assms] by metis

theorem log_write_records_witness:
  "\<exists>i t u. bread ROOTDEV 46 demo_tx = Ok i t \<and> log_write i t = Ok () u \<and> in_op u 2 [45, 46]"
proof -
  have c: "(46::nat) \<in> set [45] \<or> card (set [45::nat] \<union> held demo_tx) < NBUF" by (simp add: demo_tx_store(2) NBUF_def MAXOPBLOCKS_def)
  have n: "2 * 46 < (2::nat) ^ 32" "46 \<notin> held demo_tx" by (simp_all add: demo_tx_store(2))
  obtain i t where t: "bread ROOTDEV 46 demo_tx = Ok i t" "in_op t 2 [45]" "slot t 46 = Some i" "held t = insert 46 (held demo_tx)"
    using op_bread[OF demo_tx_op(1) n c] by metis
  have "log_room 2 46" "length [45::nat] < LOGSIZE - 1" "46 \<in> held t" using t(4) by (simp_all add: log_room_def param_defs)
  then show ?thesis using log_write_records[OF t(2,3)] t(1) by fastforce
qed

text \<open>
  C27: When \<open>begin_op\<close> lets an operation start. If a commit is running, or if the blocks in the log and \<open>MAXOPBLOCKS\<close> = 10 for every operation in
  progress and the new one are more than the constant \<open>LOGSIZE\<close>, the caller is put to sleep on the log and the log is unchanged; otherwise
  it returns with the operation counted and nothing else of the log changed. In a log of \<open>LOGSIZE\<close> blocks, which holds one block less because of its header, that
  leaves room for nine new blocks of every operation in progress, the new one included.
\<close>

theorem begin_op_admission:
  assumes "quiet s" "curproc s = Some p"
  shows "if log_committing (klog s) \<or> int LOGSIZE < lh_n (log_lh (klog s)) + (log_outstanding (klog s) + 1) * int MAXOPBLOCKS
    then \<exists>t. begin_op s = Swtch t \<and> p_state (procs t p) = SLEEPING \<and> p_chan (procs t p) = LogChan \<and> klog t = klog s
    else \<exists>t. begin_op s = Ok () t \<and> klog t = (klog s)\<lparr>log_outstanding := log_outstanding (klog s) + 1\<rparr> \<and> quiet t \<and>
      lh_n (log_lh (klog t)) + log_outstanding (klog t) * int MAXOPBLOCKS \<le> int LOGSIZE \<and>
      (log_size (klog s) = int LOGSIZE \<and> 0 \<le> log_outstanding (klog s) \<longrightarrow>
        lh_n (log_lh (klog t)) + log_outstanding (klog t) * (int MAXOPBLOCKS - 1) \<le> log_size (klog t) - 1)"
  using begin_op_wait[OF assms] begin_op_admit[OF assms(1)] assms(1) by (auto simp: not_less algebra_simps)

theorem begin_op_admission_witness:
  "(\<exists>t. begin_op demo_tx = Ok () t \<and> log_outstanding (klog t) = 2 \<and> lh_n (log_lh (klog t)) + 2 * 9 \<le> log_size (klog t) - 1) \<and>
   (\<exists>t. begin_op (demo_tx\<lparr>klog := demo_log 21 (\<lambda>k. 100 + k) 0\<rparr>) = Swtch t \<and> p_state (procs t 0) = SLEEPING)"
proof -
  have q: "quiet demo_tx" "curproc demo_tx = Some 0" using demo_tx_store(1) by (simp_all add: io_inv_def demo_tx_def demo_io_def demo_disk_def)
  have k: "klog demo_tx = demo_log 1 (\<lambda>_. 45) 1" by (simp add: demo_tx_def)
  let ?s = "demo_tx\<lparr>klog := demo_log 21 (\<lambda>k. 100 + k) 0\<rparr>"
  have q': "quiet ?s" "curproc ?s = Some 0" using q by simp_all
  show ?thesis
    using begin_op_admission[OF q] begin_op_admission[OF q'] k by (auto simp: demo_log_def param_defs)
qed

end
