(* ===== verification/Fs.thy ===== *)
theory Fs
  imports Log Procmem
begin

text \<open>
  Blocks, inodes and file contents (the first three layers of \<^verbatim>\<open>fs.c\<close>). A pointer to an inode is its index in the inode table. The
  on-disk structures are bytes of the blocks: the superblock is block 1, and inode \<open>i\<close> is the 64 bytes at \<open>dinode_off i\<close> of block \<open>IBLOCK i\<close>.
\<close>

section \<open>The superblock\<close>

definition sb_of_data :: "bdata \<Rightarrow> superblock" where
  "sb_of_data d = \<lparr>sb_magic = le32 d 0, sb_size = unat (le32 d 4), sb_nblocks = unat (le32 d 8), sb_ninodes = unat (le32 d 12),
     sb_nlog = unat (le32 d 16), sb_logstart = unat (le32 d 20), sb_inodestart = unat (le32 d 24), sb_bmapstart = unat (le32 d 28)\<rparr>"

definition readsb :: "nat \<Rightarrow> unit kernel" where
  "readsb dev =
     bnd (bread dev 1) (\<lambda>bp.
     bnd (getb bp) (\<lambda>b.
     thn (modify (\<lambda>s. s\<lparr>sblk := sb_of_data (b_data b)\<rparr>))
     (brelse bp)))"

definition fsinit :: "nat \<Rightarrow> unit kernel" where
  "fsinit dev =
     thn (readsb dev) (
     bnd (gets sblk) (\<lambda>sb.
     if sb_magic sb \<noteq> FSMAGIC then panic ''invalid file system''
     else initlog dev sb))"

section \<open>Blocks\<close>

definition bzero :: "nat \<Rightarrow> nat \<Rightarrow> unit kernel" where
  "bzero dev bno =
     bnd (bread dev bno) (\<lambda>bp.
     thn (setb bp (\<lambda>b. b\<lparr>b_data := memset (b_data b) 0 0 BSIZE\<rparr>)) (
     thn (log_write bp)
     (brelse bp)))"

definition BBLOCK :: "nat \<Rightarrow> superblock \<Rightarrow> nat" where
  "BBLOCK b sb = b div BPB + sb_bmapstart sb"

definition IBLOCK :: "nat \<Rightarrow> superblock \<Rightarrow> nat" where
  "IBLOCK i sb = i div IPB + sb_inodestart sb"

definition balloc_bit :: "nat \<Rightarrow> nat \<Rightarrow> nat \<Rightarrow> nat \<Rightarrow> nat option kernel" where
  "balloc_bit dev bp b bi =
     (let m = push_bit (bi mod 8) 1 in
     bnd (getb bp) (\<lambda>bb.
     if b_data bb (bi div 8) AND m = 0 then
       thn (setb bp (\<lambda>bb. bb\<lparr>b_data := (b_data bb)(bi div 8 := b_data bb (bi div 8) OR m)\<rparr>)) (
       thn (log_write bp) (
       thn (brelse bp) (
       thn (bzero dev (b + bi))
       (ret (Some (b + bi))))))
     else ret None))"

definition balloc_block :: "nat \<Rightarrow> nat \<Rightarrow> nat option kernel" where
  "balloc_block dev b =
     bnd (gets sblk) (\<lambda>sb.
     bnd (bread dev (BBLOCK b sb)) (\<lambda>bp.
     bnd (forl [0..<min BPB (sb_size sb - b)] (balloc_bit dev bp b)) (\<lambda>r.
     case r of Some x \<Rightarrow> ret (Some x) | None \<Rightarrow> thn (brelse bp) (ret None))))"

definition balloc :: "nat \<Rightarrow> nat kernel" where
  "balloc dev =
     bnd (gets sblk) (\<lambda>sb.
     bnd (forl (map (\<lambda>k. k * BPB) [0..<(sb_size sb + BPB - 1) div BPB]) (balloc_block dev)) (\<lambda>r.
     case r of Some x \<Rightarrow> ret x | None \<Rightarrow> panic ''balloc: out of blocks''))"

definition bfree :: "nat \<Rightarrow> nat \<Rightarrow> unit kernel" where
  "bfree dev b =
     bnd (gets sblk) (\<lambda>sb.
     bnd (bread dev (BBLOCK b sb)) (\<lambda>bp.
     let bi = b mod BPB; m = push_bit (bi mod 8) 1 in
     bnd (getb bp) (\<lambda>bb.
     if b_data bb (bi div 8) AND m = 0 then panic ''freeing free block'' else
     thn (setb bp (\<lambda>bb. bb\<lparr>b_data := (b_data bb)(bi div 8 := b_data bb (bi div 8) AND NOT m)\<rparr>)) (
     thn (log_write bp)
     (brelse bp)))))"

section \<open>Inodes\<close>

definition geti :: "nat \<Rightarrow> inode kernel" where
  "geti ip = gets (\<lambda>s. inodes s ip)"

definition seti :: "nat \<Rightarrow> (inode \<Rightarrow> inode) \<Rightarrow> unit kernel" where
  "seti ip f = modify (\<lambda>s. s\<lparr>inodes := (inodes s)(ip := f (inodes s ip))\<rparr>)"

definition iinit :: "unit kernel" where
  "iinit =
     thn (initlock ItableLock ''itable'')
     (foreach [0..<NINODE] (\<lambda>i. initsleeplock (InodeSL i) ''inode''))"

definition dinode_off :: "nat \<Rightarrow> nat" where
  "dinode_off inum = 64 * (inum mod IPB)"

definition iget_scan :: "nat \<Rightarrow> nat \<Rightarrow> kstate \<Rightarrow> nat option" where
  "iget_scan dev inum s = find (\<lambda>i. 0 < i_ref (inodes s i) \<and> i_dev (inodes s i) = dev \<and> i_inum (inodes s i) = inum) [0..<NINODE]"

definition iget_empty :: "kstate \<Rightarrow> nat option" where
  "iget_empty s = find (\<lambda>i. i_ref (inodes s i) = 0) [0..<NINODE]"

text \<open>The loop of \<open>iget\<close> looks for the inode and remembers the first empty slot on the way.\<close>

definition iget :: "nat \<Rightarrow> nat \<Rightarrow> nat kernel" where
  "iget dev inum =
     thn (acquire ItableLock) (
     bnd (gets (iget_scan dev inum)) (\<lambda>r.
     case r of
       Some ip \<Rightarrow> thn (seti ip (\<lambda>i. i\<lparr>i_ref := i_ref i + 1\<rparr>)) (thn (release ItableLock) (ret ip))
     | None \<Rightarrow>
         bnd (gets iget_empty) (\<lambda>e.
         case e of
           None \<Rightarrow> panic ''iget: no inodes''
         | Some ip \<Rightarrow>
             thn (seti ip (\<lambda>i. i\<lparr>i_dev := dev, i_inum := inum, i_ref := 1, i_valid := False\<rparr>)) (
             thn (release ItableLock) (ret ip)))))"

definition ialloc_one :: "nat \<Rightarrow> u16 \<Rightarrow> nat \<Rightarrow> nat option kernel" where
  "ialloc_one dev ty inum =
     bnd (gets sblk) (\<lambda>sb.
     bnd (bread dev (IBLOCK inum sb)) (\<lambda>bp.
     bnd (getb bp) (\<lambda>bb.
     if le16 (b_data bb) (dinode_off inum) = 0 then
       thn (setb bp (\<lambda>bb. bb\<lparr>b_data := put16 (memset (b_data bb) (dinode_off inum) 0 64) (dinode_off inum) ty\<rparr>)) (
       thn (log_write bp) (
       thn (brelse bp) (
       bnd (iget dev inum) (\<lambda>ip. ret (Some ip)))))
     else thn (brelse bp) (ret None))))"

definition ialloc :: "nat \<Rightarrow> u16 \<Rightarrow> nat kernel" where
  "ialloc dev ty =
     bnd (gets sblk) (\<lambda>sb.
     bnd (forl [1..<sb_ninodes sb] (ialloc_one dev ty)) (\<lambda>r.
     case r of Some ip \<Rightarrow> ret ip | None \<Rightarrow> panic ''ialloc: no inodes''))"

definition dinode_put :: "bdata \<Rightarrow> nat \<Rightarrow> inode \<Rightarrow> bdata" where
  "dinode_put d off ip =
     fold (\<lambda>k d. put32 d (off + 12 + 4 * k) (of_nat (i_addrs ip k))) [0..<NDIRECT + 1]
       (put32 (put16 (put16 (put16 (put16 d off (i_type ip)) (off + 2) (i_major ip)) (off + 4) (i_minor ip)) (off + 6) (i_nlink ip))
         (off + 8) (i_size ip))"

definition dinode_get :: "bdata \<Rightarrow> nat \<Rightarrow> inode \<Rightarrow> inode" where
  "dinode_get d off ip = ip\<lparr>i_type := le16 d off, i_major := le16 d (off + 2), i_minor := le16 d (off + 4), i_nlink := le16 d (off + 6),
     i_size := le32 d (off + 8), i_addrs := (\<lambda>k. if k < NDIRECT + 1 then unat (le32 d (off + 12 + 4 * k)) else i_addrs ip k)\<rparr>"

definition iupdate :: "nat \<Rightarrow> unit kernel" where
  "iupdate ip =
     bnd (geti ip) (\<lambda>i. bnd (gets sblk) (\<lambda>sb.
     bnd (bread (i_dev i) (IBLOCK (i_inum i) sb)) (\<lambda>bp.
     thn (setb bp (\<lambda>bb. bb\<lparr>b_data := dinode_put (b_data bb) (dinode_off (i_inum i)) i\<rparr>)) (
     thn (log_write bp)
     (brelse bp)))))"

definition idup :: "nat \<Rightarrow> nat kernel" where
  "idup ip =
     thn (acquire ItableLock) (
     thn (seti ip (\<lambda>i. i\<lparr>i_ref := i_ref i + 1\<rparr>)) (
     thn (release ItableLock)
     (ret ip)))"

definition ilock :: "nat option \<Rightarrow> unit kernel" where
  "ilock p =
     (case p of None \<Rightarrow> panic ''ilock'' | Some ip \<Rightarrow>
     bnd (geti ip) (\<lambda>i.
     if i_ref i < 1 then panic ''ilock'' else
     thn (acquiresleep (InodeSL ip)) (
     bnd (geti ip) (\<lambda>i.
     whenM (\<not> i_valid i) (
       bnd (gets sblk) (\<lambda>sb.
       bnd (bread (i_dev i) (IBLOCK (i_inum i) sb)) (\<lambda>bp.
       bnd (getb bp) (\<lambda>bb.
       thn (seti ip (dinode_get (b_data bb) (dinode_off (i_inum i)))) (
       thn (brelse bp) (
       thn (seti ip (\<lambda>i. i\<lparr>i_valid := True\<rparr>)) (
       bnd (geti ip) (\<lambda>i.
       if i_type i = 0 then panic ''ilock: no type'' else ret ()))))))))))))"

definition iunlock :: "nat option \<Rightarrow> unit kernel" where
  "iunlock p =
     (case p of None \<Rightarrow> panic ''iunlock'' | Some ip \<Rightarrow>
     bnd (holdingsleep (InodeSL ip)) (\<lambda>h.
     bnd (geti ip) (\<lambda>i.
     if \<not> h \<or> i_ref i < 1 then panic ''iunlock''
     else releasesleep (InodeSL ip))))"

section \<open>The blocks of an inode\<close>

definition bmap :: "nat \<Rightarrow> nat \<Rightarrow> nat kernel" where
  "bmap ip bn =
     bnd (geti ip) (\<lambda>i.
     if bn < NDIRECT then
       if i_addrs i bn = 0 then
         bnd (balloc (i_dev i)) (\<lambda>addr.
         thn (seti ip (\<lambda>i. i\<lparr>i_addrs := (i_addrs i)(bn := addr)\<rparr>))
         (ret addr))
       else ret (i_addrs i bn)
     else
       let bn = bn - NDIRECT in
       if bn < NINDIRECT then
         bnd (if i_addrs i NDIRECT = 0 then
                bnd (balloc (i_dev i)) (\<lambda>addr.
                thn (seti ip (\<lambda>i. i\<lparr>i_addrs := (i_addrs i)(NDIRECT := addr)\<rparr>))
                (ret addr))
              else ret (i_addrs i NDIRECT)) (\<lambda>addr.
         bnd (bread (i_dev i) addr) (\<lambda>bp.
         bnd (getb bp) (\<lambda>bb.
         bnd (if le32 (b_data bb) (4 * bn) = 0 then
                bnd (balloc (i_dev i)) (\<lambda>addr.
                thn (setb bp (\<lambda>bb. bb\<lparr>b_data := put32 (b_data bb) (4 * bn) (of_nat addr)\<rparr>)) (
                thn (log_write bp)
                (ret addr)))
              else ret (unat (le32 (b_data bb) (4 * bn)))) (\<lambda>addr.
         thn (brelse bp)
         (ret addr)))))
       else panic ''bmap: out of range'')"

definition itrunc_direct :: "nat \<Rightarrow> nat \<Rightarrow> unit kernel" where
  "itrunc_direct ip k =
     bnd (geti ip) (\<lambda>i.
     whenM (i_addrs i k \<noteq> 0) (
       thn (bfree (i_dev i) (i_addrs i k))
       (seti ip (\<lambda>i. i\<lparr>i_addrs := (i_addrs i)(k := 0)\<rparr>))))"

definition itrunc_entry :: "nat \<Rightarrow> nat \<Rightarrow> nat \<Rightarrow> unit kernel" where
  "itrunc_entry ip bp j =
     bnd (geti ip) (\<lambda>i.
     bnd (getb bp) (\<lambda>bb.
     whenM (le32 (b_data bb) (4 * j) \<noteq> 0) (bfree (i_dev i) (unat (le32 (b_data bb) (4 * j))))))"

definition itrunc :: "nat \<Rightarrow> unit kernel" where
  "itrunc ip =
     thn (foreach [0..<NDIRECT] (itrunc_direct ip)) (
     bnd (geti ip) (\<lambda>i.
     thn (whenM (i_addrs i NDIRECT \<noteq> 0) (
       bnd (bread (i_dev i) (i_addrs i NDIRECT)) (\<lambda>bp.
       thn (foreach [0..<NINDIRECT] (itrunc_entry ip bp)) (
       thn (brelse bp) (
       thn (bfree (i_dev i) (i_addrs i NDIRECT))
       (seti ip (\<lambda>i. i\<lparr>i_addrs := (i_addrs i)(NDIRECT := 0)\<rparr>)))))))  (
     thn (seti ip (\<lambda>i. i\<lparr>i_size := 0\<rparr>))
     (iupdate ip))))"

definition iput :: "nat \<Rightarrow> unit kernel" where
  "iput ip =
     thn (acquire ItableLock) (
     bnd (geti ip) (\<lambda>i.
     thn (whenM (i_ref i = 1 \<and> i_valid i \<and> i_nlink i = 0) (
       thn (acquiresleep (InodeSL ip)) (
       thn (release ItableLock) (
       thn (itrunc ip) (
       thn (seti ip (\<lambda>i. i\<lparr>i_type := 0\<rparr>)) (
       thn (iupdate ip) (
       thn (seti ip (\<lambda>i. i\<lparr>i_valid := False\<rparr>)) (
       thn (releasesleep (InodeSL ip))
       (acquire ItableLock))))))))) (
     thn (seti ip (\<lambda>i. i\<lparr>i_ref := i_ref i - 1\<rparr>))
     (release ItableLock))))"

definition iunlockput :: "nat \<Rightarrow> unit kernel" where
  "iunlockput ip = thn (iunlock (Some ip)) (iput ip)"

section \<open>Reading and writing\<close>

record stat =
  st_dev :: nat
  st_ino :: nat
  st_type :: u16
  st_nlink :: u16
  st_size :: u64

definition stati :: "nat \<Rightarrow> stat kernel" where
  "stati ip = bnd (geti ip) (\<lambda>i. ret \<lparr>st_dev = i_dev i, st_ino = i_inum i, st_type = i_type i, st_nlink = i_nlink i,
     st_size = ucast (i_size i)\<rparr>)"

definition io_len :: "u32 \<Rightarrow> u32 \<Rightarrow> u32 \<Rightarrow> u32" where
  "io_len n tot off = (let a = n - tot; b = of_nat BSIZE - off mod of_nat BSIZE in if a < b then a else b)"

definition readi_one :: "nat \<Rightarrow> kdst \<Rightarrow> u32 \<Rightarrow> u32 \<times> u32 \<times> (nat \<Rightarrow> byte) \<Rightarrow> (u32 \<times> u32 \<times> (nat \<Rightarrow> byte) + int \<times> (nat \<Rightarrow> byte)) kernel" where
  "readi_one ip dst n = (\<lambda>(tot, off, buf).
     if \<not> tot < n then ret (Inr (sint tot, buf)) else
     bnd (geti ip) (\<lambda>i.
     bnd (bmap ip (unat off div BSIZE)) (\<lambda>addr.
     bnd (bread (i_dev i) addr) (\<lambda>bp.
     let m = io_len n tot off in
     bnd (getb bp) (\<lambda>bb.
     bnd (either_copyout dst (ucast tot) buf (\<lambda>j. b_data bb (unat off mod BSIZE + j)) (ucast m)) (\<lambda>(r, buf).
     if r = - 1 then thn (brelse bp) (ret (Inr (- 1, buf)))
     else thn (brelse bp) (ret (Inl (tot + m, off + m, buf)))))))))"

text \<open>Every round but the last advances by at least one byte.\<close>

definition readi :: "nat \<Rightarrow> kdst \<Rightarrow> u32 \<Rightarrow> u32 \<Rightarrow> (nat \<Rightarrow> byte) \<Rightarrow> (int \<times> (nat \<Rightarrow> byte)) kernel" where
  "readi ip dst off n buf =
     bnd (geti ip) (\<lambda>i.
     if i_size i < off \<or> off + n < off then ret (0, buf) else
     let n = (if i_size i < off + n then i_size i - off else n) in
     loopf (unat n + 1) (readi_one ip dst n) (0, off, buf))"

definition writei_one :: "nat \<Rightarrow> ksrc \<Rightarrow> u32 \<Rightarrow> u32 \<times> u32 \<Rightarrow> (u32 \<times> u32 + u32 \<times> u32) kernel" where
  "writei_one ip src n = (\<lambda>(tot, off).
     if \<not> tot < n then ret (Inr (tot, off)) else
     bnd (geti ip) (\<lambda>i.
     bnd (bmap ip (unat off div BSIZE)) (\<lambda>addr.
     bnd (bread (i_dev i) addr) (\<lambda>bp.
     let m = io_len n tot off; bo = unat off mod BSIZE in
     bnd (getb bp) (\<lambda>bb.
     bnd (either_copyin (\<lambda>j. b_data bb (bo + j)) src (ucast tot) (ucast m)) (\<lambda>(r, d).
     thn (setb bp (\<lambda>bb. bb\<lparr>b_data := splice (b_data bb) bo (unat m) d\<rparr>)) (
     if r = - 1 then thn (brelse bp) (ret (Inr (tot, off)))
     else thn (log_write bp) (thn (brelse bp) (ret (Inl (tot + m, off + m)))))))))))"

definition writei :: "nat \<Rightarrow> ksrc \<Rightarrow> u32 \<Rightarrow> u32 \<Rightarrow> int kernel" where
  "writei ip src off n =
     bnd (geti ip) (\<lambda>i.
     if i_size i < off \<or> off + n < off then ret (- 1) else
     if MAXFILE * BSIZE < unat (off + n) then ret (- 1) else
     bnd (loopf (unat n + 1) (writei_one ip src n) (0, off)) (\<lambda>(tot, off).
     bnd (geti ip) (\<lambda>i.
     thn (whenM (i_size i < off) (seti ip (\<lambda>i. i\<lparr>i_size := off\<rparr>))) (
     thn (iupdate ip)
     (ret (sint tot))))))"

end
