(* ===== verification/Dir.thy ===== *)
theory Dir
  imports Fs
begin

text \<open>
  Directories and path names (the last two layers of \<^verbatim>\<open>fs.c\<close>). A path is the list of the bytes before its terminator; a file name is
  a buffer of \<open>DIRSIZ\<close> bytes.
\<close>

definition T_DIR :: u16 where "T_DIR = 1"
definition T_FILE :: u16 where "T_FILE = 2"
definition T_DEVICE :: u16 where "T_DEVICE = 3"

definition SLASH :: byte where "SLASH = 47"

section \<open>Directory entries\<close>

text \<open>A directory entry is 16 bytes: the inode number and the name.\<close>

definition de_size :: u32 where "de_size = 16"

definition de_inum :: "(nat \<Rightarrow> byte) \<Rightarrow> nat" where
  "de_inum de = unat (le16 de 0)"

definition de_name :: "(nat \<Rightarrow> byte) \<Rightarrow> nat \<Rightarrow> byte" where
  "de_name de = (\<lambda>i. de (2 + i))"

definition namecmp :: "(nat \<Rightarrow> byte) \<Rightarrow> (nat \<Rightarrow> byte) \<Rightarrow> int" where
  "namecmp s t = strncmp s t DIRSIZ"

text \<open>The offsets a scan of the directory visits.\<close>

definition de_offsets :: "u32 \<Rightarrow> nat list" where
  "de_offsets sz = map (\<lambda>k. 16 * k) [0..<(unat sz + 15) div 16]"

definition dirlookup_one :: "nat \<Rightarrow> (nat \<Rightarrow> byte) \<Rightarrow> nat \<Rightarrow> (nat \<times> nat) option kernel" where
  "dirlookup_one dp name off =
     bnd (readi dp BufDst (of_nat off) de_size (\<lambda>_. 0)) (\<lambda>(r, de).
     if r \<noteq> 16 then panic ''dirlookup read'' else
     if de_inum de = 0 then ret None else
     if namecmp name (de_name de) = 0 then
       bnd (geti dp) (\<lambda>d.
       bnd (iget (i_dev d) (de_inum de)) (\<lambda>ip.
       ret (Some (ip, off))))
     else ret None)"

definition dirlookup :: "nat \<Rightarrow> (nat \<Rightarrow> byte) \<Rightarrow> (nat \<times> nat) option kernel" where
  "dirlookup dp name =
     bnd (geti dp) (\<lambda>d.
     if i_type d \<noteq> T_DIR then panic ''dirlookup not DIR'' else
     forl (de_offsets (i_size d)) (dirlookup_one dp name))"

definition dirlink_one :: "nat \<Rightarrow> nat \<Rightarrow> (nat \<times> (nat \<Rightarrow> byte)) option kernel" where
  "dirlink_one dp off =
     bnd (readi dp BufDst (of_nat off) de_size (\<lambda>_. 0)) (\<lambda>(r, de).
     if r \<noteq> 16 then panic ''dirlink read'' else
     if de_inum de = 0 then ret (Some (off, de)) else ret None)"

definition de_make :: "(nat \<Rightarrow> byte) \<Rightarrow> (nat \<Rightarrow> byte) \<Rightarrow> nat \<Rightarrow> (nat \<Rightarrow> byte)" where
  "de_make de name inum =
     (let nm = strncpy (de_name de) name (int DIRSIZ) in
      put16 (\<lambda>i. if 2 \<le> i then nm (i - 2) else de i) 0 (of_nat inum))"

definition dirlink :: "nat \<Rightarrow> (nat \<Rightarrow> byte) \<Rightarrow> nat \<Rightarrow> int kernel" where
  "dirlink dp name inum =
     bnd (dirlookup dp name) (\<lambda>r.
     case r of
       Some (ip, _) \<Rightarrow> thn (iput ip) (ret (- 1))
     | None \<Rightarrow>
         bnd (geti dp) (\<lambda>d.
         bnd (forl (de_offsets (i_size d)) (dirlink_one dp)) (\<lambda>e.
         let (off, de) = (case e of Some x \<Rightarrow> x | None \<Rightarrow> (16 * ((unat (i_size d) + 15) div 16), \<lambda>_. 0)) in
         bnd (writei dp (BufSrc (de_make de name inum)) (of_nat off) de_size) (\<lambda>r.
         if r \<noteq> 16 then panic ''dirlink'' else ret 0))))"

section \<open>Paths\<close>

definition skipelem :: "byte list \<Rightarrow> (nat \<Rightarrow> byte) \<Rightarrow> (byte list \<times> (nat \<Rightarrow> byte)) option" where
  "skipelem path name =
     (let s = dropWhile (\<lambda>c. c = SLASH) path in
      if s = [] then None else
      let elem = takeWhile (\<lambda>c. c \<noteq> SLASH) s;
          rest = dropWhile (\<lambda>c. c \<noteq> SLASH) s;
          name = (if DIRSIZ \<le> length elem then splice name 0 DIRSIZ (\<lambda>i. elem ! i)
                  else (splice name 0 (length elem) (\<lambda>i. elem ! i))(length elem := 0)) in
      Some (dropWhile (\<lambda>c. c = SLASH) rest, name))"

definition namex_one :: "bool \<Rightarrow> nat \<times> byte list \<times> (nat \<Rightarrow> byte) \<Rightarrow>
    (nat \<times> byte list \<times> (nat \<Rightarrow> byte) + nat option \<times> (nat \<Rightarrow> byte)) kernel" where
  "namex_one parent = (\<lambda>(ip, path, name).
     case skipelem path name of
       None \<Rightarrow> if parent then thn (iput ip) (ret (Inr (None, name))) else ret (Inr (Some ip, name))
     | Some (path, name) \<Rightarrow>
         thn (ilock (Some ip)) (
         bnd (geti ip) (\<lambda>i.
         if i_type i \<noteq> T_DIR then thn (iunlockput ip) (ret (Inr (None, name))) else
         if parent \<and> path = [] then thn (iunlock (Some ip)) (ret (Inr (Some ip, name))) else
         bnd (dirlookup ip name) (\<lambda>r.
         case r of
           None \<Rightarrow> thn (iunlockput ip) (ret (Inr (None, name)))
         | Some (next, _) \<Rightarrow> thn (iunlockput ip) (ret (Inl (next, path, name)))))))"

text \<open>Every element shortens the path, so the loop runs at most once for every byte of the path and once more.\<close>

definition namex :: "byte list \<Rightarrow> bool \<Rightarrow> (nat \<Rightarrow> byte) \<Rightarrow> (nat option \<times> (nat \<Rightarrow> byte)) kernel" where
  "namex path parent name =
     bnd (if path \<noteq> [] \<and> hd path = SLASH then iget ROOTDEV ROOTINO
          else bnd myproc (\<lambda>me. bnd (deref me) (\<lambda>p. bnd (getp p) (\<lambda>q. bnd (deref (p_cwd q)) idup)))) (\<lambda>ip.
     loopf (length path + 1) (namex_one parent) (ip, path, name))"

definition namei :: "byte list \<Rightarrow> nat option kernel" where
  "namei path = bnd (namex path False (\<lambda>_. 0)) (\<lambda>(r, _). ret r)"

definition nameiparent :: "byte list \<Rightarrow> (nat \<Rightarrow> byte) \<Rightarrow> (nat option \<times> (nat \<Rightarrow> byte)) kernel" where
  "nameiparent path name = namex path True name"

end
