(* ===== verification/Pipe.thy ===== *)
theory Pipe
  imports Procmem Ring Pagetable
begin

text \<open>
  Pipes (\<^verbatim>\<open>pipe.c\<close>, without \<open>pipealloc\<close>). A pipe is named by the address of its page, and the structure stored there is \<open>pipes s pi\<close>. A
  process that has to wait leaves with the outcome \<open>Swtch\<close> and continues in the \<open>resume\<close> definition.
\<close>

section \<open>The code\<close>

definition getpi :: "u64 \<Rightarrow> pipe kernel" where
  "getpi pi = gets (\<lambda>s. pipes s pi)"

definition setpi :: "u64 \<Rightarrow> (pipe \<Rightarrow> pipe) \<Rightarrow> unit kernel" where
  "setpi pi f = modify (\<lambda>s. s\<lparr>pipes := (pipes s)(pi := f (pipes s pi))\<rparr>)"

definition pipeclose :: "u64 \<Rightarrow> bool \<Rightarrow> unit kernel" where
  "pipeclose pi writable =
     thn (acquire (PipeLock pi)) (
     thn (if writable
          then thn (setpi pi (\<lambda>p. p\<lparr>pi_writeopen := False\<rparr>)) (wakeup (PipeNread pi))
          else thn (setpi pi (\<lambda>p. p\<lparr>pi_readopen := False\<rparr>)) (wakeup (PipeNwrite pi))) (
     bnd (getpi pi) (\<lambda>p.
     if \<not> pi_readopen p \<and> \<not> pi_writeopen p
     then thn (release (PipeLock pi)) (kfree pi)
     else release (PipeLock pi))))"

text \<open>
  The loop of \<open>pipewrite\<close> at position \<open>i\<close>. Its result is \<open>None\<close> when the function has released the lock and returns -1, and the number of bytes
  written otherwise. A round that does not leave the loop writes a byte.
\<close>

definition pipewrite_one :: "nat \<Rightarrow> u64 \<Rightarrow> u64 \<Rightarrow> int \<Rightarrow> int \<Rightarrow> (int + int option) kernel" where
  "pipewrite_one pr pi addr n i =
     (if \<not> i < n then ret (Inr (Some i)) else
     bnd (getpi pi) (\<lambda>p. bnd (getp pr) (\<lambda>q.
     if \<not> pi_readopen p \<or> p_killed q then thn (release (PipeLock pi)) (ret (Inr None)) else
     if pi_nwrite p = pi_nread p + of_nat PIPESIZE then
       thn (wakeup (PipeNread pi)) (thn (sleep (PipeNwrite pi) (PipeLock pi)) (ret (Inr None)))
     else
       bnd (copyin (p_pagetable q) (\<lambda>_. 0) (addr + of_int i) 1) (\<lambda>(r, ch).
       if r = - 1 then ret (Inr (Some i)) else
       thn (setpi pi (\<lambda>p. p\<lparr>pi_data := (pi_data p)(unat (pi_nwrite p) mod PIPESIZE := ch 0), pi_nwrite := pi_nwrite p + 1\<rparr>))
       (ret (Inl (i + 1)))))))"

definition pipewrite_loop :: "nat \<Rightarrow> u64 \<Rightarrow> u64 \<Rightarrow> int \<Rightarrow> int \<Rightarrow> int kernel" where
  "pipewrite_loop pr pi addr n i =
     bnd (loopf (nat (n - i) + 1) (pipewrite_one pr pi addr n) i) (\<lambda>r.
     case r of None \<Rightarrow> ret (- 1) | Some i \<Rightarrow>
     thn (wakeup (PipeNread pi)) (
     thn (release (PipeLock pi))
     (ret i)))"

definition pipewrite :: "u64 \<Rightarrow> u64 \<Rightarrow> int \<Rightarrow> int kernel" where
  "pipewrite pi addr n =
     bnd myproc (\<lambda>me.
     thn (acquire (PipeLock pi)) (
     bnd (deref me) (\<lambda>pr. pipewrite_loop pr pi addr n 0)))"

definition pipewrite_resume :: "nat \<Rightarrow> u64 \<Rightarrow> u64 \<Rightarrow> int \<Rightarrow> int \<Rightarrow> int kernel" where
  "pipewrite_resume pr pi addr n i = thn (sleep_resume pr (PipeLock pi)) (pipewrite_loop pr pi addr n i)"

definition piperead_one :: "nat \<Rightarrow> u64 \<Rightarrow> u64 \<Rightarrow> int \<Rightarrow> int option kernel" where
  "piperead_one pr pi addr i =
     bnd (getpi pi) (\<lambda>p. bnd (getp pr) (\<lambda>q.
     if pi_nread p = pi_nwrite p then ret (Some i) else
     let ch = pi_data p (unat (pi_nread p) mod PIPESIZE) in
     thn (setpi pi (\<lambda>p. p\<lparr>pi_nread := pi_nread p + 1\<rparr>)) (
     bnd (copyout (p_pagetable q) (addr + of_int i) (\<lambda>_. ch) 1) (\<lambda>r.
     if r = - 1 then ret (Some i) else ret None))))"

definition piperead_wait :: "nat \<Rightarrow> u64 \<Rightarrow> u64 \<Rightarrow> int \<Rightarrow> int kernel" where
  "piperead_wait pr pi addr n =
     bnd (getpi pi) (\<lambda>p. bnd (getp pr) (\<lambda>q.
     if pi_nread p = pi_nwrite p \<and> pi_writeopen p then
       if p_killed q then thn (release (PipeLock pi)) (ret (- 1))
       else thn (sleep (PipeNread pi) (PipeLock pi)) (ret (- 1))
     else
       bnd (forl [0..n - 1] (piperead_one pr pi addr)) (\<lambda>r.
       thn (wakeup (PipeNwrite pi)) (
       thn (release (PipeLock pi))
       (ret (case r of Some i \<Rightarrow> i | None \<Rightarrow> if n < 0 then 0 else n))))))"

definition piperead :: "u64 \<Rightarrow> u64 \<Rightarrow> int \<Rightarrow> int kernel" where
  "piperead pi addr n =
     bnd myproc (\<lambda>me.
     thn (acquire (PipeLock pi)) (
     bnd (deref me) (\<lambda>pr. piperead_wait pr pi addr n)))"

definition piperead_resume :: "nat \<Rightarrow> u64 \<Rightarrow> u64 \<Rightarrow> int \<Rightarrow> int kernel" where
  "piperead_resume pr pi addr n = thn (sleep_resume pr (PipeLock pi)) (piperead_wait pr pi addr n)"

section \<open>The pipe as a queue\<close>

definition pi_push :: "byte \<Rightarrow> pipe \<Rightarrow> pipe" where
  "pi_push c p = p\<lparr>pi_data := (pi_data p)(unat (pi_nwrite p) mod PIPESIZE := c), pi_nwrite := pi_nwrite p + 1\<rparr>"

definition pi_pop :: "pipe \<Rightarrow> pipe" where
  "pi_pop p = p\<lparr>pi_nread := pi_nread p + 1\<rparr>"

interpretation pq: ring pi_data pi_nread pi_nwrite pi_push pi_pop PIPESIZE
  by unfold_locales (simp_all add: pi_push_def pi_pop_def PIPESIZE_def)

lemma pi_push_flags [simp]: "pi_readopen (fold pi_push bs p) = pi_readopen p" "pi_writeopen (fold pi_push bs p) = pi_writeopen p"
  by (induction bs arbitrary: p) (simp_all add: pi_push_def)

text \<open>A process that runs, holds no lock and finds the pipe's lock and the process locks free.\<close>

definition pipe_free :: "kstate \<Rightarrow> u64 \<Rightarrow> nat \<Rightarrow> bool" where
  "pipe_free s pi p = (cpu_ok s \<and> noff (cpus s (hart s)) = 0 \<and> freelk (PipeLock pi) s \<and> plocks None s \<and> curproc s = Some p \<and> p < NPROC)"

text \<open>The bytes of a user range.\<close>

definition ubytes :: "(u64 \<Rightarrow> byte) \<Rightarrow> u64 \<Rightarrow> u64 \<Rightarrow> nat \<Rightarrow> byte list" where
  "ubytes m root va n = map (\<lambda>i. m (uaddr m root (va + of_nat i))) [0..<n]"

definition piped :: "u64 \<Rightarrow> byte list \<Rightarrow> kstate \<Rightarrow> kstate" where
  "piped pi bs s = s\<lparr>pipes := (pipes s)(pi := fold pi_push bs (pipes s pi))\<rparr>"

lemma piped_simps [simp]: "pipes (piped pi bs s) = (pipes s)(pi := fold pi_push bs (pipes s pi))" "procs (piped pi bs s) = procs s"
  "mem (piped pi bs s) = mem s" "pt_ok (piped pi bs s) = pt_ok s" "cpu_ok (piped pi bs s) = cpu_ok s" "piped pi [] s = s"
  "freelk lk (piped pi bs s) = freelk lk s" "curproc (piped pi bs s) = curproc s" "plocks me (piped pi bs s) = plocks me s"
  "hart (piped pi bs s) = hart s" "cpus (piped pi bs s) = cpus s"
  by (simp_all add: piped_def)

lemma pipewrite_one_step:
  assumes "k < n" "pi_readopen (pipes s pi)" "\<not> p_killed (procs s p)" "pt_ok s (p_pagetable (procs s p)) xs"
    "uframe (mem s) (p_pagetable (procs s p)) (addr + of_nat k) \<noteq> 0" "pq.used (fold pi_push bs (pipes s pi)) \<noteq> PIPESIZE"
  shows "pipewrite_one p pi addr (int n) (int k) (acq (PipeLock pi) (piped pi bs s)) =
    Ok (Inl (int (Suc k))) (acq (PipeLock pi) (piped pi (bs @ [mem s (uaddr (mem s) (p_pagetable (procs s p)) (addr + of_nat k))]) s))"
proof -
  let ?s = "acq (PipeLock pi) (piped pi bs s)"
  have full: "pi_nwrite (fold pi_push bs (pipes s pi)) \<noteq> pi_nread (fold pi_push bs (pipes s pi)) + of_nat PIPESIZE"
    using assms(6) pq.full_iff by blast
  have c: "copyin (p_pagetable (procs s p)) (\<lambda>_. 0) (addr + of_nat k) 1 ?s =
      Ok (0, (\<lambda>_. 0)(0 := mem s (uaddr (mem s) (p_pagetable (procs s p)) (addr + of_nat k)))) ?s"
    using copyin_byte[of ?s "p_pagetable (procs s p)" xs "addr + of_nat k"] assms(4,5) by simp
  show ?thesis using assms(1-3) full c
    by (simp add: pipewrite_one_def getpi_def setpi_def getp_def kmon) (simp add: piped_def pi_push_def)
qed

lemma ubytes_Suc: "ubytes m root va (Suc k) = ubytes m root va k @ [m (uaddr m root (va + of_nat k))]"
  by (simp add: ubytes_def)

lemma take_ubytes: "k \<le> n \<Longrightarrow> take k (ubytes m root va n) = ubytes m root va k"
  by (simp add: ubytes_def take_map)

lemma pq_used: "pq.ok p \<Longrightarrow> pq.used p + length bs \<le> PIPESIZE \<Longrightarrow> pq.used (fold pi_push bs p) = pq.used p + length bs"
  using pq.queue_push_all[of p bs] by (metis pq.used_queue length_append)

lemma pipewrite_run:
  assumes w: "pi_readopen (pipes s pi)" "\<not> p_killed (procs s p)" "pt_ok s (p_pagetable (procs s p)) xs" "pq.ok (pipes s pi)"
    and u: "umapped (mem s) (p_pagetable (procs s p)) addr n"
    and k: "k + d \<le> n" "pq.used (pipes s pi) + k + d \<le> PIPESIZE"
  shows "loopf (f + d) (pipewrite_one p pi addr (int n)) (int k) (acq (PipeLock pi) (piped pi (ubytes (mem s) (p_pagetable (procs s p)) addr k) s)) =
    loopf f (pipewrite_one p pi addr (int n)) (int (k + d)) (acq (PipeLock pi) (piped pi (ubytes (mem s) (p_pagetable (procs s p)) addr (k + d)) s))"
  using k
proof (induction d arbitrary: k)
  case (Suc d)
  let ?r = "p_pagetable (procs s p)"
  have "pq.used (fold pi_push (ubytes (mem s) ?r addr k) (pipes s pi)) = pq.used (pipes s pi) + k"
    using Suc.prems(2) by (subst pq_used[OF w(4)]) (simp_all add: ubytes_def)
  then have one: "pipewrite_one p pi addr (int n) (int k) (acq (PipeLock pi) (piped pi (ubytes (mem s) ?r addr k) s)) =
      Ok (Inl (int (Suc k))) (acq (PipeLock pi) (piped pi (ubytes (mem s) ?r addr (Suc k)) s))"
    unfolding ubytes_Suc by (intro pipewrite_one_step[OF _ w(1-3)]) (use Suc.prems u in \<open>simp_all add: umapped_def\<close>)
  show ?case using Suc.IH[of "Suc k"] Suc.prems loopf_next[of "pipewrite_one p pi addr (int n)", OF one, of "f + d"] by simp
qed simp

section \<open>Theorems\<close>

text \<open>
  C6: writing to a pipe appends to its queue. If the \<open>n\<close> bytes at a mapped user address fit, \<open>pipewrite\<close> returns \<open>n\<close>, the queue is longer
  by exactly these bytes, also when the 32-bit counters wrap around, and the sleeping readers are runnable. If they do not fit, as many as
  fit are appended, the readers are woken and the writer sleeps on the pipe's write channel with the queue full.
\<close>

theorem pipewrite_appends:
  assumes free: "pipe_free s pi p" and w: "pi_readopen (pipes s pi)" "\<not> p_killed (procs s p)" "pq.ok (pipes s pi)"
    and u: "pt_ok s (p_pagetable (procs s p)) xs" "umapped (mem s) (p_pagetable (procs s p)) addr n"
  shows "let bs = ubytes (mem s) (p_pagetable (procs s p)) addr n; room = PIPESIZE - pq.used (pipes s pi) in
    if n \<le> room
    then \<exists>t. pipewrite pi addr (int n) s = Ok (int n) t \<and> pq.queue (pipes t pi) = pq.queue (pipes s pi) @ bs \<and> pq.ok (pipes t pi) \<and>
      procs t = wake_all (PipeNread pi) (Some p) (procs s) \<and> mem t = mem s \<and> pipe_free t pi p
    else \<exists>t. pipewrite pi addr (int n) s = Swtch t \<and> pq.queue (pipes t pi) = pq.queue (pipes s pi) @ take room bs \<and> pq.used (pipes t pi) = PIPESIZE \<and>
      p_state (procs t p) = SLEEPING \<and> p_chan (procs t p) = PipeNwrite pi \<and>
      (\<forall>q<NPROC. q \<noteq> p \<longrightarrow> procs t q = wake_all (PipeNread pi) (Some p) (procs s) q) \<and> mem t = mem s \<and> freelk (PipeLock pi) t"
proof -
  let ?r = "p_pagetable (procs s p)" and ?room = "PIPESIZE - pq.used (pipes s pi)"
  let ?L = "pipewrite_one p pi addr (int n)" and ?U = "\<lambda>k. piped pi (ubytes (mem s) (p_pagetable (procs s p)) addr k) s"
  have F: "cpu_ok s" "noff (cpus s (hart s)) = 0" "freelk (PipeLock pi) s" "plocks None s" "curproc s = Some p" "p < NPROC"
    using free by (auto simp: pipe_free_def)
  have pl: "plocks (Some p) s" "freelk (ProcLock p) s" using F(4,6) by (auto simp: plocks_def)
  have run: "pipewrite pi addr (int n) s = bnd (loopf (n + 1) ?L 0) (\<lambda>r.
      case r of None \<Rightarrow> ret (- 1) | Some i \<Rightarrow> thn (wakeup (PipeNread pi)) (thn (release (PipeLock pi)) (ret i))) (acq (PipeLock pi) s)"
    using F by (simp add: pipewrite_def pipewrite_loop_def kmon)
  define d where "d = min n ?room"
  have d: "d \<le> n" "pq.used (pipes s pi) + d \<le> PIPESIZE" using w(3) by (auto simp: d_def pq.ok_def)
  have q: "pq.ok (pipes (?U d) pi)" "pq.queue (pipes (?U d) pi) = pq.queue (pipes s pi) @ ubytes (mem s) ?r addr d"
    using pq.queue_push_all[OF w(3), of "ubytes (mem s) ?r addr d"] d(2) by (simp_all add: ubytes_def)
  have loop: "loopf (n + 1) ?L 0 (acq (PipeLock pi) s) = loopf (n + 1 - d) ?L (int d) (acq (PipeLock pi) (?U d))"
    using pipewrite_run[OF w(1,2) u(1) w(3) u(2), of 0 d "n + 1 - d"] d by (simp add: ubytes_def)
  show ?thesis
  proof (cases "n \<le> ?room")
    case True
    then have "d = n" by (simp add: d_def)
    then have "loopf (n + 1) ?L 0 (acq (PipeLock pi) s) = Ok (Some (int n)) (acq (PipeLock pi) (?U n))"
      unfolding loop by (simp add: pipewrite_one_def kmon)
    then have "pipewrite pi addr (int n) s = Ok (int n) (sync ((?U n)\<lparr>procs := wake_all (PipeNread pi) (Some p) (procs s)\<rparr>))"
      using F pl unfolding run by (simp add: kmon)
    then show ?thesis using True q \<open>d = n\<close> F by (simp add: Let_def pipe_free_def)
  next
    case False
    then have dr: "d = ?room" "d < n" by (simp_all add: d_def)
    have used: "pq.used (pipes (?U d) pi) = PIPESIZE" using arg_cong[OF q(2), of length] d dr(1) w(3) by (simp add: ubytes_def pq.ok_def)
    then have full: "pi_nwrite (pipes (?U d) pi) = pi_nread (pipes (?U d) pi) + of_nat PIPESIZE" using pq.full_iff by blast
    let ?P = "wake_all (PipeNread pi) (Some p) (procs s)"
    have sl: "sleep (PipeNwrite pi) (PipeLock pi) (acq (PipeLock pi) ((?U d)\<lparr>procs := ?P\<rparr>)) = Swtch (acq (ProcLock p) ((?U d)\<lparr>procs := ?P(p :=
        (?P p)\<lparr>p_chan := PipeNwrite pi, p_state := SLEEPING, p_intena := sie s\<rparr>)\<rparr>))"
      using F pl by (subst sleep_eq) (simp_all add: piped_def sie_def)
    have "?L (int d) (acq (PipeLock pi) (?U d)) = Swtch (acq (ProcLock p) ((?U d)\<lparr>procs := ?P(p :=
        (?P p)\<lparr>p_chan := PipeNwrite pi, p_state := SLEEPING, p_intena := sie s\<rparr>)\<rparr>))" (is "_ = Swtch ?t")
      using dr(2) w(1,2) full F pl sl by (simp add: pipewrite_one_def getpi_def getp_def kmon)
    moreover have "n + 1 - d = Suc (n - d)" using dr(2) by simp
    ultimately have "loopf (n + 1) ?L 0 (acq (PipeLock pi) s) = Swtch ?t" unfolding loop by (simp add: bnd_apply)
    then have "pipewrite pi addr (int n) s = Swtch ?t" unfolding run by (simp add: bnd_apply del: loopf.simps)
    then show ?thesis using False q(2) used dr take_ubytes[of d n "mem s" ?r addr] F(3) by (simp add: Let_def)
  qed
qed

text \<open>A running process with an empty pipe and one user page.\<close>

definition demo_pipe :: "(u64 \<Rightarrow> byte) \<Rightarrow> kstate" where
  "demo_pipe m = (demo_run 0x80020000 (\<lambda>_ _. 0))\<lparr>mem := m, pipes := (\<lambda>_. zero_pipe\<lparr>pi_readopen := True, pi_writeopen := True\<rparr>),
     procs := (procs (demo_run 0x80020000 (\<lambda>_ _. 0)))(0 := (procs (demo_run 0x80020000 (\<lambda>_ _. 0)) 0)\<lparr>p_pagetable := 0x80030000\<rparr>)\<rparr>"

lemma demo_pipe:
  "pipe_free (demo_pipe m) pi 0" "mem (demo_pipe m) = m" "kend (demo_pipe m) = 0x80020000" "p_pagetable (procs (demo_pipe m) 0) = 0x80030000"
  "\<not> p_killed (procs (demo_pipe m) 0)" "pi_readopen (pipes (demo_pipe m) pi)" "pi_writeopen (pipes (demo_pipe m) pi)"
  "pq.used (pipes (demo_pipe m) pi) = 0" "pq.ok (pipes (demo_pipe m) pi)" "pq.queue (pipes (demo_pipe m) pi) = []"
proof -
  show "pipe_free (demo_pipe m) pi 0"
    using quiet_demo_run[of "0x80020000" "\<lambda>_ _. 0"] by (simp add: pipe_free_def demo_pipe_def plocks_def NPROC_def)
  show "mem (demo_pipe m) = m" "kend (demo_pipe m) = 0x80020000" "p_pagetable (procs (demo_pipe m) 0) = 0x80030000"
    "\<not> p_killed (procs (demo_pipe m) 0)" "pi_readopen (pipes (demo_pipe m) pi)" "pi_writeopen (pipes (demo_pipe m) pi)"
    "pq.used (pipes (demo_pipe m) pi) = 0" "pq.ok (pipes (demo_pipe m) pi)"
    by (simp_all add: demo_pipe_def demo_run_def boot_state_def zero_proc_def zero_pipe_def pq.used_def pq.ok_def)
  then show "pq.queue (pipes (demo_pipe m) pi) = []" by (simp add: pq.queue_def)
qed

theorem pipewrite_appends_witness:
  "\<exists>m t. pipewrite 0x80050000 16 5 (demo_pipe m) = Ok 5 t \<and> pq.queue (pipes t 0x80050000) = ubytes m 0x80030000 16 5"
proof -
  obtain m ys where m: "\<And>s. mem s = m \<Longrightarrow> kend s = 0x80020000 \<Longrightarrow> pt_ok s 0x80030000 ys" "umapped m 0x80030000 16 5" using demo_user by blast
  note D = demo_pipe[of m]
  have "5 \<le> PIPESIZE" by (simp add: PIPESIZE_def)
  then show ?thesis
    using pipewrite_appends[OF D(1)[of "0x80050000"] D(6) D(5) D(9), of ys 16 5] m(1)[OF D(2,3)] m(2)
    by (auto simp: D Let_def intro!: exI[of _ m])
qed

section \<open>Reading\<close>

lemma pipes_mem: "s\<lparr>pipes := p, mem := m\<rparr> = s\<lparr>mem := m, pipes := p\<rparr>"
  by (rule kstate.equality) simp_all

definition unpiped :: "u64 \<Rightarrow> u64 \<Rightarrow> u64 \<Rightarrow> nat \<Rightarrow> kstate \<Rightarrow> kstate" where
  "unpiped root pi addr k s = s\<lparr>mem := uwrite (mem s) root addr (\<lambda>i. pq.queue (pipes s pi) ! i) k, pipes := (pipes s)(pi := (pi_pop ^^ k) (pipes s pi))\<rparr>"

lemma unpiped_simps [simp]: "pipes (unpiped root pi addr k s) = (pipes s)(pi := (pi_pop ^^ k) (pipes s pi))" "procs (unpiped root pi addr k s) = procs s"
  "mem (unpiped root pi addr k s) = uwrite (mem s) root addr (\<lambda>i. pq.queue (pipes s pi) ! i) k"
  "cpu_ok (unpiped root pi addr k s) = cpu_ok s" "freelk lk (unpiped root pi addr k s) = freelk lk s" "curproc (unpiped root pi addr k s) = curproc s"
  "plocks me (unpiped root pi addr k s) = plocks me s" "hart (unpiped root pi addr k s) = hart s" "cpus (unpiped root pi addr k s) = cpus s"
  by (simp_all add: unpiped_def)

lemma unpiped_ok:
  assumes "pt_ok s root xs" "user_ok (mem s) root" "umapped (mem s) root addr n" "k \<le> n"
  shows "pt_ok (unpiped root pi addr k s) root xs" "user_ok (mem (unpiped root pi addr k s)) root"
    "uframe (mem (unpiped root pi addr k s)) root va = uframe (mem s) root va" "uaddr (mem (unpiped root pi addr k s)) root va = uaddr (mem s) root va"
proof -
  let ?m = "uwrite (mem s) root addr (\<lambda>i. pq.queue (pipes s pi) ! i) k"
  have ag: "pt_agree (mem s) ?m root" by (rule uwrite_agree[OF assms(1,2)]) (use assms(3,4) in \<open>simp add: umapped_def\<close>)
  note S = pt_agree_same[OF assms(1) ag]
  show "uframe (mem (unpiped root pi addr k s)) root va = uframe (mem s) root va"
    "uaddr (mem (unpiped root pi addr k s)) root va = uaddr (mem s) root va" using S(2,3) by simp_all
  show "user_ok (mem (unpiped root pi addr k s)) root" using user_ok_agree[OF assms(1) ag] assms(2) by simp
  show "pt_ok (unpiped root pi addr k s) root xs" using S(1) by (simp add: unpiped_def)
qed

lemma piperead_one_step:
  assumes pt: "pt_ok s (p_pagetable (procs s p)) xs" "user_ok (mem s) (p_pagetable (procs s p))" "umapped (mem s) (p_pagetable (procs s p)) addr n"
    and k: "k < n" "k < pq.used (pipes s pi)"
  shows "piperead_one p pi addr (int k) (acq (PipeLock pi) (unpiped (p_pagetable (procs s p)) pi addr k s)) =
    Ok None (acq (PipeLock pi) (unpiped (p_pagetable (procs s p)) pi addr (Suc k) s))"
proof -
  let ?r = "p_pagetable (procs s p)"
  let ?R = "unpiped ?r pi addr" and ?p = "(pi_pop ^^ k) (pipes s pi)"
  note Q = pq.queue_nth[OF k(2)]
  let ?t = "acq (PipeLock pi) ((?R k s)\<lparr>pipes := (pipes s)(pi := (pi_pop ^^ Suc k) (pipes s pi))\<rparr>)"
  note O = unpiped_ok[OF pt less_imp_le[OF k(1)]]
  have "copyout ?r (addr + of_nat k) (\<lambda>_. pq.queue (pipes s pi) ! k) 1 ?t =
      Ok 0 (?t\<lparr>mem := (mem (?R k s))(uaddr (mem s) ?r (addr + of_nat k) := pq.queue (pipes s pi) ! k)\<rparr>)"
    using copyout_byte[of ?t ?r xs "addr + of_nat k" "\<lambda>_. pq.queue (pipes s pi) ! k"] O k(1) pt(3) by (simp add: umapped_def)
  also have "?t\<lparr>mem := (mem (?R k s))(uaddr (mem s) ?r (addr + of_nat k) := pq.queue (pipes s pi) ! k)\<rparr> = acq (PipeLock pi) (?R (Suc k) s)"
    by (simp add: unpiped_def uwrite_Suc pipes_mem)
  finally have c: "copyout ?r (addr + of_nat k) (\<lambda>_. pq.queue (pipes s pi) ! k) 1 ?t = Ok 0 (acq (PipeLock pi) (?R (Suc k) s))" .
  have "setpi pi (\<lambda>p. p\<lparr>pi_nread := pi_nread p + 1\<rparr>) (acq (PipeLock pi) (?R k s)) = Ok () ?t"
    by (simp add: setpi_def kmon pi_pop_def)
  then show ?thesis using Q c by (simp add: piperead_one_def getpi_def getp_def kmon Let_def)
qed

lemma piperead_run:
  assumes pt: "pt_ok s (p_pagetable (procs s p)) xs" "user_ok (mem s) (p_pagetable (procs s p))" "umapped (mem s) (p_pagetable (procs s p)) addr K"
    and K: "K \<le> n" "K \<le> pq.used (pipes s pi)" and k: "k + d \<le> K"
  shows "forl [int k..int n - 1] (piperead_one p pi addr) (acq (PipeLock pi) (unpiped (p_pagetable (procs s p)) pi addr k s)) =
    forl [int (k + d)..int n - 1] (piperead_one p pi addr) (acq (PipeLock pi) (unpiped (p_pagetable (procs s p)) pi addr (k + d) s))"
  using k
proof (induction d arbitrary: k)
  case (Suc d)
  have "[int k..int n - 1] = int k # [int (Suc k)..int n - 1]" using Suc.prems K(1) by (simp add: upto_rec1 add.commute)
  then show ?case
    using forl_next[of "piperead_one p pi addr", OF piperead_one_step[OF pt, of k pi]] Suc.prems K(2) Suc.IH[of "Suc k"] by simp
qed simp

text \<open>
  C32: reading from a pipe takes from the front of its queue. A reader that finds bytes, or the write end closed, gets the first
  \<open>min n used\<close> bytes in its buffer, in order, and these leave the queue; the sleeping writers become runnable. A reader that finds the pipe empty
  and the write end open sleeps on the pipe's read channel, or returns -1 if it was killed.
\<close>

theorem piperead_takes_front:
  assumes free: "pipe_free s pi p" and ok: "pq.ok (pipes s pi)"
    and u: "pt_ok s (p_pagetable (procs s p)) xs" "user_ok (mem s) (p_pagetable (procs s p))"
      "umapped (mem s) (p_pagetable (procs s p)) addr (min n (pq.used (pipes s pi)))"
  shows "let root = p_pagetable (procs s p); k = min n (pq.used (pipes s pi)); q = pq.queue (pipes s pi) in
    if q \<noteq> [] \<or> \<not> pi_writeopen (pipes s pi)
    then \<exists>t. piperead pi addr (int n) s = Ok (int k) t \<and> pq.queue (pipes t pi) = drop k q \<and> pq.ok (pipes t pi) \<and>
      ubytes (mem t) root addr k = take k q \<and> procs t = wake_all (PipeNwrite pi) (Some p) (procs s) \<and> pipe_free t pi p \<and>
      (\<forall>b. (\<forall>i<k. b \<noteq> uaddr (mem s) root (addr + of_nat i)) \<longrightarrow> mem t b = mem s b)
    else if p_killed (procs s p) then \<exists>t. piperead pi addr (int n) s = Ok (- 1) t \<and> pipes t = pipes s \<and> pipe_free t pi p
    else \<exists>t. piperead pi addr (int n) s = Swtch t \<and> pipes t = pipes s \<and> mem t = mem s \<and> p_state (procs t p) = SLEEPING \<and>
      p_chan (procs t p) = PipeNread pi \<and> freelk (PipeLock pi) t"
proof -
  let ?r = "p_pagetable (procs s p)" and ?k = "min n (pq.used (pipes s pi))" and ?q = "pq.queue (pipes s pi)"
  let ?U = "\<lambda>k. unpiped (p_pagetable (procs s p)) pi addr k s"
  have F: "cpu_ok s" "noff (cpus s (hart s)) = 0" "freelk (PipeLock pi) s" "plocks None s" "curproc s = Some p" "p < NPROC"
    using free by (auto simp: pipe_free_def)
  have pl: "plocks (Some p) s" "freelk (ProcLock p) s" using F(4,6) by (auto simp: plocks_def)
  have run: "piperead pi addr (int n) s = piperead_wait p pi addr (int n) (acq (PipeLock pi) s)" using F by (simp add: piperead_def kmon)
  have e: "?q = [] \<longleftrightarrow> pi_nread (pipes s pi) = pi_nwrite (pipes s pi)" by (rule pq.empty_iff)
  show ?thesis
  proof (cases "?q \<noteq> [] \<or> \<not> pi_writeopen (pipes s pi)")
    case True
    have "forl [0..int n - 1] (piperead_one p pi addr) (acq (PipeLock pi) s) =
        forl [int ?k..int n - 1] (piperead_one p pi addr) (acq (PipeLock pi) (?U ?k))"
      using piperead_run[OF u, of n pi 0 ?k] by (simp add: unpiped_def)
    also have "\<dots> = Ok (if n \<le> pq.used (pipes s pi) then None else Some (int ?k)) (acq (PipeLock pi) (?U ?k))"
    proof (cases "n \<le> pq.used (pipes s pi)")
      case False
      then have "[int ?k..int n - 1] = int ?k # [int ?k + 1..int n - 1]" by (simp add: upto_rec1)
      moreover have "pi_nread ((pi_pop ^^ ?k) (pipes s pi)) = pi_nwrite ((pi_pop ^^ ?k) (pipes s pi))"
        using pq.queue_pops[of ?k "pipes s pi"] False pq.used_0 by simp
      ultimately show ?thesis using False by (simp add: kmon piperead_one_def getpi_def getp_def)
    qed (simp add: kmon)
    finally have "piperead pi addr (int n) s = Ok (int ?k) (sync ((?U ?k)\<lparr>procs := wake_all (PipeNwrite pi) (Some p) (procs s)\<rparr>))" (is "_ = Ok _ ?t")
      using True e F pl unfolding run by (auto simp: piperead_wait_def getpi_def getp_def kmon min_def)
    moreover have "ubytes (mem ?t) ?r addr ?k = take ?k ?q"
    proof -
      have "?k \<le> PIPESIZE" using ok by (simp add: pq.ok_def min.coboundedI2)
      then have "?k \<le> 2 ^ 64" unfolding PIPESIZE_def by (rule order_trans) simp
      then show ?thesis using uwrite_at[OF u(2,3), of _ "\<lambda>i. ?q ! i"] unpiped_ok(4)[OF u order_refl, of pi]
        by (intro nth_equalityI) (simp_all add: ubytes_def)
    qed
    moreover have "mem ?t b = mem s b" if "\<forall>i<?k. b \<noteq> uaddr (mem s) ?r (addr + of_nat i)" for b
      using uwrite_other[of ?k b "mem s" ?r addr] that by (auto simp del: min_less_iff_conj)
    ultimately show ?thesis using True pq.queue_pops[of ?k "pipes s pi"] ok F by (simp add: Let_def pipe_free_def)
  next
    case False
    let ?P = "(procs s)(p := (procs s p)\<lparr>p_chan := PipeNread pi, p_state := SLEEPING, p_intena := sie s\<rparr>)"
    have sl: "sleep (PipeNread pi) (PipeLock pi) (acq (PipeLock pi) s) = Swtch (acq (ProcLock p) (s\<lparr>procs := ?P\<rparr>))"
      using F pl by (subst sleep_eq) simp_all
    show ?thesis using False e F sl unfolding run
      by (cases "p_killed (procs s p)") (simp_all add: Let_def piperead_wait_def getpi_def getp_def kmon pipe_free_def)
  qed
qed

theorem piperead_takes_front_witness:
  "\<exists>m t. piperead 0x80050000 16 5 (demo_pipe m) = Swtch t \<and> p_state (procs t 0) = SLEEPING \<and> p_chan (procs t 0) = PipeNread 0x80050000"
proof -
  obtain m ys where m: "\<And>s. mem s = m \<Longrightarrow> kend s = 0x80020000 \<Longrightarrow> pt_ok s 0x80030000 ys" "user_ok m 0x80030000" using demo_user by blast
  note D = demo_pipe[of m]
  show ?thesis
    using piperead_takes_front[OF D(1)[of "0x80050000"] D(9), of ys 16 5] m(1)[OF D(2,3)] m(2)
    by (auto simp: D Let_def umapped_def intro!: exI[of _ m])
qed

end
