(* ===== verification/File.thy ===== *)
theory File
  imports Dir Pipe Console
begin

text \<open>
  Open files (\<^verbatim>\<open>file.c\<close>, and \<open>pipealloc\<close> of \<^verbatim>\<open>pipe.c\<close>). A pointer to a file structure is its index in the file table. The only entry of
  the device switch is the console's.
\<close>

definition getf :: "nat \<Rightarrow> kfile kernel" where
  "getf f = gets (\<lambda>s. files s f)"

definition setf :: "nat \<Rightarrow> (kfile \<Rightarrow> kfile) \<Rightarrow> unit kernel" where
  "setf f g = modify (\<lambda>s. s\<lparr>files := (files s)(f := g (files s f))\<rparr>)"

definition fileinit :: "unit kernel" where
  "fileinit = initlock FtableLock ''ftable''"

definition filealloc_one :: "nat \<Rightarrow> nat option kernel" where
  "filealloc_one f =
     bnd (getf f) (\<lambda>x.
     if f_ref x = 0 then thn (setf f (\<lambda>x. x\<lparr>f_ref := 1\<rparr>)) (thn (release FtableLock) (ret (Some f)))
     else ret None)"

definition filealloc :: "nat option kernel" where
  "filealloc =
     thn (acquire FtableLock) (
     bnd (forl [0..<NFILE] filealloc_one) (\<lambda>r.
     case r of Some f \<Rightarrow> ret (Some f) | None \<Rightarrow> thn (release FtableLock) (ret None)))"

definition filedup :: "nat \<Rightarrow> nat kernel" where
  "filedup f =
     thn (acquire FtableLock) (
     bnd (getf f) (\<lambda>x.
     if f_ref x < 1 then panic ''filedup'' else
     thn (setf f (\<lambda>x. x\<lparr>f_ref := f_ref x + 1\<rparr>)) (
     thn (release FtableLock)
     (ret f))))"

definition fileclose :: "nat \<Rightarrow> unit kernel" where
  "fileclose f =
     thn (acquire FtableLock) (
     bnd (getf f) (\<lambda>x.
     if f_ref x < 1 then panic ''fileclose'' else
     thn (setf f (\<lambda>x. x\<lparr>f_ref := f_ref x - 1\<rparr>)) (
     bnd (getf f) (\<lambda>ff.
     if 0 < f_ref ff then release FtableLock else
     thn (setf f (\<lambda>x. x\<lparr>f_ref := 0, f_type := FD_NONE\<rparr>)) (
     thn (release FtableLock) (
     if f_type ff = FD_PIPE then pipeclose (f_pipe ff) (f_writable ff)
     else if f_type ff = FD_INODE \<or> f_type ff = FD_DEVICE then
       thn begin_op (
       thn (bnd (deref (f_ip ff)) iput)
       end_op)
     else ret ()))))))"

text \<open>\<open>struct stat\<close> in memory: \<open>dev\<close> at 0, \<open>ino\<close> at 4, \<open>type\<close> at 8, \<open>nlink\<close> at 10, \<open>size\<close> at 16; 24 bytes. The padding is not initialised.\<close>

definition stat_bytes :: "stat \<Rightarrow> nat \<Rightarrow> byte" where
  "stat_bytes st =
     put32 (put32 (put16 (put16 (put32 (put32 (\<lambda>_. 0) 0 (of_nat (st_dev st))) 4 (of_nat (st_ino st))) 8 (st_type st)) 10 (st_nlink st))
       16 (ucast (st_size st))) 20 (ucast (drop_bit 32 (st_size st)))"

definition filestat :: "nat \<Rightarrow> u64 \<Rightarrow> int kernel" where
  "filestat f addr =
     bnd myproc (\<lambda>me.
     bnd (getf f) (\<lambda>x.
     if f_type x = FD_INODE \<or> f_type x = FD_DEVICE then
       thn (ilock (f_ip x)) (
       bnd (deref (f_ip x)) (\<lambda>ip.
       bnd (stati ip) (\<lambda>st.
       thn (iunlock (f_ip x)) (
       bnd (deref me) (\<lambda>p. bnd (getp p) (\<lambda>q.
       bnd (copyout (p_pagetable q) addr (stat_bytes st) 24) (\<lambda>r.
       ret (if r < 0 then - 1 else 0))))))))
     else ret (- 1)))"

definition fileread :: "nat \<Rightarrow> u64 \<Rightarrow> int \<Rightarrow> int kernel" where
  "fileread f addr n =
     bnd (getf f) (\<lambda>x.
     if \<not> f_readable x then ret (- 1) else
     if f_type x = FD_PIPE then piperead (f_pipe x) addr n
     else if f_type x = FD_DEVICE then
       bnd (gets devsw) (\<lambda>sw.
       if sint (f_major x) < 0 \<or> int NDEV \<le> sint (f_major x) \<or> \<not> sw (nat (sint (f_major x))) then ret (- 1)
       else bnd (consoleread (UserDst addr) n (\<lambda>_. 0)) (\<lambda>(r, _). ret r))
     else if f_type x = FD_INODE then
       thn (ilock (f_ip x)) (
       bnd (deref (f_ip x)) (\<lambda>ip.
       bnd (readi ip (UserDst addr) (f_off x) (word_of_int n) (\<lambda>_. 0)) (\<lambda>(r, _).
       thn (whenM (0 < r) (setf f (\<lambda>x. x\<lparr>f_off := f_off x + word_of_int r\<rparr>))) (
       thn (iunlock (f_ip x))
       (ret r)))))
     else panic ''fileread'')"

text \<open>The largest number of bytes written in one transaction.\<close>

definition write_max :: int where
  "write_max = ((int MAXOPBLOCKS - 1 - 1 - 2) div 2) * int BSIZE"

definition filewrite_one :: "nat \<Rightarrow> u64 \<Rightarrow> int \<Rightarrow> int \<Rightarrow> (int + int) kernel" where
  "filewrite_one f addr n i =
     (if \<not> i < n then ret (Inr i) else
     let n1 = (if write_max < n - i then write_max else n - i) in
     thn begin_op (
     bnd (getf f) (\<lambda>x.
     thn (ilock (f_ip x)) (
     bnd (deref (f_ip x)) (\<lambda>ip.
     bnd (writei ip (UserSrc (addr + of_int i)) (f_off x) (word_of_int n1)) (\<lambda>r.
     thn (whenM (0 < r) (setf f (\<lambda>x. x\<lparr>f_off := f_off x + word_of_int r\<rparr>))) (
     thn (iunlock (f_ip x)) (
     thn end_op (
     if r \<noteq> n1 then ret (Inr i) else ret (Inl (i + r)))))))))))"

definition filewrite :: "nat \<Rightarrow> u64 \<Rightarrow> int \<Rightarrow> int kernel" where
  "filewrite f addr n =
     bnd (getf f) (\<lambda>x.
     if \<not> f_writable x then ret (- 1) else
     if f_type x = FD_PIPE then pipewrite (f_pipe x) addr n
     else if f_type x = FD_DEVICE then
       bnd (gets devsw) (\<lambda>sw.
       if sint (f_major x) < 0 \<or> int NDEV \<le> sint (f_major x) \<or> \<not> sw (nat (sint (f_major x))) then ret (- 1)
       else consolewrite (UserSrc addr) n)
     else if f_type x = FD_INODE then
       bnd (loopf (nat n + 1) (filewrite_one f addr n) 0) (\<lambda>i. ret (if i = n then n else - 1))
     else panic ''filewrite'')"

section \<open>Creating a pipe\<close>

definition pipe_bad :: "nat option \<Rightarrow> nat option \<Rightarrow> (nat \<times> nat) option kernel" where
  "pipe_bad f0 f1 =
     thn (case f0 of Some f \<Rightarrow> fileclose f | None \<Rightarrow> ret ()) (
     thn (case f1 of Some f \<Rightarrow> fileclose f | None \<Rightarrow> ret ())
     (ret None))"

text \<open>The result \<open>None\<close> stands for -1.\<close>

definition pipealloc :: "(nat \<times> nat) option kernel" where
  "pipealloc =
     bnd filealloc (\<lambda>f0. case f0 of None \<Rightarrow> pipe_bad None None | Some a \<Rightarrow>
     bnd filealloc (\<lambda>f1. case f1 of None \<Rightarrow> pipe_bad (Some a) None | Some b \<Rightarrow>
     bnd kalloc (\<lambda>pi.
     if pi = 0 then pipe_bad (Some a) (Some b) else
     thn (setpi pi (\<lambda>p. p\<lparr>pi_readopen := True, pi_writeopen := True, pi_nwrite := 0, pi_nread := 0\<rparr>)) (
     thn (initlock (PipeLock pi) ''pipe'') (
     thn (setf a (\<lambda>f. f\<lparr>f_type := FD_PIPE, f_readable := True, f_writable := False, f_pipe := pi\<rparr>)) (
     thn (setf b (\<lambda>f. f\<lparr>f_type := FD_PIPE, f_readable := False, f_writable := True, f_pipe := pi\<rparr>))
     (ret (Some (a, b)))))))))"

end
