(* ===== verification/Process.thy ===== *)
theory Process
  imports File
begin

text \<open>
  Creating and ending processes: \<open>userinit\<close>, \<open>fork\<close>, \<open>exit\<close>, \<open>reparent\<close> and \<open>wait\<close> of \<^verbatim>\<open>proc.c\<close>.
\<close>

section \<open>The first process\<close>

definition initcode :: "byte list" where
  "initcode = [
  0x17, 0x05, 0x00, 0x00, 0x13, 0x05, 0x45, 0x02,
  0x97, 0x05, 0x00, 0x00, 0x93, 0x85, 0x35, 0x02,
  0x93, 0x08, 0x70, 0x00, 0x73, 0x00, 0x00, 0x00,
  0x93, 0x08, 0x20, 0x00, 0x73, 0x00, 0x00, 0x00,
  0xef, 0xf0, 0x9f, 0xff, 0x2f, 0x69, 0x6e, 0x69,
  0x74, 0x00, 0x00, 0x24, 0x00, 0x00, 0x00, 0x00,
  0x00, 0x00, 0x00, 0x00]"

definition userinit :: "unit kernel" where
  "userinit =
     bnd allocproc (\<lambda>r.
     thn (modify (\<lambda>s. s\<lparr>initproc := r\<rparr>)) (
     bnd (deref r) (\<lambda>p.
     bnd (getp p) (\<lambda>q.
     thn (uvminit (p_pagetable q) (cstr initcode) (of_nat (length initcode))) (
     thn (setp p (\<lambda>q. q\<lparr>p_sz := PGSIZE\<rparr>)) (
     thn (store64 (p_trapframe q + tf_epc) 0) (
     thn (store64 (p_trapframe q + tf_sp) PGSIZE) (
     thn (setp p (\<lambda>q. q\<lparr>p_name := safestrcpy (p_name q) (cstr (bytes_of ''initcode'')) 16\<rparr>)) (
     bnd (namei [SLASH]) (\<lambda>ip.
     thn (setp p (\<lambda>q. q\<lparr>p_cwd := ip\<rparr>)) (
     thn (setp p (\<lambda>q. q\<lparr>p_state := RUNNABLE\<rparr>))
     (release (ProcLock p)))))))))))))"

section \<open>Fork\<close>

definition fork_file :: "nat \<Rightarrow> nat \<Rightarrow> nat \<Rightarrow> unit kernel" where
  "fork_file p np i =
     bnd (getp p) (\<lambda>q.
     case p_ofile q i of None \<Rightarrow> ret () | Some f \<Rightarrow>
     bnd (filedup f) (\<lambda>f. setp np (\<lambda>q. q\<lparr>p_ofile := (p_ofile q)(i := Some f)\<rparr>)))"

definition fork :: "int kernel" where
  "fork =
     bnd myproc (\<lambda>me.
     bnd allocproc (\<lambda>r. case r of None \<Rightarrow> ret (- 1) | Some np \<Rightarrow>
     bnd (deref me) (\<lambda>p.
     bnd (getp p) (\<lambda>pq. bnd (getp np) (\<lambda>nq.
     bnd (uvmcopy (p_pagetable pq) (p_pagetable nq) (p_sz pq)) (\<lambda>c.
     if c < 0 then thn (freeproc np) (thn (release (ProcLock np)) (ret (- 1))) else
     thn (setp np (\<lambda>q. q\<lparr>p_sz := p_sz pq\<rparr>)) (
     thn (modify (\<lambda>s. s\<lparr>mem := memmove (mem s) (p_trapframe nq) (p_trapframe pq) tf_size\<rparr>)) (
     thn (store64 (p_trapframe nq + tf_a 0) 0) (
     thn (foreach [0..<NOFILE] (fork_file p np)) (
     bnd (deref (p_cwd pq)) (\<lambda>cwd.
     bnd (idup cwd) (\<lambda>cwd.
     thn (setp np (\<lambda>q. q\<lparr>p_cwd := Some cwd\<rparr>)) (
     thn (setp np (\<lambda>q. q\<lparr>p_name := safestrcpy (p_name q) (p_name pq) 16\<rparr>)) (
     thn (release (ProcLock np)) (
     thn (acquire WaitLock) (
     thn (setp np (\<lambda>q. q\<lparr>p_parent := Some p\<rparr>)) (
     thn (release WaitLock) (
     thn (acquire (ProcLock np)) (
     thn (setp np (\<lambda>q. q\<lparr>p_state := RUNNABLE\<rparr>)) (
     thn (release (ProcLock np))
     (ret (p_pid nq))))))))))))))))))))))"

section \<open>Exit\<close>

text \<open>The channel a process pointer is as an address; a null pointer is the channel 0.\<close>

definition proc_chan :: "nat option \<Rightarrow> chan" where
  "proc_chan p = (case p of None \<Rightarrow> NullChan | Some q \<Rightarrow> ProcChan q)"

definition reparent_one :: "nat \<Rightarrow> nat \<Rightarrow> unit kernel" where
  "reparent_one p pp =
     bnd (getp pp) (\<lambda>q.
     whenM (p_parent q = Some p) (
       bnd (gets initproc) (\<lambda>init.
       thn (setp pp (\<lambda>q. q\<lparr>p_parent := init\<rparr>))
       (wakeup (proc_chan init)))))"

definition reparent :: "nat \<Rightarrow> unit kernel" where
  "reparent p = foreach [0..<NPROC] (reparent_one p)"

definition exit_file :: "nat \<Rightarrow> nat \<Rightarrow> unit kernel" where
  "exit_file p fd =
     bnd (getp p) (\<lambda>q.
     case p_ofile q fd of None \<Rightarrow> ret () | Some f \<Rightarrow>
     thn (fileclose f)
     (setp p (\<lambda>q. q\<lparr>p_ofile := (p_ofile q)(fd := None)\<rparr>)))"

definition exit :: "u32 \<Rightarrow> unit kernel" where
  "exit status =
     bnd myproc (\<lambda>me. bnd (gets initproc) (\<lambda>init.
     if me = init then panic ''init exiting'' else
     bnd (deref me) (\<lambda>p.
     thn (foreach [0..<NOFILE] (exit_file p)) (
     thn begin_op (
     bnd (getp p) (\<lambda>q.
     thn (bnd (deref (p_cwd q)) iput) (
     thn end_op (
     thn (setp p (\<lambda>q. q\<lparr>p_cwd := None\<rparr>)) (
     thn (acquire WaitLock) (
     thn (reparent p) (
     bnd (getp p) (\<lambda>q.
     thn (wakeup (proc_chan (p_parent q))) (
     thn (acquire (ProcLock p)) (
     thn (setp p (\<lambda>q. q\<lparr>p_xstate := status, p_state := ZOMBIE\<rparr>)) (
     thn (release WaitLock) (
     thn sched
     (panic ''zombie exit'')))))))))))))))))"

section \<open>Wait\<close>

definition u32_bytes :: "u32 \<Rightarrow> nat \<Rightarrow> byte" where
  "u32_bytes x i = ucast (drop_bit (8 * i) x)"

definition wait_one :: "nat \<Rightarrow> u64 \<Rightarrow> nat \<Rightarrow> int option kernel" where
  "wait_one p addr np =
     bnd (getp np) (\<lambda>nq.
     if p_parent nq \<noteq> Some p then ret None else
     thn (acquire (ProcLock np)) (
     bnd (getp np) (\<lambda>nq.
     if p_state nq = ZOMBIE then
       bnd (getp p) (\<lambda>q.
       bnd (if addr \<noteq> 0 then copyout (p_pagetable q) addr (u32_bytes (p_xstate nq)) 4 else ret 0) (\<lambda>r.
       if r < 0 then thn (release (ProcLock np)) (thn (release WaitLock) (ret (Some (- 1)))) else
       thn (freeproc np) (
       thn (release (ProcLock np)) (
       thn (release WaitLock)
       (ret (Some (p_pid nq)))))))
     else thn (release (ProcLock np)) (ret None))))"

text \<open>\<open>havekids\<close>: the scan met a child. Parents do not change while \<open>wait_lock\<close> is held.\<close>

definition wait_loop :: "nat \<Rightarrow> u64 \<Rightarrow> int kernel" where
  "wait_loop p addr =
     bnd (forl [0..<NPROC] (wait_one p addr)) (\<lambda>r. case r of Some x \<Rightarrow> ret x | None \<Rightarrow>
     bnd (gets (\<lambda>s. list_ex (\<lambda>np. p_parent (procs s np) = Some p) [0..<NPROC])) (\<lambda>havekids.
     bnd (getp p) (\<lambda>q.
     if \<not> havekids \<or> p_killed q then thn (release WaitLock) (ret (- 1))
     else thn (sleep (ProcChan p) WaitLock) (ret 0))))"

definition wait :: "u64 \<Rightarrow> int kernel" where
  "wait addr =
     bnd myproc (\<lambda>me.
     thn (acquire WaitLock) (
     bnd (deref me) (\<lambda>p. wait_loop p addr)))"

definition wait_resume :: "nat \<Rightarrow> u64 \<Rightarrow> int kernel" where
  "wait_resume p addr = thn (sleep_resume p WaitLock) (wait_loop p addr)"

end
