(* ===== verification/Exec.thy ===== *)
theory Exec
  imports Process
begin

text \<open>
  System call arguments (the first half of \<^verbatim>\<open>syscall.c\<close>) and \<open>exec\<close> (\<^verbatim>\<open>exec.c\<close>). A buffer that receives a string is a function of its index.
\<close>

section \<open>Fetching arguments\<close>

definition fetchaddr :: "u64 \<Rightarrow> (int \<times> u64) kernel" where
  "fetchaddr addr =
     bnd myproc (\<lambda>me. bnd (deref me) (\<lambda>p. bnd (getp p) (\<lambda>q.
     if p_sz q \<le> addr \<or> p_sz q < addr + 8 then ret (- 1, 0) else
     bnd (copyin (p_pagetable q) (\<lambda>_. 0) addr 8) (\<lambda>(r, b).
     if r \<noteq> 0 then ret (- 1, le64 b 0) else ret (0, le64 b 0)))))"

definition fetchstr :: "u64 \<Rightarrow> (nat \<Rightarrow> byte) \<Rightarrow> u64 \<Rightarrow> (int \<times> (nat \<Rightarrow> byte)) kernel" where
  "fetchstr addr buf maxn =
     bnd myproc (\<lambda>me. bnd (deref me) (\<lambda>p. bnd (getp p) (\<lambda>q.
     bnd (copyinstr (p_pagetable q) buf addr maxn) (\<lambda>(err, buf).
     if err < 0 then ret (err, buf) else
     case strlen buf of None \<Rightarrow> hang ''strlen'' | Some n \<Rightarrow> ret (int n, buf)))))"

definition argraw :: "nat \<Rightarrow> u64 kernel" where
  "argraw n =
     bnd myproc (\<lambda>me. bnd (deref me) (\<lambda>p. bnd (getp p) (\<lambda>q.
     if n \<le> 5 then load64 (p_trapframe q + tf_a n) else panic ''argraw'')))"

definition argint :: "nat \<Rightarrow> u32 kernel" where
  "argint n = bnd (argraw n) (\<lambda>x. ret (ucast x))"

definition argaddr :: "nat \<Rightarrow> u64 kernel" where
  "argaddr n = argraw n"

definition argstr :: "nat \<Rightarrow> u64 \<Rightarrow> (int \<times> (nat \<Rightarrow> byte)) kernel" where
  "argstr n maxn = bnd (argaddr n) (\<lambda>addr. fetchstr addr (\<lambda>_. 0) maxn)"

text \<open>The string in a buffer that \<open>argstr\<close> has filled: its bytes before the terminator.\<close>

definition path_of :: "int \<times> (nat \<Rightarrow> byte) \<Rightarrow> byte list" where
  "path_of r = map (snd r) [0..<nat (fst r)]"

section \<open>ELF files\<close>

definition ELF_MAGIC :: u32 where "ELF_MAGIC = 0x464C457F"
definition ELF_PROG_LOAD :: u32 where "ELF_PROG_LOAD = 1"

record elfhdr =
  elf_magic :: u32
  elf_entry :: u64
  elf_phoff :: u64
  elf_phnum :: u16

record proghdr =
  ph_type :: u32
  ph_off :: u64
  ph_vaddr :: u64
  ph_filesz :: u64
  ph_memsz :: u64

definition elf_of :: "(nat \<Rightarrow> byte) \<Rightarrow> elfhdr" where
  "elf_of b = \<lparr>elf_magic = le32 b 0, elf_entry = le64 b 24, elf_phoff = le64 b 32, elf_phnum = le16 b 56\<rparr>"

definition ph_of :: "(nat \<Rightarrow> byte) \<Rightarrow> proghdr" where
  "ph_of b = \<lparr>ph_type = le32 b 0, ph_off = le64 b 8, ph_vaddr = le64 b 16, ph_filesz = le64 b 32, ph_memsz = le64 b 40\<rparr>"

definition loadseg_one :: "u64 \<Rightarrow> u64 \<Rightarrow> nat \<Rightarrow> u32 \<Rightarrow> u32 \<Rightarrow> u32 \<Rightarrow> (u32 + int) kernel" where
  "loadseg_one pagetable va ip offset sz i =
     (if \<not> i < sz then ret (Inr 0) else
     bnd (walkaddr pagetable (va + ucast i)) (\<lambda>pa.
     if pa = 0 then panic ''loadseg: address should exist'' else
     let n = (if sz - i < 4096 then sz - i else 4096) in
     bnd (readi ip (MemDst pa) (offset + i) n (\<lambda>_. 0)) (\<lambda>(r, _).
     if r \<noteq> int (unat n) then ret (Inr (- 1)) else ret (Inl (i + 4096)))))"

text \<open>The loop advances by a page; 32-bit counters have at most \<open>2 ^ 20\<close> of them.\<close>

definition loadseg :: "u64 \<Rightarrow> u64 \<Rightarrow> nat \<Rightarrow> u32 \<Rightarrow> u32 \<Rightarrow> int kernel" where
  "loadseg pagetable va ip offset sz = loopf (2 ^ 20 + 1) (loadseg_one pagetable va ip offset sz) 0"

section \<open>Exec\<close>

definition exec_bad :: "u64 \<Rightarrow> u64 \<Rightarrow> nat option \<Rightarrow> int kernel" where
  "exec_bad pagetable sz ip =
     thn (whenM (pagetable \<noteq> 0) (proc_freepagetable pagetable sz)) (
     thn (case ip of None \<Rightarrow> ret () | Some ip \<Rightarrow> thn (iunlockput ip) end_op)
     (ret (- 1)))"

text \<open>
  The loop over the program headers: the next header's index and offset and the size so far. Its result is the size and whether all segments
  were loaded.
\<close>

definition exec_seg :: "u64 \<Rightarrow> nat \<Rightarrow> nat \<Rightarrow> nat \<times> u32 \<times> u64 \<Rightarrow> (nat \<times> u32 \<times> u64 + u64 \<times> bool) kernel" where
  "exec_seg pagetable ip phnum = (\<lambda>(i, off, sz).
     if \<not> i < phnum then ret (Inr (sz, True)) else
     bnd (readi ip BufDst off 56 (\<lambda>_. 0)) (\<lambda>(r, b).
     if r \<noteq> 56 then ret (Inr (sz, False)) else
     let ph = ph_of b in
     if ph_type ph \<noteq> ELF_PROG_LOAD then ret (Inl (i + 1, off + 56, sz)) else
     if ph_memsz ph < ph_filesz ph then ret (Inr (sz, False)) else
     if ph_vaddr ph + ph_memsz ph < ph_vaddr ph then ret (Inr (sz, False)) else
     bnd (uvmalloc pagetable sz (ph_vaddr ph + ph_memsz ph)) (\<lambda>sz1.
     if sz1 = 0 then ret (Inr (sz, False)) else
     if ph_vaddr ph mod PGSIZE \<noteq> 0 then ret (Inr (sz1, False)) else
     bnd (loadseg pagetable (ph_vaddr ph) ip (ucast (ph_off ph)) (ucast (ph_filesz ph))) (\<lambda>r.
     if r < 0 then ret (Inr (sz1, False))
     else ret (Inl (i + 1, off + 56, sz1))))))"

definition mem_str :: "kstate \<Rightarrow> u64 \<Rightarrow> nat \<Rightarrow> byte" where
  "mem_str s a i = mem s (a + of_nat i)"

text \<open>Pushing the argument strings; \<open>argv\<close> is the list of the pointers before the null pointer. \<open>None\<close> is \<open>goto bad\<close>.\<close>

fun exec_args :: "u64 \<Rightarrow> u64 \<Rightarrow> u64 list \<Rightarrow> nat \<Rightarrow> u64 \<Rightarrow> u64 list \<Rightarrow> (nat \<times> u64 \<times> u64 list) option kernel" where
  "exec_args pagetable stackbase [] argc sp ustack = ret (Some (argc, sp, ustack @ [0]))"
| "exec_args pagetable stackbase (a # argv) argc sp ustack =
     (if MAXARG \<le> argc then ret None else
     bnd (gets (\<lambda>s. strlen (mem_str s a))) (\<lambda>l. case l of None \<Rightarrow> hang ''strlen'' | Some n \<Rightarrow>
     let sp = sp - of_nat (n + 1); sp = sp - sp mod 16 in
     if sp < stackbase then ret None else
     bnd (gets (\<lambda>s. mem_str s a)) (\<lambda>src.
     bnd (copyout pagetable sp src (of_nat (n + 1))) (\<lambda>r.
     if r < 0 then ret None else
     exec_args pagetable stackbase argv (argc + 1) sp (ustack @ [sp])))))"

definition words_bytes :: "u64 list \<Rightarrow> nat \<Rightarrow> byte" where
  "words_bytes ws i = (if i div 8 < length ws then ucast (drop_bit (8 * (i mod 8)) (ws ! (i div 8))) else 0)"

definition last_elem :: "byte list \<Rightarrow> byte list" where
  "last_elem path = rev (takeWhile (\<lambda>c. c \<noteq> SLASH) (rev path))"

definition exec_commit :: "nat \<Rightarrow> byte list \<Rightarrow> u64 \<Rightarrow> u64 \<Rightarrow> u64 \<Rightarrow> u64 \<Rightarrow> u64 \<Rightarrow> unit kernel" where
  "exec_commit p path pagetable sz oldsz entry sp =
     bnd (getp p) (\<lambda>q.
     thn (store64 (p_trapframe q + tf_a 1) sp) (
     thn (setp p (\<lambda>q. q\<lparr>p_name := safestrcpy (p_name q) (cstr (last_elem path)) 16\<rparr>)) (
     thn (setp p (\<lambda>q. q\<lparr>p_pagetable := pagetable, p_sz := sz\<rparr>)) (
     thn (store64 (p_trapframe q + tf_epc) entry) (
     thn (store64 (p_trapframe q + tf_sp) sp)
     (proc_freepagetable (p_pagetable q) oldsz))))))"

definition exec_stack :: "nat \<Rightarrow> byte list \<Rightarrow> u64 list \<Rightarrow> u64 \<Rightarrow> u64 \<Rightarrow> u64 \<Rightarrow> int kernel" where
  "exec_stack p path argv pagetable sz entry =
     bnd (getp p) (\<lambda>q.
     let oldsz = p_sz q; sz = PGROUNDUP sz in
     bnd (uvmalloc pagetable sz (sz + 2 * PGSIZE)) (\<lambda>sz1.
     if sz1 = 0 then exec_bad pagetable sz None else
     let sz = sz1; stackbase = sz - PGSIZE in
     thn (uvmclear pagetable (sz - 2 * PGSIZE)) (
     bnd (exec_args pagetable stackbase argv 0 sz []) (\<lambda>r. case r of None \<Rightarrow> exec_bad pagetable sz None | Some (argc, sp, ustack) \<Rightarrow>
     let sp = sp - of_nat ((argc + 1) * 8); sp = sp - sp mod 16 in
     if sp < stackbase then exec_bad pagetable sz None else
     bnd (copyout pagetable sp (words_bytes ustack) (of_nat ((argc + 1) * 8))) (\<lambda>r.
     if r < 0 then exec_bad pagetable sz None else
     thn (exec_commit p path pagetable sz oldsz entry sp)
     (ret (int argc)))))))"

definition exec :: "byte list \<Rightarrow> u64 list \<Rightarrow> int kernel" where
  "exec path argv =
     bnd myproc (\<lambda>me.
     thn begin_op (
     bnd (namei path) (\<lambda>r. case r of None \<Rightarrow> thn end_op (ret (- 1)) | Some ip \<Rightarrow>
     thn (ilock (Some ip)) (
     bnd (readi ip BufDst 0 64 (\<lambda>_. 0)) (\<lambda>(r, b).
     if r \<noteq> 64 then exec_bad 0 0 (Some ip) else
     if elf_magic (elf_of b) \<noteq> ELF_MAGIC then exec_bad 0 0 (Some ip) else
     bnd (deref me) (\<lambda>p.
     bnd (proc_pagetable p) (\<lambda>pagetable.
     if pagetable = 0 then exec_bad 0 0 (Some ip) else
     bnd (loopf (unat (elf_phnum (elf_of b)) + 1) (exec_seg pagetable ip (unat (elf_phnum (elf_of b))))
            (0, ucast (elf_phoff (elf_of b)), 0)) (\<lambda>(sz, ok).
     if \<not> ok then exec_bad pagetable sz (Some ip) else
     thn (iunlockput ip) (
     thn end_op
     (exec_stack p path argv pagetable sz (elf_entry (elf_of b))))))))))))"

end
