(* ===== verification/Sysfile.thy ===== *)
theory Sysfile
  imports Exec
begin

text \<open>
  The file system calls (\<^verbatim>\<open>sysfile.c\<close>). A system call returns the word that goes into the caller's register \<open>a0\<close>.
\<close>

section \<open>File descriptors\<close>

text \<open>The descriptor and the file, or \<open>None\<close> for -1.\<close>

definition argfd :: "nat \<Rightarrow> (nat \<times> nat) option kernel" where
  "argfd n =
     bnd (argint n) (\<lambda>fd.
     if sint fd < 0 \<or> int NOFILE \<le> sint fd then ret None else
     bnd myproc (\<lambda>me. bnd (deref me) (\<lambda>p. bnd (getp p) (\<lambda>q.
     case p_ofile q (unat fd) of None \<Rightarrow> ret None | Some f \<Rightarrow> ret (Some (unat fd, f))))))"

definition set_ofile :: "nat \<Rightarrow> nat \<Rightarrow> nat option \<Rightarrow> unit kernel" where
  "set_ofile p fd f = setp p (\<lambda>q. q\<lparr>p_ofile := (p_ofile q)(fd := f)\<rparr>)"

definition fdalloc_one :: "nat \<Rightarrow> nat \<Rightarrow> nat \<Rightarrow> int option kernel" where
  "fdalloc_one p f fd =
     bnd (getp p) (\<lambda>q.
     if p_ofile q fd = None then thn (set_ofile p fd (Some f)) (ret (Some (int fd))) else ret None)"

definition fdalloc :: "nat \<Rightarrow> int kernel" where
  "fdalloc f =
     bnd myproc (\<lambda>me. bnd (deref me) (\<lambda>p.
     bnd (forl [0..<NOFILE] (fdalloc_one p f)) (\<lambda>r. case r of Some fd \<Rightarrow> ret fd | None \<Rightarrow> ret (- 1))))"

definition sys_dup :: "u64 kernel" where
  "sys_dup =
     bnd (argfd 0) (\<lambda>r. case r of None \<Rightarrow> ret (- 1) | Some (_, f) \<Rightarrow>
     bnd (fdalloc f) (\<lambda>fd.
     if fd < 0 then ret (- 1) else
     bnd (filedup f) (\<lambda>_. ret (of_int fd))))"

definition sys_read :: "u64 kernel" where
  "sys_read =
     bnd (argfd 0) (\<lambda>r. case r of None \<Rightarrow> ret (- 1) | Some (_, f) \<Rightarrow>
     bnd (argint 2) (\<lambda>n.
     bnd (argaddr 1) (\<lambda>p.
     bnd (fileread f p (sint n)) (\<lambda>r. ret (of_int r)))))"

definition sys_write :: "u64 kernel" where
  "sys_write =
     bnd (argfd 0) (\<lambda>r. case r of None \<Rightarrow> ret (- 1) | Some (_, f) \<Rightarrow>
     bnd (argint 2) (\<lambda>n.
     bnd (argaddr 1) (\<lambda>p.
     bnd (filewrite f p (sint n)) (\<lambda>r. ret (of_int r)))))"

definition sys_close :: "u64 kernel" where
  "sys_close =
     bnd (argfd 0) (\<lambda>r. case r of None \<Rightarrow> ret (- 1) | Some (fd, f) \<Rightarrow>
     bnd myproc (\<lambda>me. bnd (deref me) (\<lambda>p.
     thn (set_ofile p fd None) (
     thn (fileclose f)
     (ret 0)))))"

definition sys_fstat :: "u64 kernel" where
  "sys_fstat =
     bnd (argfd 0) (\<lambda>r. case r of None \<Rightarrow> ret (- 1) | Some (_, f) \<Rightarrow>
     bnd (argaddr 1) (\<lambda>st.
     bnd (filestat f st) (\<lambda>r. ret (of_int r))))"

section \<open>Links\<close>

definition MAXPATH64 :: u64 where "MAXPATH64 = of_nat MAXPATH"

definition sys_link_bad :: "nat \<Rightarrow> u64 kernel" where
  "sys_link_bad ip =
     thn (ilock (Some ip)) (
     thn (seti ip (\<lambda>i. i\<lparr>i_nlink := i_nlink i - 1\<rparr>)) (
     thn (iupdate ip) (
     thn (iunlockput ip) (
     thn end_op
     (ret (- 1))))))"

definition sys_link :: "u64 kernel" where
  "sys_link =
     bnd (argstr 0 MAXPATH64) (\<lambda>old. if fst old < 0 then ret (- 1) else
     bnd (argstr 1 MAXPATH64) (\<lambda>new. if fst new < 0 then ret (- 1) else
     thn begin_op (
     bnd (namei (path_of old)) (\<lambda>r. case r of None \<Rightarrow> thn end_op (ret (- 1)) | Some ip \<Rightarrow>
     thn (ilock (Some ip)) (
     bnd (geti ip) (\<lambda>i.
     if i_type i = T_DIR then thn (iunlockput ip) (thn end_op (ret (- 1))) else
     thn (seti ip (\<lambda>i. i\<lparr>i_nlink := i_nlink i + 1\<rparr>)) (
     thn (iupdate ip) (
     thn (iunlock (Some ip)) (
     bnd (nameiparent (path_of new) (\<lambda>_. 0)) (\<lambda>(r, name). case r of None \<Rightarrow> sys_link_bad ip | Some dp \<Rightarrow>
     thn (ilock (Some dp)) (
     bnd (geti dp) (\<lambda>d. bnd (geti ip) (\<lambda>i.
     bnd (if i_dev d \<noteq> i_dev i then ret (- 1) else dirlink dp name (i_inum i)) (\<lambda>r.
     if r < 0 then thn (iunlockput dp) (sys_link_bad ip) else
     thn (iunlockput dp) (
     thn (iput ip) (
     thn end_op
     (ret 0)))))))))))))))))"

definition isdirempty_one :: "nat \<Rightarrow> nat \<Rightarrow> bool option kernel" where
  "isdirempty_one dp off =
     bnd (readi dp BufDst (of_nat off) de_size (\<lambda>_. 0)) (\<lambda>(r, de).
     if r \<noteq> 16 then panic ''isdirempty: readi'' else
     if de_inum de \<noteq> 0 then ret (Some False) else ret None)"

definition isdirempty :: "nat \<Rightarrow> bool kernel" where
  "isdirempty dp =
     bnd (geti dp) (\<lambda>d.
     bnd (forl (drop 2 (de_offsets (i_size d))) (isdirempty_one dp)) (\<lambda>r.
     case r of Some b \<Rightarrow> ret b | None \<Rightarrow> ret True))"

definition sys_unlink_bad :: "nat \<Rightarrow> u64 kernel" where
  "sys_unlink_bad dp = thn (iunlockput dp) (thn end_op (ret (- 1)))"

definition sys_unlink :: "u64 kernel" where
  "sys_unlink =
     bnd (argstr 0 MAXPATH64) (\<lambda>path. if fst path < 0 then ret (- 1) else
     thn begin_op (
     bnd (nameiparent (path_of path) (\<lambda>_. 0)) (\<lambda>(r, name). case r of None \<Rightarrow> thn end_op (ret (- 1)) | Some dp \<Rightarrow>
     thn (ilock (Some dp)) (
     if namecmp name (cstr [46]) = 0 \<or> namecmp name (cstr [46, 46]) = 0 then sys_unlink_bad dp else
     bnd (dirlookup dp name) (\<lambda>r. case r of None \<Rightarrow> sys_unlink_bad dp | Some (ip, off) \<Rightarrow>
     thn (ilock (Some ip)) (
     bnd (geti ip) (\<lambda>i.
     if sint (i_nlink i) < 1 then panic ''unlink: nlink < 1'' else
     bnd (if i_type i = T_DIR then isdirempty ip else ret True) (\<lambda>empty.
     if \<not> empty then thn (iunlockput ip) (sys_unlink_bad dp) else
     bnd (writei dp (BufSrc (\<lambda>_. 0)) (of_nat off) de_size) (\<lambda>r.
     if r \<noteq> 16 then panic ''unlink: writei'' else
     thn (whenM (i_type i = T_DIR) (
       thn (seti dp (\<lambda>d. d\<lparr>i_nlink := i_nlink d - 1\<rparr>))
       (iupdate dp))) (
     thn (iunlockput dp) (
     thn (seti ip (\<lambda>i. i\<lparr>i_nlink := i_nlink i - 1\<rparr>)) (
     thn (iupdate ip) (
     thn (iunlockput ip) (
     thn end_op
     (ret 0)))))))))))))))"

section \<open>Creating and opening files\<close>

text \<open>\<open>create\<close> returns a locked inode.\<close>

definition create :: "byte list \<Rightarrow> u16 \<Rightarrow> u16 \<Rightarrow> u16 \<Rightarrow> nat option kernel" where
  "create path ty major minor =
     bnd (nameiparent path (\<lambda>_. 0)) (\<lambda>(r, name). case r of None \<Rightarrow> ret None | Some dp \<Rightarrow>
     thn (ilock (Some dp)) (
     bnd (dirlookup dp name) (\<lambda>r. case r of
       Some (ip, _) \<Rightarrow>
         thn (iunlockput dp) (
         thn (ilock (Some ip)) (
         bnd (geti ip) (\<lambda>i.
         if ty = T_FILE \<and> (i_type i = T_FILE \<or> i_type i = T_DEVICE) then ret (Some ip)
         else thn (iunlockput ip) (ret None))))
     | None \<Rightarrow>
         bnd (geti dp) (\<lambda>d.
         bnd (ialloc (i_dev d) ty) (\<lambda>ip.
         thn (ilock (Some ip)) (
         thn (seti ip (\<lambda>i. i\<lparr>i_major := major, i_minor := minor, i_nlink := 1\<rparr>)) (
         thn (iupdate ip) (
         bnd (geti ip) (\<lambda>i.
         thn (whenM (ty = T_DIR) (
           thn (seti dp (\<lambda>d. d\<lparr>i_nlink := i_nlink d + 1\<rparr>)) (
           thn (iupdate dp) (
           bnd (dirlink ip (cstr [46]) (i_inum i)) (\<lambda>r.
           if r < 0 then panic ''create dots'' else
           bnd (dirlink ip (cstr [46, 46]) (i_inum d)) (\<lambda>r.
           if r < 0 then panic ''create dots'' else ret ())))))) (
         bnd (dirlink dp name (i_inum i)) (\<lambda>r.
         if r < 0 then panic ''create: dirlink'' else
         thn (iunlockput dp)
         (ret (Some ip)))))))))))))"

definition open_bad :: "nat \<Rightarrow> u64 kernel" where
  "open_bad ip = thn (iunlockput ip) (thn end_op (ret (- 1)))"

text \<open>The locked inode of the file to open, or \<open>None\<close> when \<open>sys_open\<close> ends the operation and returns -1.\<close>

definition open_inode :: "byte list \<Rightarrow> u32 \<Rightarrow> nat option kernel" where
  "open_inode path omode =
     (if omode AND O_CREATE \<noteq> 0 then
        bnd (create path T_FILE 0 0) (\<lambda>r. case r of None \<Rightarrow> thn end_op (ret None) | Some ip \<Rightarrow> ret (Some ip))
      else
        bnd (namei path) (\<lambda>r. case r of None \<Rightarrow> thn end_op (ret None) | Some ip \<Rightarrow>
        thn (ilock (Some ip)) (
        bnd (geti ip) (\<lambda>i.
        if i_type i = T_DIR \<and> omode \<noteq> O_RDONLY then thn (iunlockput ip) (thn end_op (ret None))
        else ret (Some ip)))))"

definition sys_open :: "u64 kernel" where
  "sys_open =
     bnd (argstr 0 MAXPATH64) (\<lambda>path. if fst path < 0 then ret (- 1) else
     bnd (argint 1) (\<lambda>omode.
     thn begin_op (
     bnd (open_inode (path_of path) omode) (\<lambda>r. case r of None \<Rightarrow> ret (- 1) | Some ip \<Rightarrow>
     bnd (geti ip) (\<lambda>i.
     if i_type i = T_DEVICE \<and> (sint (i_major i) < 0 \<or> int NDEV \<le> sint (i_major i)) then open_bad ip else
     bnd filealloc (\<lambda>f. case f of None \<Rightarrow> open_bad ip | Some f \<Rightarrow>
     bnd (fdalloc f) (\<lambda>fd.
     if fd < 0 then thn (fileclose f) (open_bad ip) else
     thn (setf f (\<lambda>x. (if i_type i = T_DEVICE then x\<lparr>f_type := FD_DEVICE, f_major := i_major i\<rparr>
                       else x\<lparr>f_type := FD_INODE, f_off := 0\<rparr>))) (
     thn (setf f (\<lambda>x. x\<lparr>f_ip := Some ip, f_readable := (omode AND O_WRONLY = 0),
                       f_writable := (omode AND O_WRONLY \<noteq> 0 \<or> omode AND O_RDWR \<noteq> 0)\<rparr>)) (
     thn (whenM (omode AND O_TRUNC \<noteq> 0 \<and> i_type i = T_FILE) (itrunc ip)) (
     thn (iunlock (Some ip)) (
     thn end_op
     (ret (of_int fd)))))))))))))"

definition sys_mkdir :: "u64 kernel" where
  "sys_mkdir =
     thn begin_op (
     bnd (argstr 0 MAXPATH64) (\<lambda>path. if fst path < 0 then thn end_op (ret (- 1)) else
     bnd (create (path_of path) T_DIR 0 0) (\<lambda>r. case r of None \<Rightarrow> thn end_op (ret (- 1)) | Some ip \<Rightarrow>
     thn (iunlockput ip) (
     thn end_op
     (ret 0)))))"

definition sys_mknod :: "u64 kernel" where
  "sys_mknod =
     thn begin_op (
     bnd (argstr 0 MAXPATH64) (\<lambda>path. if fst path < 0 then thn end_op (ret (- 1)) else
     bnd (argint 1) (\<lambda>major.
     bnd (argint 2) (\<lambda>minor.
     bnd (create (path_of path) T_DEVICE (ucast major) (ucast minor)) (\<lambda>r. case r of None \<Rightarrow> thn end_op (ret (- 1)) | Some ip \<Rightarrow>
     thn (iunlockput ip) (
     thn end_op
     (ret 0)))))))"

definition sys_chdir :: "u64 kernel" where
  "sys_chdir =
     bnd myproc (\<lambda>me.
     thn begin_op (
     bnd (argstr 0 MAXPATH64) (\<lambda>path. if fst path < 0 then thn end_op (ret (- 1)) else
     bnd (namei (path_of path)) (\<lambda>r. case r of None \<Rightarrow> thn end_op (ret (- 1)) | Some ip \<Rightarrow>
     thn (ilock (Some ip)) (
     bnd (geti ip) (\<lambda>i.
     if i_type i \<noteq> T_DIR then open_bad ip else
     thn (iunlock (Some ip)) (
     bnd (deref me) (\<lambda>p. bnd (getp p) (\<lambda>q.
     thn (bnd (deref (p_cwd q)) iput) (
     thn end_op (
     thn (setp p (\<lambda>q. q\<lparr>p_cwd := Some ip\<rparr>))
     (ret 0))))))))))))"

section \<open>Exec and pipe\<close>

text \<open>Collecting the argument strings into pages; the loop variables are the index and the pages so far. The second result is \<open>False\<close> for \<open>goto bad\<close>.\<close>

definition exec_arg :: "u64 \<Rightarrow> nat \<times> u64 list \<Rightarrow> (nat \<times> u64 list + u64 list \<times> bool) kernel" where
  "exec_arg uargv = (\<lambda>(i, argv).
     if MAXARG \<le> i then ret (Inr (argv, False)) else
     bnd (fetchaddr (uargv + 8 * of_nat i)) (\<lambda>(r, uarg).
     if r < 0 then ret (Inr (argv, False)) else
     if uarg = 0 then ret (Inr (argv, True)) else
     bnd kalloc (\<lambda>page.
     if page = 0 then ret (Inr (argv, False)) else
     bnd (gets (\<lambda>s i. mem s (page + of_nat i))) (\<lambda>old.
     bnd (fetchstr uarg old PGSIZE) (\<lambda>(r, buf).
     thn (modify (\<lambda>s. s\<lparr>mem := mem_write (mem s) page buf (unat PGSIZE)\<rparr>)) (
     if r < 0 then ret (Inr (argv @ [page], False)) else ret (Inl (i + 1, argv @ [page]))))))))"

definition sys_exec :: "u64 kernel" where
  "sys_exec =
     bnd (argstr 0 MAXPATH64) (\<lambda>path. if fst path < 0 then ret (- 1) else
     bnd (argaddr 1) (\<lambda>uargv.
     bnd (loopf (MAXARG + 1) (exec_arg uargv) (0, [])) (\<lambda>(argv, ok).
     if ok then
       bnd (exec (path_of path) argv) (\<lambda>r.
       thn (foreach argv kfree)
       (ret (of_int r)))
     else thn (foreach argv kfree) (ret (- 1)))))"

definition sys_pipe :: "u64 kernel" where
  "sys_pipe =
     bnd myproc (\<lambda>me.
     bnd (argaddr 0) (\<lambda>fdarray.
     bnd pipealloc (\<lambda>r. case r of None \<Rightarrow> ret (- 1) | Some (rfile, wfile) \<Rightarrow>
     bnd (deref me) (\<lambda>p.
     bnd (fdalloc rfile) (\<lambda>fd0.
     bnd (if fd0 < 0 then ret (- 1) else fdalloc wfile) (\<lambda>fd1.
     if fd0 < 0 \<or> fd1 < 0 then
       thn (whenM (0 \<le> fd0) (set_ofile p (nat fd0) None)) (
       thn (fileclose rfile) (
       thn (fileclose wfile)
       (ret (- 1))))
     else
       bnd (getp p) (\<lambda>q.
       bnd (copyout (p_pagetable q) fdarray (u32_bytes (word_of_int fd0)) 4) (\<lambda>r0.
       bnd (if r0 < 0 then ret (- 1) else copyout (p_pagetable q) (fdarray + 4) (u32_bytes (word_of_int fd1)) 4) (\<lambda>r1.
       if r0 < 0 \<or> r1 < 0 then
         thn (set_ofile p (nat fd0) None) (
         thn (set_ofile p (nat fd1) None) (
         thn (fileclose rfile) (
         thn (fileclose wfile)
         (ret (- 1)))))
       else ret 0)))))))))"

end
