(* ===== verification/Trap.thy ===== *)
theory Trap
  imports Sysfile
begin

text \<open>
  Interrupts, traps and system calls: the interrupt controller (\<^verbatim>\<open>plic.c\<close>), the process system calls (\<^verbatim>\<open>sysproc.c\<close>), the system call table
  (\<^verbatim>\<open>syscall.c\<close>), the trap handlers (\<^verbatim>\<open>trap.c\<close>), the first return to user space (\<open>forkret\<close> of \<^verbatim>\<open>proc.c\<close>) and the boot of a hart (\<^verbatim>\<open>main.c\<close>).
\<close>

section \<open>Supervisor registers\<close>

definition SSTATUS_SPP :: u64 where "SSTATUS_SPP = push_bit 8 1"
definition SSTATUS_SPIE :: u64 where "SSTATUS_SPIE = push_bit 5 1"

definition get_csr :: "(csr \<Rightarrow> u64) \<Rightarrow> u64 kernel" where
  "get_csr f = gets (\<lambda>s. f (csrs s (hart s)))"

definition set_csr :: "(csr \<Rightarrow> csr) \<Rightarrow> unit kernel" where
  "set_csr f = modify (\<lambda>s. s\<lparr>csrs := (csrs s)(hart s := f (csrs s (hart s)))\<rparr>)"

definition r_sip :: "u64 kernel" where "r_sip = get_csr sip"
definition w_sip :: "u64 \<Rightarrow> unit kernel" where "w_sip x = set_csr (\<lambda>c. c\<lparr>sip := x\<rparr>)"
definition r_sepc :: "u64 kernel" where "r_sepc = get_csr sepc"
definition w_sepc :: "u64 \<Rightarrow> unit kernel" where "w_sepc x = set_csr (\<lambda>c. c\<lparr>sepc := x\<rparr>)"
definition w_stvec :: "u64 \<Rightarrow> unit kernel" where "w_stvec x = set_csr (\<lambda>c. c\<lparr>stvec := x\<rparr>)"
definition r_satp :: "u64 kernel" where "r_satp = get_csr satp"
definition r_scause :: "u64 kernel" where "r_scause = get_csr scause"
definition r_stval :: "u64 kernel" where "r_stval = get_csr stval"
definition r_tp :: "u64 kernel" where "r_tp = gets (\<lambda>s. of_nat (hart s))"

section \<open>The interrupt controller\<close>

definition mmio_write :: "u64 \<Rightarrow> u32 \<Rightarrow> unit kernel" where
  "mmio_write a v = modify (\<lambda>s. s\<lparr>mmio := mmio s @ [(a, ucast v)]\<rparr>)"

definition plicinit :: "unit kernel" where
  "plicinit =
     thn (mmio_write (PLIC + ucast UART0_IRQ * 4) 1)
     (mmio_write (PLIC + ucast VIRTIO0_IRQ * 4) 1)"

definition plicinithart :: "unit kernel" where
  "plicinithart =
     bnd cpuid (\<lambda>h.
     thn (mmio_write (PLIC_SENABLE (of_nat h)) (push_bit (unat UART0_IRQ) 1 OR push_bit (unat VIRTIO0_IRQ) 1))
     (mmio_write (PLIC_SPRIORITY (of_nat h)) 0))"

definition plic_claim :: "u32 kernel" where
  "plic_claim = bnd cpuid (\<lambda>h. gets (\<lambda>s. ucast (mmio_rd s (PLIC_SCLAIM (of_nat h)))))"

definition plic_complete :: "u32 \<Rightarrow> unit kernel" where
  "plic_complete irq = bnd cpuid (\<lambda>h. mmio_write (PLIC_SCLAIM (of_nat h)) irq)"

section \<open>Process system calls\<close>

text \<open>\<open>exit\<close> does not return, so that the result of \<open>sys_exit\<close> is never used.\<close>

definition sys_exit :: "u64 kernel" where
  "sys_exit = bnd (argint 0) (\<lambda>n. thn (exit n) (ret 0))"

definition sys_getpid :: "u64 kernel" where
  "sys_getpid = bnd myproc (\<lambda>me. bnd (deref me) (\<lambda>p. bnd (getp p) (\<lambda>q. ret (of_int (p_pid q)))))"

definition sys_fork :: "u64 kernel" where
  "sys_fork = bnd fork (\<lambda>r. ret (of_int r))"

definition sys_wait :: "u64 kernel" where
  "sys_wait = bnd (argaddr 0) (\<lambda>p. bnd (wait p) (\<lambda>r. ret (of_int r)))"

text \<open>\<open>addr\<close> is an \<open>int\<close>, which is extended to 64 bits with its sign.\<close>

definition sys_sbrk :: "u64 kernel" where
  "sys_sbrk =
     bnd (argint 0) (\<lambda>n.
     bnd myproc (\<lambda>me. bnd (deref me) (\<lambda>p. bnd (getp p) (\<lambda>q.
     let addr = (ucast (p_sz q) :: u32) in
     bnd (growproc n) (\<lambda>r.
     if r < 0 then ret (- 1) else ret (scast addr))))))"

text \<open>The comparison \<open>ticks - ticks0 < n\<close> is one of unsigned numbers.\<close>

definition sys_sleep_loop :: "u32 \<Rightarrow> u32 \<Rightarrow> u64 kernel" where
  "sys_sleep_loop n ticks0 =
     bnd (gets kticks) (\<lambda>ticks.
     if ticks - ticks0 < n then
       bnd myproc (\<lambda>me. bnd (deref me) (\<lambda>p. bnd (getp p) (\<lambda>q.
       if p_killed q then thn (release TicksLock) (ret (- 1))
       else thn (sleep TicksChan TicksLock) (ret 0))))
     else thn (release TicksLock) (ret 0))"

definition sys_sleep :: "u64 kernel" where
  "sys_sleep =
     bnd (argint 0) (\<lambda>n.
     thn (acquire TicksLock) (
     bnd (gets kticks) (\<lambda>ticks0. sys_sleep_loop n ticks0)))"

definition sys_sleep_resume :: "nat \<Rightarrow> u32 \<Rightarrow> u32 \<Rightarrow> u64 kernel" where
  "sys_sleep_resume p n ticks0 = thn (sleep_resume p TicksLock) (sys_sleep_loop n ticks0)"

definition sys_kill :: "u64 kernel" where
  "sys_kill = bnd (argint 0) (\<lambda>pid. bnd (kill (sint pid)) (\<lambda>r. ret (of_int r)))"

definition sys_uptime :: "u64 kernel" where
  "sys_uptime =
     thn (acquire TicksLock) (
     bnd (gets kticks) (\<lambda>xticks.
     thn (release TicksLock)
     (ret (ucast xticks))))"

section \<open>The system call table\<close>

definition syscalls :: "(u64 kernel) list" where
  "syscalls = [sys_fork, sys_exit, sys_wait, sys_pipe, sys_read, sys_kill, sys_exec, sys_fstat, sys_chdir, sys_dup, sys_getpid,
     sys_sbrk, sys_sleep, sys_uptime, sys_open, sys_write, sys_mknod, sys_unlink, sys_link, sys_mkdir, sys_close]"

text \<open>The table has no entry 0; entry \<open>n\<close> is the element \<open>n - 1\<close> of the list.\<close>

definition syscall :: "unit kernel" where
  "syscall =
     bnd myproc (\<lambda>me. bnd (deref me) (\<lambda>p. bnd (getp p) (\<lambda>q.
     bnd (load64 (p_trapframe q + tf_a 7)) (\<lambda>a7.
     let num = sint (ucast a7 :: u32) in
     if 0 < num \<and> num < int (length syscalls) + 1 then
       bnd (syscalls ! nat (num - 1)) (\<lambda>r.
       bnd (getp p) (\<lambda>q.
       store64 (p_trapframe q + tf_a 0) r))
     else
       thn (printf (Some (bytes_of ''%d %s: unknown sys call %d'' @ [10]))
         [PInt (word_of_int (p_pid q)), PStr (Some (name_bytes (p_name q))), PInt (word_of_int num)])
       (store64 (p_trapframe q + tf_a 0) (- 1))))))"

section \<open>Traps\<close>

definition trapinit :: "unit kernel" where
  "trapinit = initlock TicksLock ''time''"

definition trapinithart :: "unit kernel" where
  "trapinithart = bnd (gets ksym) (\<lambda>sym. w_stvec (sym ''kernelvec''))"

definition clockintr :: "unit kernel" where
  "clockintr =
     thn (acquire TicksLock) (
     thn (modify (\<lambda>s. s\<lparr>kticks := kticks s + 1\<rparr>)) (
     thn (wakeup TicksChan)
     (release TicksLock)))"

definition devintr :: "nat kernel" where
  "devintr =
     bnd r_scause (\<lambda>sc.
     if sc AND 0x8000000000000000 \<noteq> 0 \<and> sc AND 0xff = 9 then
       bnd plic_claim (\<lambda>irq.
       thn (if irq = UART0_IRQ then uartintr
            else if irq = VIRTIO0_IRQ then virtio_disk_intr
            else whenM (irq \<noteq> 0) (printf (Some (bytes_of ''unexpected interrupt irq=%d'' @ [10])) [PInt irq])) (
       thn (whenM (irq \<noteq> 0) (plic_complete irq))
       (ret 1)))
     else if sc = 0x8000000000000001 then
       bnd cpuid (\<lambda>h.
       thn (whenM (h = 0) clockintr) (
       bnd r_sip (\<lambda>x.
       thn (w_sip (x AND NOT 2))
       (ret 2))))
     else ret 0)"

text \<open>
  \<open>usertrapret\<close> ends with a jump into the trampoline, with the address of the code and the user page table as arguments; they are its
  result here.
\<close>

definition usertrapret :: "(u64 \<times> u64) kernel" where
  "usertrapret =
     bnd myproc (\<lambda>me.
     thn intr_off (
     bnd (gets ksym) (\<lambda>sym. bnd (gets ktrampoline) (\<lambda>trampoline.
     thn (w_stvec (TRAMPOLINE + (sym ''uservec'' - trampoline))) (
     bnd (deref me) (\<lambda>p. bnd (getp p) (\<lambda>q.
     bnd r_satp (\<lambda>st.
     thn (store64 (p_trapframe q + tf_kernel_satp) st) (
     thn (store64 (p_trapframe q + tf_kernel_sp) (p_kstack q + PGSIZE)) (
     thn (store64 (p_trapframe q + tf_kernel_trap) (sym ''usertrap'')) (
     bnd r_tp (\<lambda>tp.
     thn (store64 (p_trapframe q + tf_kernel_hartid) tp) (
     bnd r_sstatus (\<lambda>x.
     thn (w_sstatus (x AND NOT SSTATUS_SPP OR SSTATUS_SPIE)) (
     bnd (load64 (p_trapframe q + tf_epc)) (\<lambda>epc.
     thn (w_sepc epc)
     (ret (TRAMPOLINE + (sym ''userret'' - trampoline), MAKE_SATP (p_pagetable q)))))))))))))))))))"

text \<open>What \<open>usertrap\<close> does after handling the trap; a process that yields continues in \<open>usertrap_resume\<close>.\<close>

definition usertrap_end :: "nat \<Rightarrow> nat \<Rightarrow> (u64 \<times> u64) kernel" where
  "usertrap_end p which_dev =
     bnd (getp p) (\<lambda>q.
     thn (whenM (p_killed q) (exit (- 1))) (
     thn (whenM (which_dev = 2) yield)
     usertrapret))"

definition usertrap_resume :: "nat \<Rightarrow> (u64 \<times> u64) kernel" where
  "usertrap_resume p = thn (yield_resume p) usertrapret"

definition usertrap :: "(u64 \<times> u64) kernel" where
  "usertrap =
     bnd r_sstatus (\<lambda>x.
     if x AND SSTATUS_SPP \<noteq> 0 then panic ''usertrap: not from user mode'' else
     bnd (gets ksym) (\<lambda>sym.
     thn (w_stvec (sym ''kernelvec'')) (
     bnd myproc (\<lambda>me. bnd (deref me) (\<lambda>p. bnd (getp p) (\<lambda>q.
     bnd r_sepc (\<lambda>pc.
     thn (store64 (p_trapframe q + tf_epc) pc) (
     bnd r_scause (\<lambda>sc.
     if sc = 8 then
       thn (whenM (p_killed q) (exit (- 1))) (
       bnd (load64 (p_trapframe q + tf_epc)) (\<lambda>epc.
       thn (store64 (p_trapframe q + tf_epc) (epc + 4)) (
       thn intr_on (
       thn syscall
       (usertrap_end p 0)))))
     else
       bnd devintr (\<lambda>which_dev.
       if which_dev \<noteq> 0 then usertrap_end p which_dev else
       bnd r_stval (\<lambda>tv.
       bnd r_scause (\<lambda>sc. bnd r_sepc (\<lambda>pc.
       thn (printf (Some (bytes_of ''usertrap(): unexpected scause %p pid=%d'' @ [10])) [PPtr sc, PInt (word_of_int (p_pid q))]) (
       thn (printf (Some (bytes_of ''            sepc=%p stval=%p'' @ [10])) [PPtr pc, PPtr tv]) (
       thn (setp p (\<lambda>q. q\<lparr>p_killed := True\<rparr>))
       (usertrap_end p 0))))))))))))))))"

text \<open>
  The handler of traps in kernel mode; \<open>kerneltrap_end\<close> restores the registers, also when the interrupted thread has yielded and is resumed.
\<close>

definition kerneltrap_end :: "u64 \<Rightarrow> u64 \<Rightarrow> unit kernel" where
  "kerneltrap_end pc st = thn (w_sepc pc) (w_sstatus st)"

definition kerneltrap :: "unit kernel" where
  "kerneltrap =
     bnd r_sepc (\<lambda>pc. bnd r_sstatus (\<lambda>st. bnd r_scause (\<lambda>sc.
     if st AND SSTATUS_SPP = 0 then panic ''kerneltrap: not from supervisor mode'' else
     bnd intr_get (\<lambda>on.
     if on then panic ''kerneltrap: interrupts enabled'' else
     bnd devintr (\<lambda>which_dev.
     if which_dev = 0 then
       bnd r_sepc (\<lambda>pc. bnd r_stval (\<lambda>tv.
       thn (printf (Some (bytes_of ''scause %p'' @ [10])) [PPtr sc]) (
       thn (printf (Some (bytes_of ''sepc=%p stval=%p'' @ [10])) [PPtr pc, PPtr tv])
       (panic ''kerneltrap''))))
     else
       bnd myproc (\<lambda>me.
       bnd (if which_dev = 2 \<and> me \<noteq> None then bnd myproc (\<lambda>me. bnd (deref me) (\<lambda>p. bnd (getp p) (\<lambda>q. ret (p_state q = RUNNING))))
            else ret False) (\<lambda>y.
       thn (whenM y yield)
       (kerneltrap_end pc st))))))))"

definition kerneltrap_resume :: "nat \<Rightarrow> u64 \<Rightarrow> u64 \<Rightarrow> unit kernel" where
  "kerneltrap_resume p pc st = thn (yield_resume p) (kerneltrap_end pc st)"

definition forkret :: "(u64 \<times> u64) kernel" where
  "forkret =
     bnd myproc (\<lambda>me. bnd (deref me) (\<lambda>p.
     thn (release (ProcLock p)) (
     bnd (gets fs_first) (\<lambda>first.
     thn (whenM first (
       thn (modify (\<lambda>s. s\<lparr>fs_first := False\<rparr>))
       (fsinit ROOTDEV)))
     usertrapret))))"

section \<open>Booting\<close>

text \<open>\<open>main\<close> ends in the scheduler's endless loop, of which it runs the entry.\<close>

definition main :: "unit kernel" where
  "main =
     bnd cpuid (\<lambda>id.
     if id = 0 then
       thn consoleinit (
       thn printfinit (
       thn (printf (Some [10]) []) (
       thn (printf (Some (bytes_of ''xv6 kernel is booting'' @ [10])) []) (
       thn (printf (Some [10]) []) (
       thn kinit (
       thn kvminit (
       thn kvminithart (
       thn procinit (
       thn trapinit (
       thn trapinithart (
       thn plicinit (
       thn plicinithart (
       thn binit (
       thn iinit (
       thn fileinit (
       thn virtio_disk_init (
       thn userinit (
       thn (modify (\<lambda>s. s\<lparr>started := True\<rparr>))
       scheduler_enter))))))))))))))))))
     else
       bnd (gets started) (\<lambda>st.
       if \<not> st then hang ''started'' else
       thn (printf (Some (bytes_of ''hart %d starting'' @ [10])) [PInt (of_nat id)]) (
       thn kvminithart (
       thn trapinithart (
       thn plicinithart
       scheduler_enter)))))"

end
