(* ===== verification/Start.thy ===== *)
theory Start
  imports Memlayout
begin

text \<open>
  The first C code, which runs in machine mode on every hart before \<open>main\<close> (\<^verbatim>\<open>start.c\<close>). Its state is the machine mode registers of the hart
  and the timer registers of the CLINT; the addresses of \<open>main\<close>, \<open>timervec\<close> and the hart's scratch area are arguments.
\<close>

definition CLINT :: u64 where "CLINT = 0x2000000"
definition CLINT_MTIMECMP :: "u64 \<Rightarrow> u64" where "CLINT_MTIMECMP hartid = CLINT + 0x4000 + 8 * hartid"
definition CLINT_MTIME :: u64 where "CLINT_MTIME = CLINT + 0xBFF8"

definition MSTATUS_MPP_MASK :: u64 where "MSTATUS_MPP_MASK = push_bit 11 3"
definition MSTATUS_MPP_S :: u64 where "MSTATUS_MPP_S = push_bit 11 1"
definition MSTATUS_MIE :: u64 where "MSTATUS_MIE = push_bit 3 1"
definition SIE_SEIE :: u64 where "SIE_SEIE = push_bit 9 1"
definition SIE_STIE :: u64 where "SIE_STIE = push_bit 5 1"
definition SIE_SSIE :: u64 where "SIE_SSIE = push_bit 1 1"
definition MIE_MTIE :: u64 where "MIE_MTIE = push_bit 7 1"

record mstate =
  m_hartid :: u64
  m_status :: u64
  m_epc :: u64
  m_satp :: u64
  m_edeleg :: u64
  m_ideleg :: u64
  m_sie :: u64
  m_pmpaddr0 :: u64
  m_pmpcfg0 :: u64
  m_scratch :: u64
  m_tvec :: u64
  m_ie :: u64
  m_tp :: u64
  m_clint :: "u64 \<Rightarrow> u64"
  m_timer_scratch :: "nat \<Rightarrow> u64"

definition timerinit :: "u64 \<Rightarrow> u64 \<Rightarrow> mstate \<Rightarrow> mstate" where
  "timerinit timervec scratch s =
     (let id = m_hartid s;
          interval = 1000000;
          s = s\<lparr>m_clint := (m_clint s)(CLINT_MTIMECMP id := m_clint s CLINT_MTIME + interval)\<rparr>;
          s = s\<lparr>m_timer_scratch := (m_timer_scratch s)(3 := CLINT_MTIMECMP id, 4 := interval)\<rparr>;
          s = s\<lparr>m_scratch := scratch\<rparr>;
          s = s\<lparr>m_tvec := timervec\<rparr>;
          s = s\<lparr>m_status := m_status s OR MSTATUS_MIE\<rparr> in
      s\<lparr>m_ie := m_ie s OR MIE_MTIE\<rparr>)"

text \<open>\<open>mret\<close> continues at \<open>mepc\<close> in the mode of the MPP field of \<open>mstatus\<close>; \<open>start\<close> gives the registers it finds.\<close>

definition start :: "u64 \<Rightarrow> u64 \<Rightarrow> u64 \<Rightarrow> mstate \<Rightarrow> mstate" where
  "start main timervec scratch s =
     (let x = m_status s AND NOT MSTATUS_MPP_MASK OR MSTATUS_MPP_S;
          s = s\<lparr>m_status := x\<rparr>;
          s = s\<lparr>m_epc := main\<rparr>;
          s = s\<lparr>m_satp := 0\<rparr>;
          s = s\<lparr>m_edeleg := 0xffff\<rparr>;
          s = s\<lparr>m_ideleg := 0xffff\<rparr>;
          s = s\<lparr>m_sie := m_sie s OR SIE_SEIE OR SIE_STIE OR SIE_SSIE\<rparr>;
          s = s\<lparr>m_pmpaddr0 := 0x3fffffffffffff\<rparr>;
          s = s\<lparr>m_pmpcfg0 := 0xf\<rparr>;
          s = timerinit timervec scratch s in
      s\<lparr>m_tp := m_hartid s\<rparr>)"

end
