(* ===== verification/Userland.thy ===== *)
theory Userland
  imports Kstate
begin

text \<open>
  The setting of the user programs: a program runs in a state monad over the world outside it. It returns, exits with a status, is replaced by
  another program through \<open>exec\<close>, or does not end (\<open>None\<close>). The world answers system calls; it is a parameter of the programs, and a call
  like \<open>fork\<close> is seen from the one process that runs the program. A string is the list of its bytes before the terminator.
\<close>

section \<open>Programs\<close>

datatype 'a ures = Done 'a | Exited int | Replaced

type_synonym ('w, 'a) user = "'w \<Rightarrow> ('a ures \<times> 'w) option"

definition uret :: "'a \<Rightarrow> ('w, 'a) user" where
  "uret a = (\<lambda>w. Some (Done a, w))"

definition ubnd :: "('w, 'a) user \<Rightarrow> ('a \<Rightarrow> ('w, 'b) user) \<Rightarrow> ('w, 'b) user" where
  "ubnd m k = (\<lambda>w. Option.bind (m w) (\<lambda>(r, w). case r of Done a \<Rightarrow> k a w | Exited c \<Rightarrow> Some (Exited c, w) | Replaced \<Rightarrow> Some (Replaced, w)))"

definition uthn :: "('w, 'a) user \<Rightarrow> ('w, 'b) user \<Rightarrow> ('w, 'b) user" where
  "uthn m n = ubnd m (\<lambda>_. n)"

definition uexit :: "int \<Rightarrow> ('w, 'a) user" where
  "uexit c = (\<lambda>w. Some (Exited c, w))"

definition call :: "('w \<Rightarrow> 'a \<times> 'w) \<Rightarrow> ('w, 'a) user" where
  "call f = (\<lambda>w. case f w of (a, w) \<Rightarrow> Some (Done a, w))"

named_theorems umon "unfolding of the user monad's primitives"

lemma uret_apply [umon]: "uret a w = Some (Done a, w)"
  by (simp add: uret_def)

lemma uexit_apply [umon]: "uexit c w = Some (Exited c, w)"
  by (simp add: uexit_def)

lemma call_apply [umon]: "call f w = (case f w of (a, w) \<Rightarrow> Some (Done a, w))"
  by (simp add: call_def)

lemma ubnd_apply [umon]: "ubnd m k w = (case m w of None \<Rightarrow> None | Some (Done a, w) \<Rightarrow> k a w | Some (Exited c, w) \<Rightarrow> Some (Exited c, w)
    | Some (Replaced, w) \<Rightarrow> Some (Replaced, w))"
  by (auto simp: ubnd_def split: option.split prod.split ures.split)

lemma uthn_apply [umon]: "uthn m n w = (case m w of None \<Rightarrow> None | Some (Done a, w) \<Rightarrow> n w | Some (Exited c, w) \<Rightarrow> Some (Exited c, w)
    | Some (Replaced, w) \<Rightarrow> Some (Replaced, w))"
  by (simp add: uthn_def ubnd_apply)

text \<open>
  A loop without a bound: the body gives the next loop variables (\<open>Inl\<close>) or the loop's result (\<open>Inr\<close>). A loop that never ends is \<open>None\<close>.
\<close>

partial_function (option) uloop_from :: "'w \<Rightarrow> ('x \<Rightarrow> ('w, 'x + 'r) user) \<Rightarrow> 'x \<Rightarrow> ('r ures \<times> 'w) option" where
  "uloop_from w b x = Option.bind (b x w) (\<lambda>(r, w). case r of
     Exited c \<Rightarrow> Some (Exited c, w)
   | Replaced \<Rightarrow> Some (Replaced, w)
   | Done v \<Rightarrow> (case v of Inl y \<Rightarrow> uloop_from w b y | Inr z \<Rightarrow> Some (Done z, w)))"

definition uloop :: "('x \<Rightarrow> ('w, 'x + 'r) user) \<Rightarrow> 'x \<Rightarrow> ('w, 'r) user" where
  "uloop b x = (\<lambda>w. uloop_from w b x)"

lemma uloop_next: "b x w = Some (Done (Inl y), v) \<Longrightarrow> uloop b x w = uloop b y v"
  unfolding uloop_def by (subst uloop_from.simps) simp

lemma uloop_exit: "b x w = Some (Done (Inr z), v) \<Longrightarrow> uloop b x w = Some (Done z, v)"
  unfolding uloop_def by (subst uloop_from.simps) simp

lemma uloop_exited: "b x w = Some (Exited c, v) \<Longrightarrow> uloop b x w = Some (Exited c, v)"
  unfolding uloop_def by (subst uloop_from.simps) simp

fun ueach :: "'i list \<Rightarrow> ('i \<Rightarrow> ('w, unit) user) \<Rightarrow> ('w, unit) user" where
  "ueach [] b = uret ()"
| "ueach (i # is) b = uthn (b i) (ueach is b)"

section \<open>System calls\<close>

text \<open>
  The calls of \<^verbatim>\<open>user.h\<close> that the programs make. \<open>sys_read\<close> gives the bytes it read, \<open>None\<close> for -1; \<open>sys_exec\<close> gives \<open>None\<close> when the program is
  replaced; \<open>sys_pipe\<close> gives the result and the two descriptors; \<open>sys_fstat\<close> the result and the fields of the structure;
  \<open>sys_sbrk\<close> the old end of memory, \<open>None\<close> for -1; the others give the value the call returns.
\<close>

record ustat_t =
  us_type :: int
  us_ino :: u32
  us_size :: u64

record 'w sys =
  sys_read :: "int \<Rightarrow> nat \<Rightarrow> 'w \<Rightarrow> byte list option \<times> 'w"
  sys_write :: "int \<Rightarrow> byte list \<Rightarrow> 'w \<Rightarrow> int \<times> 'w"
  sys_open :: "byte list \<Rightarrow> u32 \<Rightarrow> 'w \<Rightarrow> int \<times> 'w"
  sys_close :: "int \<Rightarrow> 'w \<Rightarrow> int \<times> 'w"
  sys_dup :: "int \<Rightarrow> 'w \<Rightarrow> int \<times> 'w"
  sys_pipe :: "'w \<Rightarrow> (int \<times> int \<times> int) \<times> 'w"
  sys_fork :: "'w \<Rightarrow> int \<times> 'w"
  sys_wait :: "'w \<Rightarrow> int \<times> 'w"
  sys_exec :: "byte list \<Rightarrow> byte list list \<Rightarrow> 'w \<Rightarrow> int option \<times> 'w"
  sys_kill :: "int \<Rightarrow> 'w \<Rightarrow> int \<times> 'w"
  sys_sleep :: "int \<Rightarrow> 'w \<Rightarrow> int \<times> 'w"
  sys_chdir :: "byte list \<Rightarrow> 'w \<Rightarrow> int \<times> 'w"
  sys_mkdir :: "byte list \<Rightarrow> 'w \<Rightarrow> int \<times> 'w"
  sys_mknod :: "byte list \<Rightarrow> int \<Rightarrow> int \<Rightarrow> 'w \<Rightarrow> int \<times> 'w"
  sys_link :: "byte list \<Rightarrow> byte list \<Rightarrow> 'w \<Rightarrow> int \<times> 'w"
  sys_unlink :: "byte list \<Rightarrow> 'w \<Rightarrow> int \<times> 'w"
  sys_fstat :: "int \<Rightarrow> 'w \<Rightarrow> (int \<times> ustat_t) \<times> 'w"
  sys_sbrk :: "int \<Rightarrow> 'w \<Rightarrow> u64 option \<times> 'w"

text \<open>\<open>exec\<close> as a step of a program: it goes on only when the call fails.\<close>

definition uexec :: "'w sys \<Rightarrow> byte list \<Rightarrow> byte list list \<Rightarrow> ('w, int) user" where
  "uexec sys path argv = (\<lambda>w. case sys_exec sys path argv w of (None, w) \<Rightarrow> Some (Replaced, w) | (Some r, w) \<Rightarrow> Some (Done r, w))"

definition ustr :: "string \<Rightarrow> byte list" where
  "ustr s = map (\<lambda>c. of_nat (of_char c)) s"

section \<open>Input and output streams\<close>

text \<open>
  What the programs rely on when they copy or filter: a read from the descriptor \<open>fd\<close> gives a beginning of what is left of the input, at most as many
  bytes as asked for and at least one while there is any; a write to descriptor 1 appends to the output and returns its length.
\<close>

definition stream_sys :: "'w sys \<Rightarrow> int \<Rightarrow> ('w \<Rightarrow> byte list) \<Rightarrow> ('w \<Rightarrow> byte list) \<Rightarrow> bool" where
  "stream_sys sys fd left out =
     ((\<forall>n w. case sys_read sys fd n w of (None, v) \<Rightarrow> False
        | (Some bs, v) \<Rightarrow> left w = bs @ left v \<and> length bs \<le> n \<and> (0 < n \<and> left w \<noteq> [] \<longrightarrow> bs \<noteq> []) \<and> out v = out w) \<and>
      (\<forall>bs w. case sys_write sys 1 bs w of (r, v) \<Rightarrow> r = int (length bs) \<and> out v = out w @ bs \<and> left v = left w))"

lemma stream_read:
  assumes "stream_sys sys fd left out"
  obtains bs v where "sys_read sys fd n w = (Some bs, v)" "left w = bs @ left v" "length bs \<le> n" "0 < n \<Longrightarrow> left w \<noteq> [] \<Longrightarrow> bs \<noteq> []" "out v = out w"
proof -
  obtain r v where r: "sys_read sys fd n w = (r, v)" by fastforce
  have "case sys_read sys fd n w of (None, v) \<Rightarrow> False
    | (Some bs, v) \<Rightarrow> left w = bs @ left v \<and> length bs \<le> n \<and> (0 < n \<and> left w \<noteq> [] \<longrightarrow> bs \<noteq> []) \<and> out v = out w"
    by (rule conjunct1[OF assms[unfolded stream_sys_def], THEN spec, THEN spec])
  then have c: "case r of None \<Rightarrow> False | Some bs \<Rightarrow> left w = bs @ left v \<and> length bs \<le> n \<and> (0 < n \<and> left w \<noteq> [] \<longrightarrow> bs \<noteq> []) \<and> out v = out w"
    unfolding r prod.case .
  show ?thesis
  proof (cases r)
    case (Some bs)
    note h = c[unfolded Some option.case]
    show ?thesis by (rule that[OF r[unfolded Some]]) (use h in blast)+
  qed (use c in simp)
qed

lemma stream_write:
  assumes "stream_sys sys fd left out"
  obtains v where "sys_write sys 1 bs w = (int (length bs), v)" "out v = out w @ bs" "left v = left w"
proof -
  obtain r v where r: "sys_write sys 1 bs w = (r, v)" by fastforce
  have "case sys_write sys 1 bs w of (r, v) \<Rightarrow> r = int (length bs) \<and> out v = out w @ bs \<and> left v = left w"
    by (rule conjunct2[OF assms[unfolded stream_sys_def], THEN spec, THEN spec])
  then show ?thesis using r that unfolding r prod.case by blast
qed

text \<open>An example of a world: the input that is left and the output so far; reads give at most three bytes.\<close>

definition demo_sys :: "(byte list \<times> byte list) sys" where
  "demo_sys = \<lparr>sys_read = (\<lambda>fd n (i, out). (Some (take (min n 3) i), (drop (min n 3) i, out))), sys_write = (\<lambda>fd bs (i, out). (int (length bs), (i, out @ bs))),
     sys_open = (\<lambda>_ _ w. (3, w)), sys_close = (\<lambda>_ w. (0, w)), sys_dup = (\<lambda>_ w. (- 1, w)), sys_pipe = (\<lambda>w. ((- 1, 0, 0), w)), sys_fork = (\<lambda>w. (- 1, w)),
     sys_wait = (\<lambda>w. (- 1, w)), sys_exec = (\<lambda>_ _ w. (Some (- 1), w)), sys_kill = (\<lambda>_ w. (- 1, w)), sys_sleep = (\<lambda>_ w. (0, w)), sys_chdir = (\<lambda>_ w. (- 1, w)),
     sys_mkdir = (\<lambda>_ w. (- 1, w)), sys_mknod = (\<lambda>_ _ _ w. (- 1, w)), sys_link = (\<lambda>_ _ w. (- 1, w)), sys_unlink = (\<lambda>_ w. (- 1, w)),
     sys_fstat = (\<lambda>_ w. ((- 1, \<lparr>us_type = 0, us_ino = 0, us_size = 0\<rparr>), w)), sys_sbrk = (\<lambda>_ w. (None, w))\<rparr>"

lemma demo_stream: "stream_sys demo_sys fd fst snd"
  unfolding stream_sys_def
proof (intro conjI allI)
  fix n and w :: "byte list \<times> byte list"
  obtain i out where w: "w = (i, out)" by (cases w)
  show "case sys_read demo_sys fd n w of (None, v) \<Rightarrow> False
    | (Some bs, v) \<Rightarrow> fst w = bs @ fst v \<and> length bs \<le> n \<and> (0 < n \<and> fst w \<noteq> [] \<longrightarrow> bs \<noteq> []) \<and> snd v = snd w"
    by (simp add: demo_sys_def w)
next
  fix bs and w :: "byte list \<times> byte list"
  show "case sys_write demo_sys 1 bs w of (r, v) \<Rightarrow> r = int (length bs) \<and> snd v = snd w @ bs \<and> fst v = fst w"
    by (cases w) (simp add: demo_sys_def)
qed

end
