(* ===== verification/Grep.thy ===== *)
theory Grep
  imports Userland
begin

text \<open>
  The program \<^verbatim>\<open>grep.c\<close>. A pattern and a text are the lists of the bytes before their terminator. The matcher is shown to decide
  the language the pattern stands for, and the program to print exactly the lines that match, however the kernel cuts the input into pieces.
\<close>

section \<open>The matcher\<close>

definition STAR :: byte where "STAR = 42"
definition DOT :: byte where "DOT = 46"
definition DOLLAR :: byte where "DOLLAR = 36"
definition CARET :: byte where "CARET = 94"

function matchhere :: "byte list \<Rightarrow> byte list \<Rightarrow> bool" and matchstar :: "byte \<Rightarrow> byte list \<Rightarrow> byte list \<Rightarrow> bool" where
  "matchhere re tx =
     (case re of [] \<Rightarrow> True | r # re1 \<Rightarrow>
        if re1 \<noteq> [] \<and> hd re1 = STAR then matchstar r (tl re1) tx
        else if r = DOLLAR \<and> re1 = [] then tx = []
        else case tx of [] \<Rightarrow> False | t # tx1 \<Rightarrow> (r = DOT \<or> r = t) \<and> matchhere re1 tx1)"
| "matchstar c re tx =
     (matchhere re tx \<or>
      (case tx of [] \<Rightarrow> False | t # tx1 \<Rightarrow> (t = c \<or> c = DOT) \<and> matchstar c re tx1))"
  by pat_completeness auto
termination
  by (relation "measure (\<lambda>x. case x of Inl (re, tx) \<Rightarrow> 2 * (length re + length tx) | Inr (c, re, tx) \<Rightarrow> 2 * (length re + length tx) + 1)")
    (auto simp: neq_Nil_conv)

declare matchhere.simps [simp del] matchstar.simps [simp del]

fun match_from :: "byte list \<Rightarrow> byte list \<Rightarrow> bool" where
  "match_from re tx = (matchhere re tx \<or> (case tx of [] \<Rightarrow> False | _ # tx1 \<Rightarrow> match_from re tx1))"

declare match_from.simps [simp del]

definition match :: "byte list \<Rightarrow> byte list \<Rightarrow> bool" where
  "match re tx = (if re \<noteq> [] \<and> hd re = CARET then matchhere (tl re) tx else match_from re tx)"

section \<open>The language of a pattern\<close>

text \<open>A pattern is a sequence of characters, each possibly repeated, and may be anchored at the end.\<close>

datatype piece = Single byte | Many byte

fun pieces :: "byte list \<Rightarrow> piece list \<times> bool" where
  "pieces [] = ([], False)"
| "pieces [c] = (if c = DOLLAR then ([], True) else ([Single c], False))"
| "pieces (c # d # re) =
     (if d = STAR then (let (ps, e) = pieces re in (Many c # ps, e))
      else (let (ps, e) = pieces (d # re) in (Single c # ps, e)))"

definition sym :: "byte \<Rightarrow> byte set" where
  "sym c = (if c = DOT then UNIV else {c})"

fun lang :: "piece list \<Rightarrow> byte list set" where
  "lang [] = {[]}"
| "lang (Single c # ps) = {x # u | x u. x \<in> sym c \<and> u \<in> lang ps}"
| "lang (Many c # ps) = {xs @ u | xs u. set xs \<subseteq> sym c \<and> u \<in> lang ps}"

definition here :: "piece list \<times> bool \<Rightarrow> byte list \<Rightarrow> bool" where
  "here p tx = (\<exists>u v. tx = u @ v \<and> u \<in> lang (fst p) \<and> (snd p \<longrightarrow> v = []))"

lemma here_Single: "here (Single c # ps, e) tx = (case tx of [] \<Rightarrow> False | t # tx1 \<Rightarrow> t \<in> sym c \<and> here (ps, e) tx1)"
proof (cases tx)
  case (Cons t tx1)
  have "here (Single c # ps, e) tx" if t: "t \<in> sym c" and h: "here (ps, e) tx1"
  proof -
    obtain u v where "tx1 = u @ v" "u \<in> lang ps" "e \<longrightarrow> v = []" using h by (auto simp: here_def)
    then have "tx = (t # u) @ v" "t # u \<in> lang (Single c # ps)" "e \<longrightarrow> v = []" using Cons t by auto
    then show ?thesis unfolding here_def fst_conv snd_conv by blast
  qed
  moreover have "t \<in> sym c \<and> here (ps, e) tx1" if h: "here (Single c # ps, e) tx"
  proof -
    obtain x u v where "tx = (x # u) @ v" "x \<in> sym c" "u \<in> lang ps" "e \<longrightarrow> v = []"
      using h unfolding here_def fst_conv snd_conv lang.simps by blast
    then have "t \<in> sym c" "tx1 = u @ v" "u \<in> lang ps" "e \<longrightarrow> v = []" using Cons by auto
    then show ?thesis unfolding here_def fst_conv snd_conv by blast
  qed
  ultimately show ?thesis using Cons by auto
qed (auto simp: here_def)

lemma here_Nil: "here ([], e) tx = (e \<longrightarrow> tx = [])"
  by (auto simp: here_def)

lemma here_Many: "here (Many c # ps, e) tx = (\<exists>xs rest. tx = xs @ rest \<and> set xs \<subseteq> sym c \<and> here (ps, e) rest)"
proof
  assume "here (Many c # ps, e) tx"
  then obtain xs u v where "tx = (xs @ u) @ v" "set xs \<subseteq> sym c" "u \<in> lang ps" "e \<longrightarrow> v = []"
    unfolding here_def fst_conv snd_conv lang.simps by blast
  then have "tx = xs @ (u @ v)" "set xs \<subseteq> sym c" "here (ps, e) (u @ v)" by (auto simp: here_def)
  then show "\<exists>xs rest. tx = xs @ rest \<and> set xs \<subseteq> sym c \<and> here (ps, e) rest" by blast
next
  assume "\<exists>xs rest. tx = xs @ rest \<and> set xs \<subseteq> sym c \<and> here (ps, e) rest"
  then obtain xs u v where "tx = xs @ u @ v" "set xs \<subseteq> sym c" "u \<in> lang ps" "e \<longrightarrow> v = []" by (auto simp: here_def)
  then have "tx = (xs @ u) @ v" "xs @ u \<in> lang (Many c # ps)" "e \<longrightarrow> v = []" by auto
  then show "here (Many c # ps, e) tx" unfolding here_def fst_conv snd_conv by blast
qed

lemma here_Many_step: "here (Many c # ps, e) tx =
    (here (ps, e) tx \<or> (case tx of [] \<Rightarrow> False | t # tx1 \<Rightarrow> t \<in> sym c \<and> here (Many c # ps, e) tx1))"
proof (cases tx)
  case (Cons t tx1)
  have "(\<exists>xs rest. t # tx1 = xs @ rest \<and> set xs \<subseteq> sym c \<and> here (ps, e) rest) \<longleftrightarrow>
    here (ps, e) (t # tx1) \<or> t \<in> sym c \<and> (\<exists>xs rest. tx1 = xs @ rest \<and> set xs \<subseteq> sym c \<and> here (ps, e) rest)"
    (is "?L = ?R")
  proof
    assume ?L
    then obtain xs rest where h: "t # tx1 = xs @ rest" "set xs \<subseteq> sym c" "here (ps, e) rest" by blast
    then show ?R by (cases xs) auto
  next
    assume r: ?R
    then show ?L
    proof
      assume "here (ps, e) (t # tx1)"
      then show ?L by (intro exI[of _ "[]"] exI[of _ "t # tx1"]) simp
    next
      assume "t \<in> sym c \<and> (\<exists>xs rest. tx1 = xs @ rest \<and> set xs \<subseteq> sym c \<and> here (ps, e) rest)"
      then obtain xs rest where "t \<in> sym c" "tx1 = xs @ rest" "set xs \<subseteq> sym c" "here (ps, e) rest" by blast
      then show ?L by (intro exI[of _ "t # xs"] exI[of _ rest]) simp
    qed
  qed
  then show ?thesis using Cons by (simp add: here_Many)
qed (simp add: here_Many)

lemma match_correct:
  "matchhere re tx = here (pieces re) tx"
  "matchstar c re tx = here (Many c # fst (pieces re), snd (pieces re)) tx"
proof (induction re tx and c re tx rule: matchhere_matchstar.induct)
  case (1 re tx)
  show ?case
  proof (cases re rule: pieces.cases)
    case 1
    then show ?thesis by (simp add: matchhere.simps[of "[]"] here_Nil)
  next
    case (2 r)
    then show ?thesis using matchhere.simps[of "[r]" tx] matchhere.simps[of "[]"]
      by (cases tx) (simp_all add: here_Single here_Nil sym_def eq_commute)
  next
    case (3 r d re')
    note IH = "1.IH"[OF 3] and step = matchhere.simps[of "r # d # re'" tx]
    show ?thesis
    proof (cases "d = STAR")
      case True
      then show ?thesis using IH(1) 3 step by (simp add: split_beta Let_def)
    next
      case False
      then have "pieces re = (Single r # fst (pieces (d # re')), snd (pieces (d # re')))" using 3 by (simp add: split_beta Let_def)
      then show ?thesis using False IH(2) 3 step by (cases tx) (auto simp: here_Single sym_def)
    qed
  qed
next
  case (2 c re tx)
  have "matchstar c re tx = (here (pieces re) tx \<or> (case tx of [] \<Rightarrow> False | t # tx1 \<Rightarrow> (t = c \<or> c = DOT) \<and> matchstar c re tx1))"
    using matchstar.simps[of c re tx] 2(1) by simp
  also have "\<dots> = here (Many c # fst (pieces re), snd (pieces re)) tx"
    unfolding here_Many_step[of c "fst (pieces re)" _ tx] prod.collapse using 2(2) by (cases tx) (auto simp: sym_def)
  finally show ?case .
qed

section \<open>The program\<close>

text \<open>
  \<open>line_end xs\<close> is what \<open>strchr(p, '\\n')\<close> finds in the bytes \<open>xs\<close> of the buffer from \<open>p\<close> on, where the byte after them is 0: the number of bytes
  before the newline, which a zero byte would hide.
\<close>

definition NL :: byte where "NL = 10"

definition line_end :: "byte list \<Rightarrow> nat option" where
  "line_end xs = (let n = length (takeWhile (\<lambda>c. c \<noteq> 0 \<and> c \<noteq> NL) xs) in if n < length xs \<and> xs ! n = NL then Some n else None)"

lemma line_end_less: "line_end xs = Some n \<Longrightarrow> n < length xs"
  by (auto simp: line_end_def Let_def split: if_splits)

text \<open>The inner loop: it gives the bytes from the final \<open>p\<close> on.\<close>

function grep_lines :: "'w sys \<Rightarrow> byte list \<Rightarrow> byte list \<Rightarrow> ('w, byte list) user" where
  "grep_lines sys pattern xs =
     (case line_end xs of
        None \<Rightarrow> uret xs
      | Some n \<Rightarrow>
          if match pattern (take n xs)
          then uthn (call (sys_write sys 1 (take (Suc n) xs))) (grep_lines sys pattern (drop (Suc n) xs))
          else grep_lines sys pattern (drop (Suc n) xs))"
  by pat_completeness auto
termination
  by (relation "measure (\<lambda>(_, _, xs). length xs)") (auto dest: line_end_less)

declare grep_lines.simps [simp del]

text \<open>The buffer has 1024 bytes; \<open>xs\<close> are the bytes in it that are not searched yet.\<close>

definition grep_one :: "'w sys \<Rightarrow> byte list \<Rightarrow> int \<Rightarrow> byte list \<Rightarrow> ('w, byte list + unit) user" where
  "grep_one sys pattern fd xs =
     ubnd (call (sys_read sys fd (1024 - length xs - 1))) (\<lambda>r.
     case r of None \<Rightarrow> uret (Inr ()) | Some bs \<Rightarrow>
     if bs = [] then uret (Inr ()) else
     ubnd (grep_lines sys pattern (xs @ bs)) (\<lambda>xs. uret (Inl xs)))"

definition grep :: "'w sys \<Rightarrow> byte list \<Rightarrow> int \<Rightarrow> ('w, unit) user" where
  "grep sys pattern fd = uloop (grep_one sys pattern fd) []"

section \<open>Lines\<close>

text \<open>The lines of a text that end with a newline, and what is left after the last of them.\<close>

fun lines :: "byte list \<Rightarrow> byte list list \<times> byte list" where
  "lines [] = ([], [])"
| "lines (c # cs) = (case lines cs of (ls, r) \<Rightarrow>
     if c = NL then ([] # ls, r) else (case ls of [] \<Rightarrow> ([], c # r) | l # ls \<Rightarrow> ((c # l) # ls, r)))"

lemma lines_none: "NL \<notin> set xs \<Longrightarrow> lines xs = ([], xs)"
  by (induction xs) auto

lemma lines_first: "NL \<notin> set l \<Longrightarrow> lines (l @ NL # xs) = (l # fst (lines xs), snd (lines xs))"
  by (induction l) (auto split: prod.split)

lemma lines_rest: "NL \<notin> set (snd (lines xs))"
  by (induction xs) (auto split: prod.split list.split)

lemma lines_append: "lines (xs @ ys) = (fst (lines xs) @ fst (lines (snd (lines xs) @ ys)), snd (lines (snd (lines xs) @ ys)))"
proof (induction xs)
  case (Cons c xs)
  then show ?case by (auto split: prod.split list.split)
qed simp

lemma line_end_first: "0 \<notin> set l \<Longrightarrow> NL \<notin> set l \<Longrightarrow> line_end (l @ NL # xs) = Some (length l)"
proof -
  assume h: "0 \<notin> set l" "NL \<notin> set l"
  have "takeWhile (\<lambda>c. c \<noteq> 0 \<and> c \<noteq> NL) (l @ NL # xs) = l" using h by (subst takeWhile_append2) auto
  then show ?thesis by (simp add: line_end_def)
qed

lemma line_end_none: "NL \<notin> set xs \<Longrightarrow> line_end xs = None"
proof -
  assume "NL \<notin> set xs"
  then have "n < length xs \<Longrightarrow> xs ! n \<noteq> NL" for n using nth_mem[of n xs] by metis
  then show ?thesis by (simp add: line_end_def Let_def)
qed

definition selected :: "byte list \<Rightarrow> byte list list \<Rightarrow> byte list" where
  "selected pattern ls = concat (map (\<lambda>l. l @ [NL]) (filter (match pattern) ls))"

lemma grep_lines_run:
  assumes sys: "stream_sys sys fd left out" and "0 \<notin> set xs"
  shows "\<exists>v. grep_lines sys pattern xs w = Some (Done (snd (lines xs)), v) \<and> out v = out w @ selected pattern (fst (lines xs)) \<and> left v = left w"
  using assms(2)
proof (induction "length xs" arbitrary: xs w rule: less_induct)
  case less
  show ?case
  proof (cases "NL \<in> set xs")
    case False
    then show ?thesis by (simp add: grep_lines.simps[of sys pattern xs] line_end_none lines_none umon selected_def)
  next
    case True
    then obtain l ys where xs: "xs = l @ NL # ys" "NL \<notin> set l" by (metis split_list_first)
    have e: "line_end xs = Some (length l)" using xs less.prems by (simp add: line_end_first)
    have L: "fst (lines xs) = l # fst (lines ys)" "snd (lines xs) = snd (lines ys)" using xs by (simp_all add: lines_first)
    have IH: "\<exists>v. grep_lines sys pattern ys w = Some (Done (snd (lines ys)), v) \<and> out v = out w @ selected pattern (fst (lines ys)) \<and> left v = left w" for w
      using less.hyps[of ys] less.prems xs(1) by simp
    obtain u where u: "sys_write sys 1 (l @ [NL]) w = (int (length (l @ [NL])), u)" "out u = out w @ l @ [NL]" "left u = left w"
      using stream_write[OF sys, of "l @ [NL]" w] by metis
    show ?thesis
      using grep_lines.simps[of sys pattern xs] e IH[of w] IH[of u] u L by (auto simp: xs(1) umon selected_def)
  qed
qed

text \<open>A text whose lines fit in the buffer: they have at most 1022 bytes, and none of them is 0.\<close>

definition short_lines :: "byte list \<Rightarrow> bool" where
  "short_lines xs = (0 \<notin> set xs \<and> (\<forall>l\<in>set (fst (lines xs)). length l \<le> 1022) \<and> length (snd (lines xs)) \<le> 1022)"

lemma short_prefix:
  assumes "short_lines (xs @ ys)"
  shows "short_lines (snd (lines xs) @ ys)" "length (snd (lines xs)) \<le> 1022"
proof -
  let ?r = "snd (lines xs)"
  have "set ?r \<subseteq> set xs" by (induction xs) (auto split: prod.split list.split)
  then show s: "short_lines (?r @ ys)" using assms lines_append[of xs ys] by (auto simp: short_lines_def)
  show "length ?r \<le> 1022"
  proof (cases "NL \<in> set ys")
    case False
    then have "lines (?r @ ys) = ([], ?r @ ys)" using lines_rest[of xs] by (intro lines_none) simp
    then show ?thesis using s by (simp add: short_lines_def)
  next
    case True
    then obtain l zs where "ys = l @ NL # zs" "NL \<notin> set l" by (metis split_list_first)
    then have "fst (lines (?r @ ys)) = (?r @ l) # fst (lines zs)" using lines_first[of "?r @ l" zs] lines_rest[of xs] by simp
    then show ?thesis using s by (simp add: short_lines_def)
  qed
qed

lemma grep_loop:
  assumes sys: "stream_sys sys fd left out" and "short_lines (xs @ left w)" "NL \<notin> set xs"
  shows "\<exists>v. uloop (grep_one sys pattern fd) xs w = Some (Done (), v) \<and> out v = out w @ selected pattern (fst (lines (xs @ left w))) \<and> left v = []"
  using assms(2,3)
proof (induction "length (left w)" arbitrary: xs w rule: less_induct)
  case less
  have len: "length xs \<le> 1022" using short_prefix(2)[OF less.prems(1)] less.prems(2) by (simp add: lines_none)
  obtain bs u where u: "sys_read sys fd (1024 - length xs - 1) w = (Some bs, u)" "left w = bs @ left u"
      "length bs \<le> 1024 - length xs - 1" "0 < 1024 - length xs - 1 \<Longrightarrow> left w \<noteq> [] \<Longrightarrow> bs \<noteq> []" "out u = out w"
    by (rule stream_read[OF sys, of "1024 - length xs - 1" w]) (rule that)
  show ?case
  proof (cases "bs = []")
    case True
    then have "left w = []" using u(4) len by fastforce
    moreover have "grep_one sys pattern fd xs w = Some (Done (Inr ()), u)" using u(1) True by (simp add: grep_one_def umon)
    ultimately show ?thesis using uloop_exit[of "grep_one sys pattern fd"] u(2,5) less.prems(2) by (auto simp: lines_none selected_def)
  next
    case False
    have sh: "short_lines ((xs @ bs) @ left u)" using less.prems(1) u(2) by simp
    have "0 \<notin> set (xs @ bs)" using sh by (auto simp: short_lines_def)
    then obtain v where v: "grep_lines sys pattern (xs @ bs) u = Some (Done (snd (lines (xs @ bs))), v)"
        "out v = out u @ selected pattern (fst (lines (xs @ bs)))" "left v = left u"
      using grep_lines_run[OF sys] by blast
    let ?r = "snd (lines (xs @ bs))"
    have one: "grep_one sys pattern fd xs w = Some (Done (Inl ?r), v)" using u(1) False v(1) by (simp add: grep_one_def umon)
    have "length (left v) < length (left w)" using u(2) v(3) False by simp
    moreover have "short_lines (?r @ left v)" using short_prefix(1)[OF sh] v(3) by simp
    ultimately obtain z where z: "uloop (grep_one sys pattern fd) ?r v = Some (Done (), z)"
        "out z = out v @ selected pattern (fst (lines (?r @ left v)))" "left z = []"
      using less.hyps[of v ?r] lines_rest[of "xs @ bs"] by blast
    have "lines (xs @ left w) = (fst (lines (xs @ bs)) @ fst (lines (?r @ left u)), snd (lines (?r @ left u)))"
      using lines_append[of "xs @ bs" "left u"] u(2) by simp
    then show ?thesis using uloop_next[of "grep_one sys pattern fd", OF one] z v(2,3) u(5) by (simp add: selected_def)
  qed
qed

section \<open>Theorems\<close>

lemma match_from_iff: "match_from re tx = (\<exists>x y. tx = x @ y \<and> matchhere re y)"
proof (induction tx)
  case Nil
  then show ?case by (simp add: match_from.simps)
next
  case (Cons t tx)
  have "(\<exists>x y. t # tx = x @ y \<and> matchhere re y) \<longleftrightarrow> matchhere re (t # tx) \<or> (\<exists>x y. tx = x @ y \<and> matchhere re y)"
    by (auto simp: Cons_eq_append_conv)
  then show ?case using Cons by (simp add: match_from.simps[of re "t # tx"])
qed

text \<open>
  C34: the recursive matcher of \<open>grep\<close> decides the language of its pattern. A pattern stands for a sequence of characters, where a dot
  stands for any character and a star repeats the character before it; a text matches exactly if some part of it is in that language, where the part
  has to start the text if the pattern begins with a caret, and has to end it if the pattern ends with a dollar sign.
\<close>

theorem match_decides_language:
  "match re tx = (let start = (re \<noteq> [] \<and> hd re = CARET); (ps, end) = pieces (if start then tl re else re) in
     \<exists>x u y. tx = x @ u @ y \<and> u \<in> lang ps \<and> (start \<longrightarrow> x = []) \<and> (end \<longrightarrow> y = []))"
proof (cases "re \<noteq> [] \<and> hd re = CARET")
  case True
  then show ?thesis by (simp add: match_def match_correct(1) here_def split_beta Let_def)
next
  case False
  then show ?thesis by (auto simp: match_def match_from_iff match_correct(1) here_def split_beta Let_def)
qed

theorem match_decides_language_witness:
  "\<exists>x u y. ustr ''a--b'' = x @ u @ y \<and> u \<in> lang (fst (pieces (ustr ''a.*b$''))) \<and> x = [] \<and> y = []"
proof -
  have "match (ustr ''^a.*b$'') (ustr ''a--b'')" by code_simp
  moreover have "hd (ustr ''^a.*b$'') = CARET" "tl (ustr ''^a.*b$'') = ustr ''a.*b$''" "ustr ''^a.*b$'' \<noteq> []" "snd (pieces (ustr ''a.*b$''))" by code_simp+
  ultimately show ?thesis using match_decides_language[of "ustr ''^a.*b$''" "ustr ''a--b''"] by (simp add: Let_def split_beta)
qed

text \<open>
  C35: \<open>grep\<close> prints exactly the matching lines of its input, in order, however the reads cut the input: if the input has no zero byte and no line
  longer than 1022 bytes, the program returns having read everything and written each line that ends with a newline and matches. Bytes
  after the last newline are not searched.
\<close>

theorem grep_prints_matching_lines:
  assumes "stream_sys sys fd left out" "short_lines (left w)"
  shows "\<exists>v. grep sys pattern fd w = Some (Done (), v) \<and> left v = [] \<and>
    out v = out w @ concat (map (\<lambda>l. l @ [NL]) (filter (match pattern) (fst (lines (left w)))))"
  using grep_loop[OF assms(1), of "[]" w pattern] assms(2) unfolding grep_def selected_def by auto

theorem grep_prints_matching_lines_witness:
  "\<exists>v. grep demo_sys [97] 0 ([97, 10, 98, 10, 99, 97, 10], []) = Some (Done (), v) \<and> snd v = [97, 10, 99, 97, 10]"
proof -
  have "short_lines [97, 10, 98, 10, 99, 97, 10]" by (simp add: short_lines_def NL_def)
  moreover have "match [97] [97]" "\<not> match [97] [98]" "match [97] [99, 97]"
    by (simp_all add: match_def CARET_def match_from.simps matchhere.simps STAR_def DOLLAR_def DOT_def)
  ultimately show ?thesis
    using grep_prints_matching_lines[OF demo_stream, of "([97, 10, 98, 10, 99, 97, 10], [])" "[97]" 0] by (auto simp: NL_def)
qed

end
