(* ===== verification/Ulib.thy ===== *)
theory Ulib
  imports Userland Cstring
begin

text \<open>
  The user library: \<^verbatim>\<open>ulib.c\<close> and \<^verbatim>\<open>printf.c\<close> under \<^verbatim>\<open>src/user\<close>. Memory is indexed by addresses, as in theory Cstring; a string that is
  only read is the list of its bytes before the terminator. An \<open>int\<close> that is computed with is a 32-bit word.
\<close>

section \<open>ulib.c\<close>

text \<open>\<open>ustrcpy m s t\<close> copies the string \<open>t\<close> and its terminator to the address \<open>s\<close>.\<close>

fun ustrcpy :: "(u64 \<Rightarrow> byte) \<Rightarrow> u64 \<Rightarrow> byte list \<Rightarrow> (u64 \<Rightarrow> byte)" where
  "ustrcpy m s [] = m(s := 0)"
| "ustrcpy m s (c # t) = ustrcpy (m(s := c)) (s + 1) t"

fun ustrcmp :: "byte list \<Rightarrow> byte list \<Rightarrow> int" where
  "ustrcmp [] [] = 0"
| "ustrcmp [] (d # q) = 0 - uint d"
| "ustrcmp (c # p) [] = uint c - 0"
| "ustrcmp (c # p) (d # q) = (if c = d then ustrcmp p q else uint c - uint d)"

definition ustrlen :: "byte list \<Rightarrow> u32" where
  "ustrlen s = of_nat (length s)"

definition umemset :: "(u64 \<Rightarrow> byte) \<Rightarrow> u64 \<Rightarrow> u32 \<Rightarrow> u32 \<Rightarrow> (u64 \<Rightarrow> byte)" where
  "umemset m dst c n = fold (\<lambda>i m. m(dst + of_nat i := ucast c)) [0..<unat n] m"

text \<open>The index of the first \<open>c\<close>; a search for the terminator finds nothing.\<close>

fun ustrchr :: "byte list \<Rightarrow> byte \<Rightarrow> nat option" where
  "ustrchr [] c = None"
| "ustrchr (x # s) c = (if x = c then Some 0 else map_option Suc (ustrchr s c))"

lemma ustrchr_none: "ustrchr s c = None \<longleftrightarrow> c \<notin> set s"
  by (induction s) auto

text \<open>\<open>ugets\<close> stores at most \<open>max - 1\<close> bytes; the result is the bytes stored before the terminator.\<close>

fun ugets_loop :: "'w sys \<Rightarrow> nat \<Rightarrow> byte list \<Rightarrow> ('w, byte list) user" where
  "ugets_loop sys 0 buf = uret buf"
| "ugets_loop sys (Suc n) buf =
     ubnd (call (sys_read sys 0 1)) (\<lambda>r.
     case r of None \<Rightarrow> uret buf | Some [] \<Rightarrow> uret buf
     | Some (c # _) \<Rightarrow> if c = 10 \<or> c = 13 then uret (buf @ [c]) else ugets_loop sys n (buf @ [c]))"

definition ugets :: "'w sys \<Rightarrow> int \<Rightarrow> ('w, byte list) user" where
  "ugets sys mx = ugets_loop sys (nat (mx - 1)) []"

text \<open>\<open>ustat\<close> gives the result and what the structure \<open>st\<close> holds afterwards.\<close>

definition ustat :: "'w sys \<Rightarrow> byte list \<Rightarrow> ustat_t \<Rightarrow> ('w, int \<times> ustat_t) user" where
  "ustat sys n st =
     ubnd (call (sys_open sys n O_RDONLY)) (\<lambda>fd.
     if fd < 0 then uret (- 1, st) else
     ubnd (call (sys_fstat sys fd)) (\<lambda>r.
     uthn (call (sys_close sys fd)) (uret r)))"

fun atoi_loop :: "u32 \<Rightarrow> byte list \<Rightarrow> u32" where
  "atoi_loop n [] = n"
| "atoi_loop n (c # s) = (if 48 \<le> c \<and> c \<le> 57 then atoi_loop (n * 10 + ucast c - 48) s else n)"

definition atoi :: "byte list \<Rightarrow> u32" where
  "atoi s = atoi_loop 0 s"

definition umemmove :: "(u64 \<Rightarrow> byte) \<Rightarrow> u64 \<Rightarrow> u64 \<Rightarrow> int \<Rightarrow> (u64 \<Rightarrow> byte)" where
  "umemmove m dst src n =
     (if dst < src
      then copy_loop m (\<lambda>i. dst + of_nat i) (\<lambda>i. src + of_nat i) [0..<nat n]
      else copy_loop m (\<lambda>i. dst + of_nat i) (\<lambda>i. src + of_nat i) (rev [0..<nat n]))"

definition umemcpy :: "(u64 \<Rightarrow> byte) \<Rightarrow> u64 \<Rightarrow> u64 \<Rightarrow> u32 \<Rightarrow> (u64 \<Rightarrow> byte)" where
  "umemcpy m dst src n = umemmove m dst src (sint n)"

fun umemcmp :: "(nat \<Rightarrow> byte) \<Rightarrow> (nat \<Rightarrow> byte) \<Rightarrow> nat \<Rightarrow> int" where
  "umemcmp p1 p2 0 = 0"
| "umemcmp p1 p2 (Suc n) = (if p1 0 \<noteq> p2 0 then uint (p1 0) - uint (p2 0) else umemcmp (\<lambda>i. p1 (Suc i)) (\<lambda>i. p2 (Suc i)) n)"

section \<open>printf.c\<close>

definition uputc :: "'w sys \<Rightarrow> int \<Rightarrow> byte \<Rightarrow> ('w, unit) user" where
  "uputc sys fd c = uthn (call (sys_write sys fd [c])) (uret ())"

definition udigits :: "nat \<Rightarrow> byte" where
  "udigits n = (if n < 10 then of_nat (48 + n) else of_nat (55 + n))"

text \<open>The digits that the loop of \<open>printint\<close> stores, the last one first; the base is 10 or 16.\<close>

function udigit_list :: "nat \<Rightarrow> nat \<Rightarrow> byte list" where
  "udigit_list base x = udigits (x mod base) # (if x div base \<noteq> 0 \<and> 1 < base then udigit_list base (x div base) else [])"
  by pat_completeness auto
termination
  by (relation "measure snd") (auto intro: div_less_dividend simp: div_greater_zero_iff)

declare udigit_list.simps [simp del]

definition uprintint_buf :: "u32 \<Rightarrow> nat \<Rightarrow> bool \<Rightarrow> byte list" where
  "uprintint_buf xx base sg =
     (let neg = (sg \<and> sint xx < 0); x = (if neg then - xx else xx) in
      udigit_list base (unat x) @ (if neg then [45] else []))"

definition uprintint :: "'w sys \<Rightarrow> int \<Rightarrow> u32 \<Rightarrow> nat \<Rightarrow> bool \<Rightarrow> ('w, unit) user" where
  "uprintint sys fd xx base sg = ueach (rev (uprintint_buf xx base sg)) (uputc sys fd)"

definition uprintptr :: "'w sys \<Rightarrow> int \<Rightarrow> u64 \<Rightarrow> ('w, unit) user" where
  "uprintptr sys fd x =
     uthn (uputc sys fd 48) (
     uthn (uputc sys fd 120)
     (ueach [0..<16] (\<lambda>i. uputc sys fd (udigits (unat (drop_bit 60 (push_bit (4 * i) x)))))))"

text \<open>
  The arguments of \<open>printf\<close>. An argument of a kind the format does not call for, or a missing one, is undefined behaviour in C and
  stops the model.
\<close>

datatype uarg = AInt u32 | ALong u64 | AStr "byte list option"

fun vprintf :: "'w sys \<Rightarrow> int \<Rightarrow> bool \<Rightarrow> byte list \<Rightarrow> uarg list \<Rightarrow> ('w, unit) user" where
  "vprintf sys fd state [] args = uret ()"
| "vprintf sys fd False (c # fmt) args =
     (if c = 37 then vprintf sys fd True fmt args else uthn (uputc sys fd c) (vprintf sys fd False fmt args))"
| "vprintf sys fd True (c # fmt) args =
     (if c = 100 then
        (case args of AInt x # args \<Rightarrow> uthn (uprintint sys fd x 10 True) (vprintf sys fd False fmt args) | _ \<Rightarrow> (\<lambda>w. None))
      else if c = 108 then
        (case args of ALong x # args \<Rightarrow> uthn (uprintint sys fd (ucast x) 10 False) (vprintf sys fd False fmt args) | _ \<Rightarrow> (\<lambda>w. None))
      else if c = 120 then
        (case args of AInt x # args \<Rightarrow> uthn (uprintint sys fd x 16 False) (vprintf sys fd False fmt args) | _ \<Rightarrow> (\<lambda>w. None))
      else if c = 112 then
        (case args of ALong x # args \<Rightarrow> uthn (uprintptr sys fd x) (vprintf sys fd False fmt args) | _ \<Rightarrow> (\<lambda>w. None))
      else if c = 115 then
        (case args of AStr s # args \<Rightarrow>
           uthn (ueach (case s of None \<Rightarrow> ustr ''(null)'' | Some s \<Rightarrow> s) (uputc sys fd)) (vprintf sys fd False fmt args)
         | _ \<Rightarrow> (\<lambda>w. None))
      else if c = 99 then
        (case args of AInt x # args \<Rightarrow> uthn (uputc sys fd (ucast x)) (vprintf sys fd False fmt args) | _ \<Rightarrow> (\<lambda>w. None))
      else if c = 37 then uthn (uputc sys fd c) (vprintf sys fd False fmt args)
      else uthn (uputc sys fd 37) (uthn (uputc sys fd c) (vprintf sys fd False fmt args)))"

definition ufprintf :: "'w sys \<Rightarrow> int \<Rightarrow> byte list \<Rightarrow> uarg list \<Rightarrow> ('w, unit) user" where
  "ufprintf sys fd fmt args = vprintf sys fd False fmt args"

definition uprintf :: "'w sys \<Rightarrow> byte list \<Rightarrow> uarg list \<Rightarrow> ('w, unit) user" where
  "uprintf sys fmt args = vprintf sys 1 False fmt args"

section \<open>Decimal numbers\<close>

lemma udigit_cases: "x < base \<Longrightarrow> udigit_list base x = [udigits x]"
  by (subst udigit_list.simps) simp

lemma udigit_step: "1 < base \<Longrightarrow> base \<le> x \<Longrightarrow> udigit_list base x = udigits (x mod base) # udigit_list base (x div base)"
  by (subst udigit_list.simps) (auto simp: div_eq_0_iff)

lemma digit_byte: "d < 10 \<Longrightarrow> 48 \<le> udigits d \<and> udigits d \<le> 57 \<and> (ucast (udigits d) :: u32) - 48 = of_nat d"
proof -
  assume "d < 10"
  then have "d \<in> {0, 1, 2, 3, 4, 5, 6, 7, 8, 9}" by auto
  then show ?thesis by (auto simp: udigits_def)
qed

lemma atoi_digit: "d < 10 \<Longrightarrow> atoi_loop m (udigits d # s) = atoi_loop (m * 10 + of_nat d) s"
proof -
  assume "d < 10"
  note D = digit_byte[OF this]
  have "m * 10 + ucast (udigits d) - 48 = m * 10 + (of_nat d :: u32)" using D by (metis add_diff_eq)
  then show ?thesis using D by (simp only: atoi_loop.simps if_True simp_thms)
qed

lemma atoi_digits: "atoi_loop n (rev (udigit_list 10 x) @ s) = atoi_loop (n * 10 ^ length (udigit_list 10 x) + of_nat x) s"
proof (induction x arbitrary: s rule: less_induct)
  case (less x)
  show ?case
  proof (cases "x < 10")
    case False
    have "of_nat (x div 10) * 10 + of_nat (x mod 10) = (of_nat x :: u32)"
      by (metis div_mult_mod_eq of_nat_add of_nat_mult of_nat_numeral)
    then have e: "(m + of_nat (x div 10)) * 10 + of_nat (x mod 10) = m * 10 + (of_nat x :: u32)" for m
      by (simp add: distrib_right add.assoc)
    have "atoi_loop n (rev (udigit_list 10 x) @ s) =
      atoi_loop ((n * 10 ^ length (udigit_list 10 (x div 10)) + of_nat (x div 10)) * 10 + of_nat (x mod 10)) s"
      using False less.IH[of "x div 10" "udigits (x mod 10) # s"] by (simp add: udigit_step atoi_digit del: atoi_loop.simps)
    also have "\<dots> = atoi_loop (n * 10 ^ length (udigit_list 10 x) + of_nat x) s"
      unfolding e using False by (simp add: udigit_step ac_simps del: atoi_loop.simps)
    finally show ?thesis .
  qed (simp add: udigit_cases atoi_digit del: atoi_loop.simps)
qed

lemma udigit_length: "x < 10 ^ Suc n \<Longrightarrow> length (udigit_list 10 x) \<le> Suc n"
proof (induction n arbitrary: x)
  case (Suc n)
  show ?case
  proof (cases "x < 10")
    case False
    moreover have "x div 10 < 10 ^ Suc n" using Suc.prems by (simp add: div_less_iff_less_mult)
    ultimately show ?thesis using Suc.IH[of "x div 10"] by (simp add: udigit_step)
  qed (simp add: udigit_cases)
qed (simp add: udigit_cases)

section \<open>Theorems\<close>

text \<open>
  C38: reading back what \<open>printf\<close> writes for a decimal number gives the number. The characters of \<open>%d\<close> are a minus sign exactly for a negative
  number, followed by digits that \<open>atoi\<close> turns into its magnitude, also for the smallest negative number; without sign \<open>atoi\<close>
  restores every 32-bit word. The digits fit in the 16 bytes of the buffer.
\<close>

theorem printint_atoi_roundtrip:
  "(let cs = rev (uprintint_buf x 10 True) in if sint x < 0 then hd cs = 45 \<and> atoi (tl cs) = - x else atoi cs = x) \<and>
   atoi (rev (uprintint_buf x 10 False)) = x \<and> length (uprintint_buf x 10 sg) \<le> 11"
proof (intro conjI)
  have a: "atoi (rev (udigit_list 10 (unat y))) = y" for y :: u32
    using atoi_digits[of 0 "unat y" "[]"] by (simp add: atoi_def)
  show "let cs = rev (uprintint_buf x 10 True) in if sint x < 0 then hd cs = 45 \<and> atoi (tl cs) = - x else atoi cs = x"
    by (simp add: uprintint_buf_def Let_def a)
  show "atoi (rev (uprintint_buf x 10 False)) = x" by (simp add: uprintint_buf_def a)
  have "unat y < 10 ^ Suc 9" for y :: u32 using unsigned_less[of y, where ?'a = nat] by simp
  then have "length (udigit_list 10 (unat y)) \<le> Suc 9" for y :: u32 by (rule udigit_length)
  then have "length (udigit_list 10 (unat y)) \<le> 10" for y :: u32 by (simp add: eval_nat_numeral)
  note L = this[of x] this[of "- x"]
  show "length (uprintint_buf x 10 sg) \<le> 11" using L by (simp add: uprintint_buf_def Let_def)
qed

end
