(* ===== verification/Utools.thy ===== *)
theory Utools
  imports Grep Ulib
begin

text \<open>
  The small user programs: \<^verbatim>\<open>cat.c\<close>, \<^verbatim>\<open>wc.c\<close>, \<^verbatim>\<open>echo.c\<close>, \<^verbatim>\<open>kill.c\<close>, \<^verbatim>\<open>ln.c\<close>, \<^verbatim>\<open>mkdir.c\<close>, \<^verbatim>\<open>rm.c\<close>, \<^verbatim>\<open>ls.c\<close>, \<^verbatim>\<open>zombie.c\<close>, \<^verbatim>\<open>init.c\<close> and
  the \<open>main\<close> of \<^verbatim>\<open>grep.c\<close>. The arguments of a program are the list \<open>argv\<close>, whose length is \<open>argc\<close>.
\<close>

section \<open>cat.c\<close>

definition cat_one :: "'w sys \<Rightarrow> int \<Rightarrow> ('w, unit + unit) user" where
  "cat_one sys fd =
     ubnd (call (sys_read sys fd 512)) (\<lambda>r.
     case r of
       None \<Rightarrow> uthn (ufprintf sys 2 (ustr ''cat: read error\<newline>'') []) (uexit 1)
     | Some bs \<Rightarrow>
         if bs = [] then uret (Inr ()) else
         ubnd (call (sys_write sys 1 bs)) (\<lambda>n.
         if n \<noteq> int (length bs) then uthn (ufprintf sys 2 (ustr ''cat: write error\<newline>'') []) (uexit 1)
         else uret (Inl ())))"

definition cat :: "'w sys \<Rightarrow> int \<Rightarrow> ('w, unit) user" where
  "cat sys fd = uloop (\<lambda>_. cat_one sys fd) ()"

definition cat_main :: "'w sys \<Rightarrow> byte list list \<Rightarrow> ('w, unit) user" where
  "cat_main sys argv =
     (if length argv \<le> 1 then uthn (cat sys 0) (uexit 0) else
      uthn (ueach (tl argv) (\<lambda>arg.
        ubnd (call (sys_open sys arg 0)) (\<lambda>fd.
        if fd < 0 then uthn (ufprintf sys 2 (ustr ''cat: cannot open %s\<newline>'') [AStr (Some arg)]) (uexit 1) else
        uthn (cat sys fd) (
        uthn (call (sys_close sys fd)) (uret ())))))
      (uexit 0))"

section \<open>wc.c\<close>

text \<open>The counters \<open>l\<close>, \<open>w\<close>, \<open>c\<close> and the flag \<open>inword\<close>.\<close>

definition wc_space :: "byte list" where
  "wc_space = [32, 13, 9, 10, 11]"

fun wc_bytes :: "byte list \<Rightarrow> u32 \<times> u32 \<times> u32 \<times> bool \<Rightarrow> u32 \<times> u32 \<times> u32 \<times> bool" where
  "wc_bytes [] st = st"
| "wc_bytes (b # bs) (l, w, c, inword) =
     (let c = c + 1; l = (if b = NL then l + 1 else l) in
      if ustrchr wc_space b \<noteq> None then wc_bytes bs (l, w, c, False)
      else if \<not> inword then wc_bytes bs (l, w + 1, c, True)
      else wc_bytes bs (l, w, c, inword))"

definition wc_one :: "'w sys \<Rightarrow> int \<Rightarrow> u32 \<times> u32 \<times> u32 \<times> bool \<Rightarrow> ('w, (u32 \<times> u32 \<times> u32 \<times> bool) + (u32 \<times> u32 \<times> u32 \<times> bool)) user" where
  "wc_one sys fd st =
     ubnd (call (sys_read sys fd 512)) (\<lambda>r.
     case r of
       None \<Rightarrow> uthn (uprintf sys (ustr ''wc: read error\<newline>'') []) (uexit 1)
     | Some bs \<Rightarrow> if bs = [] then uret (Inr st) else uret (Inl (wc_bytes bs st)))"

definition wc :: "'w sys \<Rightarrow> int \<Rightarrow> byte list \<Rightarrow> ('w, unit) user" where
  "wc sys fd name =
     ubnd (uloop (wc_one sys fd) (0, 0, 0, False)) (\<lambda>(l, w, c, _).
     uprintf sys (ustr ''%d %d %d %s\<newline>'') [AInt l, AInt w, AInt c, AStr (Some name)])"

definition wc_main :: "'w sys \<Rightarrow> byte list list \<Rightarrow> ('w, unit) user" where
  "wc_main sys argv =
     (if length argv \<le> 1 then uthn (wc sys 0 []) (uexit 0) else
      uthn (ueach (tl argv) (\<lambda>arg.
        ubnd (call (sys_open sys arg 0)) (\<lambda>fd.
        if fd < 0 then uthn (uprintf sys (ustr ''wc: cannot open %s\<newline>'') [AStr (Some arg)]) (uexit 1) else
        uthn (wc sys fd arg) (
        uthn (call (sys_close sys fd)) (uret ())))))
      (uexit 0))"

section \<open>grep.c\<close>

definition grep_main :: "'w sys \<Rightarrow> byte list list \<Rightarrow> ('w, unit) user" where
  "grep_main sys argv =
     (if length argv \<le> 1 then uthn (ufprintf sys 2 (ustr ''usage: grep pattern [file ...]\<newline>'') []) (uexit 1) else
      let pattern = argv ! 1 in
      if length argv \<le> 2 then uthn (grep sys pattern 0) (uexit 0) else
      uthn (ueach (drop 2 argv) (\<lambda>arg.
        ubnd (call (sys_open sys arg 0)) (\<lambda>fd.
        if fd < 0 then uthn (uprintf sys (ustr ''grep: cannot open %s\<newline>'') [AStr (Some arg)]) (uexit 1) else
        uthn (grep sys pattern fd) (
        uthn (call (sys_close sys fd)) (uret ())))))
      (uexit 0))"

section \<open>echo.c, kill.c, ln.c, mkdir.c, rm.c, zombie.c\<close>

fun echo_args :: "'w sys \<Rightarrow> byte list list \<Rightarrow> ('w, unit) user" where
  "echo_args sys [] = uret ()"
| "echo_args sys (arg # args) =
     uthn (call (sys_write sys 1 arg)) (
     uthn (if args \<noteq> [] then call (sys_write sys 1 [32]) else call (sys_write sys 1 [10]))
     (echo_args sys args))"

definition echo_main :: "'w sys \<Rightarrow> byte list list \<Rightarrow> ('w, unit) user" where
  "echo_main sys argv = uthn (echo_args sys (tl argv)) (uexit 0)"

definition kill_main :: "'w sys \<Rightarrow> byte list list \<Rightarrow> ('w, unit) user" where
  "kill_main sys argv =
     (if length argv < 2 then uthn (ufprintf sys 2 (ustr ''usage: kill pid...\<newline>'') []) (uexit 1) else
      uthn (ueach (tl argv) (\<lambda>arg. uthn (call (sys_kill sys (sint (atoi arg)))) (uret ())))
      (uexit 0))"

definition ln_main :: "'w sys \<Rightarrow> byte list list \<Rightarrow> ('w, unit) user" where
  "ln_main sys argv =
     (if length argv \<noteq> 3 then uthn (ufprintf sys 2 (ustr ''Usage: ln old new\<newline>'') []) (uexit 1) else
      ubnd (call (sys_link sys (argv ! 1) (argv ! 2))) (\<lambda>r.
      uthn (if r < 0 then ufprintf sys 2 (ustr ''link %s %s: failed\<newline>'') [AStr (Some (argv ! 1)), AStr (Some (argv ! 2))] else uret ())
      (uexit 0)))"

fun mkdir_args :: "'w sys \<Rightarrow> byte list list \<Rightarrow> ('w, unit) user" where
  "mkdir_args sys [] = uret ()"
| "mkdir_args sys (arg # args) =
     ubnd (call (sys_mkdir sys arg)) (\<lambda>r.
     if r < 0 then ufprintf sys 2 (ustr ''mkdir: %s failed to create\<newline>'') [AStr (Some arg)] else mkdir_args sys args)"

definition mkdir_main :: "'w sys \<Rightarrow> byte list list \<Rightarrow> ('w, unit) user" where
  "mkdir_main sys argv =
     (if length argv < 2 then uthn (ufprintf sys 2 (ustr ''Usage: mkdir files...\<newline>'') []) (uexit 1) else
      uthn (mkdir_args sys (tl argv)) (uexit 0))"

fun rm_args :: "'w sys \<Rightarrow> byte list list \<Rightarrow> ('w, unit) user" where
  "rm_args sys [] = uret ()"
| "rm_args sys (arg # args) =
     ubnd (call (sys_unlink sys arg)) (\<lambda>r.
     if r < 0 then ufprintf sys 2 (ustr ''rm: %s failed to delete\<newline>'') [AStr (Some arg)] else rm_args sys args)"

definition rm_main :: "'w sys \<Rightarrow> byte list list \<Rightarrow> ('w, unit) user" where
  "rm_main sys argv =
     (if length argv < 2 then uthn (ufprintf sys 2 (ustr ''Usage: rm files...\<newline>'') []) (uexit 1) else
      uthn (rm_args sys (tl argv)) (uexit 0))"

definition zombie_main :: "'w sys \<Rightarrow> ('w, unit) user" where
  "zombie_main sys =
     ubnd (call (sys_fork sys)) (\<lambda>pid.
     uthn (if pid > 0 then uthn (call (sys_sleep sys 5)) (uret ()) else uret ())
     (uexit 0))"

section \<open>ls.c\<close>

text \<open>The name after the last slash, and that name padded with blanks to the length of a directory entry.\<close>

definition fmt_last :: "byte list \<Rightarrow> byte list" where
  "fmt_last path = rev (takeWhile (\<lambda>c. c \<noteq> 47) (rev path))"


definition fmtname :: "byte list \<Rightarrow> byte list" where
  "fmtname path =
     (let p = fmt_last path in
      if DIRSIZ \<le> length p then p else p @ replicate (DIRSIZ - length p) 32)"

text \<open>One turn of the loop over the entries of a directory, with the contents of \<open>st\<close> as its variable.\<close>

definition ls_entry :: "'w sys \<Rightarrow> byte list \<Rightarrow> int \<Rightarrow> ustat_t \<Rightarrow> ('w, ustat_t + unit) user" where
  "ls_entry sys path fd st =
     ubnd (call (sys_read sys fd 16)) (\<lambda>r.
     case r of None \<Rightarrow> uret (Inr ()) | Some de \<Rightarrow>
     if length de \<noteq> 16 then uret (Inr ()) else
     if de ! 0 = 0 \<and> de ! 1 = 0 then uret (Inl st) else
     let buf = path @ [47] @ takeWhile (\<lambda>c. c \<noteq> 0) (take DIRSIZ (drop 2 de)) in
     ubnd (ustat sys buf st) (\<lambda>(res, st).
     if res < 0 then uthn (uprintf sys (ustr ''ls: cannot stat %s\<newline>'') [AStr (Some buf)]) (uret (Inl st))
     else uthn (uprintf sys (ustr ''%s %d %d %d\<newline>'')
            [AStr (Some (fmtname buf)), AInt (word_of_int (us_type st)), AInt (us_ino st), AInt (ucast (us_size st))])
          (uret (Inl st))))"

definition ls :: "'w sys \<Rightarrow> byte list \<Rightarrow> ('w, unit) user" where
  "ls sys path =
     ubnd (call (sys_open sys path 0)) (\<lambda>fd.
     if fd < 0 then ufprintf sys 2 (ustr ''ls: cannot open %s\<newline>'') [AStr (Some path)] else
     ubnd (call (sys_fstat sys fd)) (\<lambda>(res, st).
     if res < 0 then
       uthn (ufprintf sys 2 (ustr ''ls: cannot stat %s\<newline>'') [AStr (Some path)]) (
       uthn (call (sys_close sys fd)) (uret ()))
     else
       uthn (if us_type st = 2 then
               uprintf sys (ustr ''%s %d %d %l\<newline>'')
                 [AStr (Some (fmtname path)), AInt (word_of_int (us_type st)), AInt (us_ino st), ALong (us_size st)]
             else if us_type st = 1 then
               (if length path + 1 + DIRSIZ + 1 > 512 then uprintf sys (ustr ''ls: path too long\<newline>'') []
                else uloop (ls_entry sys path fd) st)
             else uret ()) (
       uthn (call (sys_close sys fd)) (uret ()))))"

definition ls_main :: "'w sys \<Rightarrow> byte list list \<Rightarrow> ('w, unit) user" where
  "ls_main sys argv =
     (if length argv < 2 then uthn (ls sys (ustr ''.'')) (uexit 0) else
      uthn (ueach (tl argv) (ls sys)) (uexit 0))"

section \<open>init.c\<close>

definition init_wait :: "'w sys \<Rightarrow> int \<Rightarrow> ('w, unit + unit) user" where
  "init_wait sys pid =
     ubnd (call (sys_wait sys)) (\<lambda>wpid.
     if wpid = pid then uret (Inr ())
     else if wpid < 0 then uthn (uprintf sys (ustr ''init: wait returned an error\<newline>'') []) (uexit 1)
     else uret (Inl ()))"

definition init_one :: "'w sys \<Rightarrow> ('w, unit + unit) user" where
  "init_one sys =
     uthn (uprintf sys (ustr ''init: starting sh\<newline>'') []) (
     ubnd (call (sys_fork sys)) (\<lambda>pid.
     if pid < 0 then uthn (uprintf sys (ustr ''init: fork failed\<newline>'') []) (uexit 1)
     else if pid = 0 then
       uthn (uexec sys (ustr ''sh'') [ustr ''sh'']) (
       uthn (uprintf sys (ustr ''init: exec sh failed\<newline>'') []) (uexit 1))
     else uthn (uloop (\<lambda>_. init_wait sys pid) ()) (uret (Inl ()))))"

definition init_main :: "'w sys \<Rightarrow> ('w, unit) user" where
  "init_main sys =
     ubnd (call (sys_open sys (ustr ''console'') O_RDWR)) (\<lambda>fd.
     uthn (if fd < 0 then
             uthn (call (sys_mknod sys (ustr ''console'') 1 0)) (
             uthn (call (sys_open sys (ustr ''console'') O_RDWR)) (uret ()))
           else uret ()) (
     uthn (call (sys_dup sys 0)) (
     uthn (call (sys_dup sys 0)) (
     uloop (\<lambda>_. init_one sys) ()))))"

section \<open>Copying and counting\<close>

lemma cat_loop:
  assumes sys: "stream_sys sys fd left out"
  shows "\<exists>v. uloop (\<lambda>_. cat_one sys fd) () w = Some (Done (), v) \<and> out v = out w @ left w \<and> left v = []"
proof (induction "length (left w)" arbitrary: w rule: less_induct)
  case less
  obtain bs u where u: "sys_read sys fd 512 w = (Some bs, u)" "left w = bs @ left u"
      "length bs \<le> 512" "0 < (512 :: nat) \<Longrightarrow> left w \<noteq> [] \<Longrightarrow> bs \<noteq> []" "out u = out w"
    by (rule stream_read[OF sys, of 512 w]) (rule that)
  obtain v where v: "sys_write sys 1 bs u = (int (length bs), v)" "out v = out u @ bs" "left v = left u"
    by (rule stream_write[OF sys, of bs u]) (rule that)
  show ?case
  proof (cases "bs = []")
    case True
    have l: "left w = []" by (rule ccontr) (use u(4) True in simp)
    moreover have "left u = []" using u(2)[unfolded l True] by simp
    moreover have "cat_one sys fd w = Some (Done (Inr ()), u)" using u(1) True by (simp add: cat_one_def umon)
    ultimately show ?thesis using uloop_exit[of "\<lambda>_. cat_one sys fd"] u(5) by auto
  next
    case False
    then have one: "cat_one sys fd w = Some (Done (Inl ()), v)" using u(1) v(1) by (simp add: cat_one_def umon)
    have "length (left v) < length (left w)" unfolding u(2) v(3) using False by simp
    then obtain z where "uloop (\<lambda>_. cat_one sys fd) () v = Some (Done (), z)" "out z = out v @ left v" "left z = []"
      using less.hyps[of v] by blast
    then show ?thesis unfolding uloop_next[of "\<lambda>_. cat_one sys fd", OF one] u(2) using u(5) v(2,3) by simp
  qed
qed

text \<open>What \<open>wc\<close> counts: lines, words (a word starts where a byte that is no space follows a space or the beginning) and bytes.\<close>

fun word_starts :: "bool \<Rightarrow> byte list \<Rightarrow> nat" where
  "word_starts inword [] = 0"
| "word_starts inword (b # bs) = (if b \<in> set wc_space then word_starts False bs else (if inword then 0 else 1) + word_starts True bs)"

lemma wc_bytes_counts:
  "wc_bytes bs (l, w, c, i) =
     (l + of_nat (count_list bs NL), w + of_nat (word_starts i bs), c + of_nat (length bs), if bs = [] then i else List.last bs \<notin> set wc_space)"
  by (induction bs arbitrary: l w c i) (simp_all add: ustrchr_none Let_def)

lemma wc_bytes_append: "wc_bytes (xs @ ys) st = wc_bytes ys (wc_bytes xs st)"
  by (induction xs st rule: wc_bytes.induct) (simp_all add: Let_def)

lemma wc_loop:
  assumes sys: "stream_sys sys fd left out"
  shows "\<exists>v. uloop (wc_one sys fd) st w = Some (Done (wc_bytes (left w) st), v) \<and> out v = out w \<and> left v = []"
proof (induction "length (left w)" arbitrary: w st rule: less_induct)
  case less
  obtain bs u where u: "sys_read sys fd 512 w = (Some bs, u)" "left w = bs @ left u"
      "length bs \<le> 512" "0 < (512 :: nat) \<Longrightarrow> left w \<noteq> [] \<Longrightarrow> bs \<noteq> []" "out u = out w"
    by (rule stream_read[OF sys, of 512 w]) (rule that)
  show ?case
  proof (cases "bs = []")
    case True
    have l: "left w = []" by (rule ccontr) (use u(4) True in simp)
    moreover have "left u = []" using u(2)[unfolded l True] by simp
    moreover have "wc_one sys fd st w = Some (Done (Inr st), u)" using u(1) True by (simp add: wc_one_def umon)
    ultimately show ?thesis using uloop_exit[of "wc_one sys fd"] u(5) by auto
  next
    case False
    then have one: "wc_one sys fd st w = Some (Done (Inl (wc_bytes bs st)), u)" using u(1) by (simp add: wc_one_def umon)
    have "length (left u) < length (left w)" unfolding u(2) using False by simp
    then obtain z where "uloop (wc_one sys fd) (wc_bytes bs st) u = Some (Done (wc_bytes (left u) (wc_bytes bs st)), z)" "out z = out u" "left z = []"
      using less.hyps[of u "wc_bytes bs st"] by blast
    then show ?thesis unfolding uloop_next[of "wc_one sys fd", OF one] u(2) using u(5) by (simp add: wc_bytes_append)
  qed
qed

section \<open>Theorems\<close>

text \<open>
  C39: \<open>cat\<close> copies. From an input stream, whatever pieces \<open>read\<close> hands out, the loop ends and has written exactly what was left of the input, in order.
\<close>

theorem cat_copies_input:
  assumes "stream_sys sys fd left out"
  shows "\<exists>v. cat sys fd w = Some (Done (), v) \<and> out v = out w @ left w \<and> left v = []"
  using cat_loop[OF assms] by (simp add: cat_def)

theorem cat_copies_input_witness:
  "\<exists>v. cat demo_sys 0 (ustr ''hello, world'', []) = Some (Done (), v) \<and> snd v = [] @ ustr ''hello, world'' \<and> fst v = []"
  using cat_copies_input[OF demo_stream, of 0 "(ustr ''hello, world'', [])"] by simp

text \<open>
  C40: \<open>wc\<close> counts. Whatever pieces \<open>read\<close> hands out, the numbers printed are those of the whole input: its newlines, the starts of words, its bytes, modulo the
  width of an \<open>int\<close>. A word that is cut by the end of a piece is counted once.
\<close>

theorem wc_counts_input:
  assumes "stream_sys sys fd left out"
  shows "\<exists>v. wc sys fd name w = uprintf sys (ustr ''%d %d %d %s\<newline>'')
      [AInt (of_nat (count_list (left w) NL)), AInt (of_nat (word_starts False (left w))), AInt (of_nat (length (left w))), AStr (Some name)] v \<and>
    out v = out w \<and> left v = []"
  using wc_loop[OF assms, of "(0, 0, 0, False)" w] by (auto simp: wc_def umon wc_bytes_counts)

theorem wc_counts_input_witness:
  "\<exists>v. wc demo_sys 0 [] (ustr ''ab  c'', []) = uprintf demo_sys (ustr ''%d %d %d %s\<newline>'')
      [AInt (of_nat (count_list (ustr ''ab  c'') NL)), AInt (of_nat (word_starts False (ustr ''ab  c''))), AInt (of_nat (length (ustr ''ab  c''))), AStr (Some [])] v \<and>
    snd v = [] \<and> fst v = []"
  using wc_counts_input[OF demo_stream, of 0 "[]" "(ustr ''ab  c'', [])"] by simp

end
