(* ===== verification/Shell.thy ===== *)
theory Shell
  imports Ulib
begin

text \<open>
  The shell, \<^verbatim>\<open>sh.c\<close>. A pointer into the line is a position in it: \<open>b\<close> is the line before its terminator, so \<open>es\<close> is the length of \<open>b\<close>. A pointer
  to a command is a value of type \<open>cmd\<close>, whose strings are pairs of positions (\<open>argv[i]\<close> with \<open>eargv[i]\<close>, \<open>file\<close> with \<open>efile\<close>); memory for commands is taken to be
  available. A panic while parsing is the value \<open>Syntax\<close>; \<open>Stuck\<close> says that the fuel of the parser is used up, which \<open>parsecmd_returns\<close> excludes.
\<close>

section \<open>Commands\<close>

type_synonym span = "nat \<times> nat"

datatype cmd = Null | Exec "span list" | Redir cmd span u32 int | Pipe cmd cmd | Lst cmd cmd | Bck cmd

definition MAXARGS :: nat where "MAXARGS = 10"

definition execcmd :: cmd where
  "execcmd = Exec []"

definition redircmd :: "cmd \<Rightarrow> nat \<Rightarrow> nat \<Rightarrow> u32 \<Rightarrow> int \<Rightarrow> cmd" where
  "redircmd subcmd file efile mode fd = Redir subcmd (file, efile) mode fd"

definition pipecmd :: "cmd \<Rightarrow> cmd \<Rightarrow> cmd" where
  "pipecmd left right = Pipe left right"

definition listcmd :: "cmd \<Rightarrow> cmd \<Rightarrow> cmd" where
  "listcmd left right = Lst left right"

definition backcmd :: "cmd \<Rightarrow> cmd" where
  "backcmd subcmd = Bck subcmd"

section \<open>Tokens\<close>

definition whitespace :: "byte list" where
  "whitespace = [32, 9, 13, 10, 11]"

definition symbols :: "byte list" where
  "symbols = [60, 124, 62, 38, 59, 40, 41]"

definition at :: "byte list \<Rightarrow> nat \<Rightarrow> byte" where
  "at b s = (if s < length b then b ! s else 0)"

definition skipws :: "byte list \<Rightarrow> nat \<Rightarrow> nat" where
  "skipws b s = s + length (takeWhile (\<lambda>c. ustrchr whitespace c \<noteq> None) (drop s b))"

definition wordch :: "byte \<Rightarrow> bool" where
  "wordch c = (ustrchr whitespace c = None \<and> ustrchr symbols c = None)"

text \<open>The kind of the token (the character 97 for a word, 43 for \<open>>>\<close>), its first position, the position after it, and the new \<open>*ps\<close>.\<close>

definition gettoken :: "byte list \<Rightarrow> nat \<Rightarrow> byte \<times> nat \<times> nat \<times> nat" where
  "gettoken b s =
     (let q = skipws b s; c = at b q;
          (ret, s) = (if c = 0 then (0, q)
             else if c \<in> {124, 40, 41, 59, 38, 60} then (c, q + 1)
             else if c = 62 then (if at b (q + 1) = 62 then (43, q + 2) else (c, q + 1))
             else (97, q + length (takeWhile wordch (drop q b))))
      in (ret, q, s, skipws b s))"

text \<open>\<open>peek\<close> gives the answer and the new \<open>*ps\<close>.\<close>

definition peek :: "byte list \<Rightarrow> nat \<Rightarrow> byte list \<Rightarrow> bool \<times> nat" where
  "peek b s toks = (let s = skipws b s in (at b s \<noteq> 0 \<and> ustrchr toks (at b s) \<noteq> None, s))"

lemma skipws_le: "s \<le> skipws b s"
  by (simp add: skipws_def)

lemma skipws_bound: "s \<le> length b \<Longrightarrow> skipws b s \<le> length b"
  using length_takeWhile_le[of "\<lambda>c. ustrchr whitespace c \<noteq> None" "drop s b"] by (simp add: skipws_def)

lemma at_pos: "at b s \<noteq> 0 \<Longrightarrow> s < length b"
  by (simp add: at_def split: if_splits)

lemma takeWhile_nth_stop: "n = length (takeWhile P xs) \<Longrightarrow> n < length xs \<Longrightarrow> \<not> P (xs ! n)"
  using nth_length_takeWhile by blast

lemma skipws_stop: "skipws b s < length b \<Longrightarrow> ustrchr whitespace (b ! skipws b s) = None"
proof -
  assume h: "skipws b s < length b"
  let ?P = "\<lambda>c. ustrchr whitespace c \<noteq> None"
  have "length (takeWhile ?P (drop s b)) < length (drop s b)" using h by (simp add: skipws_def)
  from nth_length_takeWhile[OF this] show ?thesis using h by (simp add: skipws_def)
qed

text \<open>A token other than the end of the line moves the position forward, and no token moves it past the end.\<close>

lemma gettoken_progress:
  assumes "gettoken b s = (t, q, eq, r)"
  shows "q = skipws b s" "q \<le> eq" "eq \<le> r" "t \<noteq> 0 \<Longrightarrow> q < eq" "s \<le> length b \<Longrightarrow> eq \<le> length b \<and> r \<le> length b"
    "t = 97 \<Longrightarrow> q < eq \<and> eq = q + length (takeWhile wordch (drop q b))"
proof -
  let ?q = "skipws b s"
  have w: "at b ?q \<noteq> 0 \<Longrightarrow> at b ?q \<notin> {124, 40, 41, 59, 38, 60} \<Longrightarrow> at b ?q \<noteq> 62 \<Longrightarrow> 0 < length (takeWhile wordch (drop ?q b))"
  proof -
    assume h: "at b ?q \<noteq> 0" "at b ?q \<notin> {124, 40, 41, 59, 38, 60}" "at b ?q \<noteq> 62"
    then have l: "?q < length b" by (blast dest: at_pos)
    then have "drop ?q b = b ! ?q # drop (Suc ?q) b" by (rule Cons_nth_drop_Suc[symmetric])
    moreover have "wordch (b ! ?q)" using skipws_stop[OF l] h l by (auto simp: wordch_def ustrchr_none symbols_def at_def)
    ultimately show ?thesis by simp
  qed
  have len: "?q + length (takeWhile wordch (drop ?q b)) \<le> length b" if "s \<le> length b"
    using skipws_bound[OF that] length_takeWhile_le[of wordch "drop ?q b"] by simp
  have two: "at b (?q + 1) = 62 \<Longrightarrow> ?q + 2 \<le> length b" using at_pos[of b "?q + 1"] by simp
  have one: "at b ?q \<noteq> 0 \<Longrightarrow> ?q + 1 \<le> length b" using at_pos[of b ?q] by simp
  note d = assms[unfolded gettoken_def Let_def]
  show "q = skipws b s" "q \<le> eq" "eq \<le> r" using d skipws_le by (auto split: if_splits)
  show "t \<noteq> 0 \<Longrightarrow> q < eq" using d w by (auto split: if_splits)
  show "t = 97 \<Longrightarrow> q < eq \<and> eq = q + length (takeWhile wordch (drop q b))" using d w by (auto split: if_splits)
  assume s: "s \<le> length b"
  have "eq \<le> length b" using d two one len[OF s] skipws_bound[OF s] by (auto split: if_splits)
  moreover have "r = skipws b eq" using d by (auto split: if_splits)
  ultimately show "eq \<le> length b \<and> r \<le> length b" using skipws_bound by simp
qed

lemma gettoken_some: "at b (skipws b s) \<noteq> 0 \<Longrightarrow> gettoken b s = (t, q, eq, r) \<Longrightarrow> t \<noteq> 0"
  by (auto simp: gettoken_def Let_def split: if_splits)

lemma skipws_idem: "skipws b (skipws b s) = skipws b s"
proof (cases "skipws b s < length b")
  case True
  then have "drop (skipws b s) b = b ! skipws b s # drop (Suc (skipws b s)) b" by (rule Cons_nth_drop_Suc[symmetric])
  then show ?thesis using skipws_stop[OF True] by (simp add: skipws_def[of b "skipws b s"])
qed (simp add: skipws_def[of b "skipws b s"])

section \<open>The parser\<close>

datatype 'a parsed = Parsed 'a | Syntax string | Stuck

fun pbind :: "'a parsed \<Rightarrow> ('a \<Rightarrow> 'b parsed) \<Rightarrow> 'b parsed" where
  "pbind (Parsed a) k = k a"
| "pbind (Syntax e) k = Syntax e"
| "pbind Stuck k = Stuck"

text \<open>A redirection: the span of the file name, the mode for \<open>open\<close> and the descriptor it replaces.\<close>

type_synonym redir = "span \<times> u32 \<times> int"

definition redir_of :: "byte \<Rightarrow> nat \<Rightarrow> nat \<Rightarrow> redir list" where
  "redir_of tok q eq =
     (if tok = 60 then [((q, eq), O_RDONLY, 0)]
      else if tok = 62 then [((q, eq), O_WRONLY OR O_CREATE OR O_TRUNC, 1)]
      else if tok = 43 then [((q, eq), O_WRONLY OR O_CREATE, 1)]
      else [])"

lemma peek_progress:
  assumes "peek b s toks = (True, s1)" "gettoken b s1 = (t, q, eq, r)"
  shows "s < r" "s < length b" "s1 \<le> length b" "t \<noteq> 0"
proof -
  have s1: "s1 = skipws b s" "at b s1 \<noteq> 0" using assms(1) by (auto simp: peek_def Let_def)
  then have "at b (skipws b s1) \<noteq> 0" by (simp add: skipws_idem)
  from gettoken_some[OF this assms(2)] show t: "t \<noteq> 0" .
  have "s \<le> s1" "s1 < length b" using s1 skipws_le[of s b] by (auto dest: at_pos)
  moreover have "s1 \<le> q" using gettoken_progress(1)[OF assms(2)] skipws_le[of s1 b] by simp
  ultimately show "s < r" "s < length b" "s1 \<le> length b" using gettoken_progress(3)[OF assms(2)] gettoken_progress(4)[OF assms(2) t] by linarith+
qed

lemma back_progress: "(True, s1) = peek b s toks \<Longrightarrow> (t, q, eq, r) = gettoken b s1 \<Longrightarrow> length b - r < length b - s"
  using peek_progress(1,2)[of b s toks s1 t q eq r] by simp

lemma redirs_progress:
  assumes "(True, s1) = peek b s [60, 62]" "(tok, q1, e1, s2) = gettoken b s1" "(t, q, e, s3) = gettoken b s2"
  shows "length b - s3 < length b - s"
proof -
  have "s < s2" "s < length b" using peek_progress[of b s "[60, 62]" s1 tok q1 e1 s2] assms by simp_all
  moreover have "s2 \<le> s3" using gettoken_progress(1,2,3)[of b s2 t q e s3] skipws_le[of s2 b] assms(3) by simp
  ultimately show ?thesis by simp
qed

text \<open>
  The loop of \<open>parseredirs\<close>. It gives the redirections in the order in which they wrap the command: the node of \<open>execcmd\<close> that they wrap is still being filled in
  while \<open>parseexec\<close> goes on.
\<close>

function parseredirs :: "byte list \<Rightarrow> nat \<Rightarrow> redir list \<Rightarrow> (redir list \<times> nat) parsed" where
  "parseredirs b s rs =
     (case peek b s [60, 62] of (y, s) \<Rightarrow>
      if \<not> y then Parsed (rs, s) else
      case gettoken b s of (tok, _, _, s) \<Rightarrow>
      case gettoken b s of (t, q, eq, s) \<Rightarrow>
      if t \<noteq> 97 then Syntax ''missing file for redirection'' else
      parseredirs b s (rs @ redir_of tok q eq))"
  by pat_completeness auto
termination
  by (relation "measure (\<lambda>(b, s, _). length b - s)") (auto intro: redirs_progress)

declare parseredirs.simps [simp del]

definition redirs :: "cmd \<Rightarrow> redir list \<Rightarrow> cmd" where
  "redirs cmd rs = fold (\<lambda>((q, eq), mode, fd) c. redircmd c q eq mode fd) rs cmd"

text \<open>The loop over the \<open>&\<close> behind a command.\<close>

function parseback :: "byte list \<Rightarrow> nat \<Rightarrow> cmd \<Rightarrow> cmd \<times> nat" where
  "parseback b s cmd =
     (case peek b s [38] of (y, s) \<Rightarrow>
      if \<not> y then (cmd, s) else
      case gettoken b s of (_, _, _, s) \<Rightarrow> parseback b s (backcmd cmd))"
  by pat_completeness auto
termination
  by (relation "measure (\<lambda>(b, s, _). length b - s)") (auto intro: back_progress)

declare parseback.simps [simp del]

text \<open>The loop over the arguments in \<open>parseexec\<close>; \<open>length args\<close> is \<open>argc\<close>.\<close>

function parseargs :: "byte list \<Rightarrow> nat \<Rightarrow> span list \<Rightarrow> redir list \<Rightarrow> ((span list \<times> redir list) \<times> nat) parsed" where
  "parseargs b s args rs =
     (case peek b s [124, 41, 38, 59] of (y, s) \<Rightarrow>
      if y then Parsed ((args, rs), s) else
      case gettoken b s of (tok, q, eq, s) \<Rightarrow>
      if tok = 0 then Parsed ((args, rs), s) else
      if tok \<noteq> 97 then Syntax ''syntax'' else
      if MAXARGS \<le> length args + 1 then Syntax ''too many args'' else
      pbind (parseredirs b s rs) (\<lambda>(rs, s). parseargs b s (args @ [(q, eq)]) rs))"
  by pat_completeness auto
termination
  by (relation "measure (\<lambda>(_, _, args, _). MAXARGS - length args)") auto

declare parseargs.simps [simp del]

fun parseline :: "nat \<Rightarrow> byte list \<Rightarrow> nat \<Rightarrow> (cmd \<times> nat) parsed"
  and parsepipe :: "nat \<Rightarrow> byte list \<Rightarrow> nat \<Rightarrow> (cmd \<times> nat) parsed"
  and parseblock :: "nat \<Rightarrow> byte list \<Rightarrow> nat \<Rightarrow> (cmd \<times> nat) parsed"
  and parseexec :: "nat \<Rightarrow> byte list \<Rightarrow> nat \<Rightarrow> (cmd \<times> nat) parsed" where
  "parseline 0 b s = Stuck"
| "parseline (Suc n) b s =
     pbind (parsepipe n b s) (\<lambda>(cmd, s).
     case parseback b s cmd of (cmd, s) \<Rightarrow>
     case peek b s [59] of (y, s) \<Rightarrow>
     if \<not> y then Parsed (cmd, s) else
     case gettoken b s of (_, _, _, s) \<Rightarrow>
     pbind (parseline n b s) (\<lambda>(right, s). Parsed (listcmd cmd right, s)))"
| "parsepipe 0 b s = Stuck"
| "parsepipe (Suc n) b s =
     pbind (parseexec n b s) (\<lambda>(cmd, s).
     case peek b s [124] of (y, s) \<Rightarrow>
     if \<not> y then Parsed (cmd, s) else
     case gettoken b s of (_, _, _, s) \<Rightarrow>
     pbind (parsepipe n b s) (\<lambda>(right, s). Parsed (pipecmd cmd right, s)))"
| "parseblock 0 b s = Stuck"
| "parseblock (Suc n) b s =
     (case peek b s [40] of (y, s) \<Rightarrow>
      if \<not> y then Syntax ''parseblock'' else
      case gettoken b s of (_, _, _, s) \<Rightarrow>
      pbind (parseline n b s) (\<lambda>(cmd, s).
      case peek b s [41] of (y, s) \<Rightarrow>
      if \<not> y then Syntax ''syntax - missing )'' else
      case gettoken b s of (_, _, _, s) \<Rightarrow>
      pbind (parseredirs b s []) (\<lambda>(rs, s). Parsed (redirs cmd rs, s))))"
| "parseexec 0 b s = Stuck"
| "parseexec (Suc n) b s =
     (case peek b s [40] of (y, s) \<Rightarrow>
      if y then parseblock n b s else
      pbind (parseredirs b s []) (\<lambda>(rs, s).
      pbind (parseargs b s [] rs) (\<lambda>((args, rs), s). Parsed (redirs (Exec args) rs, s))))"

definition parse_fuel :: "byte list \<Rightarrow> nat" where
  "parse_fuel b = 4 * length b + 4"

text \<open>
  \<open>nulterminate\<close> writes the terminators into the line \<open>m\<close>, which includes the terminator of the whole line. The strings of the command are then read from
  that line.
\<close>

fun nulterminate :: "cmd \<Rightarrow> byte list \<Rightarrow> byte list" where
  "nulterminate Null m = m"
| "nulterminate (Exec args) m = fold (\<lambda>(_, e) m. m[e := 0]) args m"
| "nulterminate (Redir c (_, e) _ _) m = (nulterminate c m)[e := 0]"
| "nulterminate (Pipe l r) m = nulterminate r (nulterminate l m)"
| "nulterminate (Lst l r) m = nulterminate r (nulterminate l m)"
| "nulterminate (Bck c) m = nulterminate c m"

definition shstr :: "byte list \<Rightarrow> span \<Rightarrow> byte list" where
  "shstr m sp = takeWhile (\<lambda>c. c \<noteq> 0) (drop (fst sp) m)"

text \<open>\<open>parse\<close> is the part of \<open>parsecmd\<close> that reads the line: the command, or \<open>Inl\<close> with what is left over.\<close>

definition parse :: "byte list \<Rightarrow> (byte list + cmd) parsed" where
  "parse b =
     pbind (parseline (parse_fuel b) b 0) (\<lambda>(cmd, s).
     case peek b s [] of (_, s) \<Rightarrow>
     if s \<noteq> length b then Parsed (Inl (drop s b)) else Parsed (Inr cmd))"

section \<open>Running commands\<close>

definition shpanic :: "'w sys \<Rightarrow> byte list \<Rightarrow> ('w, 'a) user" where
  "shpanic sys s = uthn (ufprintf sys 2 (ustr ''%s\<newline>'') [AStr (Some s)]) (uexit 1)"

definition fork1 :: "'w sys \<Rightarrow> ('w, int) user" where
  "fork1 sys = ubnd (call (sys_fork sys)) (\<lambda>pid. if pid = - 1 then shpanic sys (ustr ''fork'') else uret pid)"

text \<open>The parsed command and the line with the terminators in it.\<close>

definition parsecmd :: "'w sys \<Rightarrow> byte list \<Rightarrow> ('w, cmd \<times> byte list) user" where
  "parsecmd sys b =
     (case parse b of
        Stuck \<Rightarrow> (\<lambda>w. None)
      | Syntax e \<Rightarrow> shpanic sys (ustr e)
      | Parsed (Inl rest) \<Rightarrow> uthn (ufprintf sys 2 (ustr ''leftovers: %s\<newline>'') [AStr (Some rest)]) (shpanic sys (ustr ''syntax''))
      | Parsed (Inr cmd) \<Rightarrow> uret (cmd, nulterminate cmd (b @ [0])))"

fun runcmd :: "'w sys \<Rightarrow> byte list \<Rightarrow> cmd \<Rightarrow> ('w, unit) user" where
  "runcmd sys m Null = uexit 1"
| "runcmd sys m (Exec args) =
     (if args = [] then uexit 1 else
      uthn (uexec sys (shstr m (hd args)) (map (shstr m) args)) (
      uthn (ufprintf sys 2 (ustr ''exec %s failed\<newline>'') [AStr (Some (shstr m (hd args)))])
      (uexit 0)))"
| "runcmd sys m (Redir c file mode fd) =
     uthn (call (sys_close sys fd)) (
     ubnd (call (sys_open sys (shstr m file) mode)) (\<lambda>r.
     if r < 0 then uthn (ufprintf sys 2 (ustr ''open %s failed\<newline>'') [AStr (Some (shstr m file))]) (uexit 1) else
     uthn (runcmd sys m c) (uexit 0)))"
| "runcmd sys m (Lst left right) =
     ubnd (fork1 sys) (\<lambda>pid.
     uthn (if pid = 0 then runcmd sys m left else uret ()) (
     uthn (call (sys_wait sys)) (
     uthn (runcmd sys m right) (uexit 0))))"
| "runcmd sys m (Pipe left right) =
     ubnd (call (sys_pipe sys)) (\<lambda>(r, p0, p1).
     if r < 0 then shpanic sys (ustr ''pipe'') else
     ubnd (fork1 sys) (\<lambda>pid.
     uthn (if pid = 0 then
             uthn (call (sys_close sys 1)) (
             uthn (call (sys_dup sys p1)) (
             uthn (call (sys_close sys p0)) (
             uthn (call (sys_close sys p1))
             (runcmd sys m left))))
           else uret ()) (
     ubnd (fork1 sys) (\<lambda>pid.
     uthn (if pid = 0 then
             uthn (call (sys_close sys 0)) (
             uthn (call (sys_dup sys p0)) (
             uthn (call (sys_close sys p0)) (
             uthn (call (sys_close sys p1))
             (runcmd sys m right))))
           else uret ()) (
     uthn (call (sys_close sys p0)) (
     uthn (call (sys_close sys p1)) (
     uthn (call (sys_wait sys)) (
     uthn (call (sys_wait sys)) (uexit 0)))))))))"
| "runcmd sys m (Bck c) =
     ubnd (fork1 sys) (\<lambda>pid.
     uthn (if pid = 0 then runcmd sys m c else uret ()) (uexit 0))"

section \<open>The main loop\<close>

text \<open>\<open>getcmd\<close> gives the line up to its terminator, \<open>None\<close> for -1.\<close>

definition getcmd :: "'w sys \<Rightarrow> int \<Rightarrow> ('w, byte list option) user" where
  "getcmd sys nbuf =
     uthn (ufprintf sys 2 (ustr ''$ '') []) (
     ubnd (ugets sys nbuf) (\<lambda>buf.
     let s = takeWhile (\<lambda>c. c \<noteq> 0) buf in
     uret (if s = [] then None else Some s)))"

definition sh_open :: "'w sys \<Rightarrow> ('w, unit + unit) user" where
  "sh_open sys =
     ubnd (call (sys_open sys (ustr ''console'') O_RDWR)) (\<lambda>fd.
     if fd \<ge> 0 then
       (if fd \<ge> 3 then uthn (call (sys_close sys fd)) (uret (Inr ())) else uret (Inl ()))
     else uret (Inr ()))"

definition sh_one :: "'w sys \<Rightarrow> ('w, unit + unit) user" where
  "sh_one sys =
     ubnd (getcmd sys 100) (\<lambda>c.
     case c of None \<Rightarrow> uret (Inr ()) | Some buf \<Rightarrow>
     if take 3 buf = ustr ''cd '' then
       let path = drop 3 (butlast buf) in
       ubnd (call (sys_chdir sys path)) (\<lambda>r.
       uthn (if r < 0 then ufprintf sys 2 (ustr ''cannot cd %s\<newline>'') [AStr (Some path)] else uret ())
       (uret (Inl ())))
     else
       ubnd (fork1 sys) (\<lambda>pid.
       uthn (if pid = 0 then ubnd (parsecmd sys buf) (\<lambda>(cmd, m). runcmd sys m cmd) else uret ()) (
       uthn (call (sys_wait sys)) (uret (Inl ())))))"

definition sh_main :: "'w sys \<Rightarrow> ('w, unit) user" where
  "sh_main sys = uthn (uloop (\<lambda>_. sh_open sys) ()) (uthn (uloop (\<lambda>_. sh_one sys) ()) (uexit 0))"

end
