(* ===== verification/Shparse.thy ===== *)
theory Shparse
  imports Shell
begin

text \<open>
  What the shell's parser does: it returns on every line, the words of the command it builds are the words of the line, with the terminators written exactly behind them,
  and a parsed command runs until its process exits or becomes another program.
\<close>

section \<open>The parser returns\<close>

definition span_ok :: "byte list \<Rightarrow> span \<Rightarrow> bool" where
  "span_ok b sp = (case sp of (q, eq) \<Rightarrow> q < eq \<and> eq \<le> length b \<and> (\<forall>i\<in>{q..<eq}. wordch (b ! i)) \<and> (eq < length b \<longrightarrow> \<not> wordch (b ! eq)))"

fun cmd_ok :: "byte list \<Rightarrow> cmd \<Rightarrow> bool" where
  "cmd_ok b Null = False"
| "cmd_ok b (Exec args) = (length args < MAXARGS \<and> list_all (span_ok b) args)"
| "cmd_ok b (Redir c sp mode fd) = (cmd_ok b c \<and> span_ok b sp \<and> fd \<in> {0, 1})"
| "cmd_ok b (Pipe l r) = (cmd_ok b l \<and> cmd_ok b r)"
| "cmd_ok b (Lst l r) = (cmd_ok b l \<and> cmd_ok b r)"
| "cmd_ok b (Bck c) = cmd_ok b c"

definition redir_ok :: "byte list \<Rightarrow> redir \<Rightarrow> bool" where
  "redir_ok b r = (case r of (sp, _, fd) \<Rightarrow> span_ok b sp \<and> fd \<in> {0, 1})"

text \<open>A parser that was started at position \<open>s\<close> is sound: its fuel is not used up, it has not moved back nor past the end, and its value satisfies \<open>Q\<close>.\<close>

definition sound :: "byte list \<Rightarrow> nat \<Rightarrow> ('a \<Rightarrow> bool) \<Rightarrow> ('a \<times> nat) parsed \<Rightarrow> bool" where
  "sound b s Q p = (case p of Stuck \<Rightarrow> False | Syntax _ \<Rightarrow> True | Parsed (a, r) \<Rightarrow> s \<le> r \<and> r \<le> length b \<and> Q a)"

lemma sound_simps [simp]:
  "sound b s Q (Parsed (a, r)) \<longleftrightarrow> s \<le> r \<and> r \<le> length b \<and> Q a" "sound b s Q (Syntax e)" "\<not> sound b s Q Stuck"
  by (simp_all add: sound_def)

lemma sound_bind:
  assumes "sound b s Q p" "\<And>a r. s \<le> r \<Longrightarrow> r \<le> length b \<Longrightarrow> Q a \<Longrightarrow> sound b s Q' (k (a, r))"
  shows "sound b s Q' (pbind p k)"
  using assms by (cases p) auto

lemma sound_mono: "sound b r Q p \<Longrightarrow> s \<le> r \<Longrightarrow> sound b s Q p"
  by (cases p) auto

lemma peek_pos: "s \<le> length b \<Longrightarrow> peek b s toks = (y, r) \<Longrightarrow> s \<le> r \<and> r \<le> length b"
  using skipws_le[of s b] skipws_bound[of s b] by (auto simp: peek_def Let_def)

lemma gettoken_pos: "s \<le> length b \<Longrightarrow> gettoken b s = (t, q, eq, r) \<Longrightarrow> s \<le> r \<and> r \<le> length b"
  using gettoken_progress(1,2,3,5)[of b s t q eq r] skipws_le[of s b] by simp

lemma gettoken_span:
  assumes "s \<le> length b" "gettoken b s = (97, q, eq, r)"
  shows "span_ok b (q, eq)"
proof -
  have e: "q < eq" "eq = q + length (takeWhile wordch (drop q b))" "eq \<le> length b" using gettoken_progress(5,6)[OF assms(2)] assms(1) by auto
  have "wordch (b ! i)" if "q \<le> i" "i < eq" for i
  proof -
    have i: "i - q < length (takeWhile wordch (drop q b))" using that e(2) by simp
    then have "takeWhile wordch (drop q b) ! (i - q) = b ! i" using that e(3) by (simp add: takeWhile_nth)
    then show ?thesis using nth_mem[OF i] set_takeWhileD by metis
  qed
  moreover have "\<not> wordch (b ! eq)" if "eq < length b"
    using nth_length_takeWhile[of wordch "drop q b"] that e(2) by simp
  ultimately show ?thesis using e(1,3) by (auto simp: span_ok_def)
qed

lemma redir_of_ok: "span_ok b (q, eq) \<Longrightarrow> list_all (redir_ok b) (redir_of tok q eq)"
  by (simp add: redir_of_def redir_ok_def)

lemma redirs_ok: "list_all (redir_ok b) rs \<Longrightarrow> cmd_ok b c \<Longrightarrow> cmd_ok b (redirs c rs)"
  unfolding redirs_def by (induction rs arbitrary: c) (auto simp: redir_ok_def redircmd_def)

lemma parseredirs_sound: "s \<le> length b \<Longrightarrow> list_all (redir_ok b) rs \<Longrightarrow> sound b s (list_all (redir_ok b)) (parseredirs b s rs)"
proof (induction b s rs rule: parseredirs.induct)
  case (1 b s rs)
  obtain y s1 where p: "peek b s [60, 62] = (y, s1)" by fastforce
  obtain tok q1 e1 s2 where g: "gettoken b s1 = (tok, q1, e1, s2)" by (metis prod_cases4)
  obtain t q e s3 where h: "gettoken b s2 = (t, q, e, s3)" by (metis prod_cases4)
  note pos = peek_pos[OF 1(2) p] gettoken_pos[OF _ g] gettoken_pos[OF _ h]
  show ?case
  proof (cases "y \<and> t = 97")
    case True
    have "list_all (redir_ok b) (rs @ redir_of tok q e)" using 1(3) redir_of_ok[OF gettoken_span[of s2 b q e s3]] h True pos by auto
    then have "sound b s3 (list_all (redir_ok b)) (parseredirs b s3 (rs @ redir_of tok q e))"
      using 1(1)[OF p[symmetric] _ g[symmetric] _ _ h[symmetric]] True pos by auto
    then show ?thesis using True pos by (auto simp: parseredirs.simps[of b s] p g h intro: sound_mono)
  qed (use 1(3) pos in \<open>auto simp: parseredirs.simps[of b s] p g h\<close>)
qed

definition args_ok :: "byte list \<Rightarrow> span list \<times> redir list \<Rightarrow> bool" where
  "args_ok b a = (length (fst a) < MAXARGS \<and> list_all (span_ok b) (fst a) \<and> list_all (redir_ok b) (snd a))"

lemma parseargs_sound:
  "s \<le> length b \<Longrightarrow> args_ok b (args, rs) \<Longrightarrow> sound b s (args_ok b) (parseargs b s args rs)"
proof (induction b s args rs rule: parseargs.induct)
  case (1 b s args rs)
  obtain y s1 where p: "peek b s [124, 41, 38, 59] = (y, s1)" by fastforce
  obtain tok q e s2 where g: "gettoken b s1 = (tok, q, e, s2)" by (metis prod_cases4)
  note pos = peek_pos[OF 1(2) p] gettoken_pos[OF _ g]
  show ?case
  proof (cases "\<not> y \<and> tok = 97 \<and> length args + 1 < MAXARGS")
    case True
    have sp: "span_ok b (q, e)" using gettoken_span[of s1 b q e s2] g True pos by auto
    have r: "list_all (redir_ok b) rs" "s2 \<le> length b" using 1(3) pos by (auto simp: args_ok_def)
    have "sound b s2 (args_ok b) (pbind (parseredirs b s2 rs) (\<lambda>(rs, s). parseargs b s (args @ [(q, e)]) rs))"
    proof (rule sound_bind[OF parseredirs_sound[OF r(2,1)]])
      fix rs' r assume "s2 \<le> r" "r \<le> length b" "list_all (redir_ok b) rs'"
      moreover have "args_ok b (args @ [(q, e)], rs')" using 1(3) True sp calculation(3) by (simp add: args_ok_def)
      ultimately have "sound b r (args_ok b) (parseargs b r (args @ [(q, e)]) rs')"
        using 1(1)[OF p[symmetric] _ g[symmetric]] True by auto
      then show "sound b s2 (args_ok b) (case (rs', r) of (rs, s) \<Rightarrow> parseargs b s (args @ [(q, e)]) rs)"
        using \<open>s2 \<le> r\<close> by (simp add: sound_mono)
    qed
    then show ?thesis using True pos by (auto simp: parseargs.simps[of b s] p g intro: sound_mono)
  qed (use 1(3) pos in \<open>auto simp: parseargs.simps[of b s] p g\<close>)
qed

lemma parseback_pos: "s \<le> length b \<Longrightarrow> cmd_ok b c \<Longrightarrow> parseback b s c = (c', r) \<Longrightarrow> s \<le> r \<and> r \<le> length b \<and> cmd_ok b c'"
proof (induction b s c rule: parseback.induct)
  case (1 b s c)
  obtain y s1 where p: "peek b s [38] = (y, s1)" by fastforce
  obtain t q e s2 where g: "gettoken b s1 = (t, q, e, s2)" by (metis prod_cases4)
  have pos: "s \<le> s1" "s1 \<le> length b" "s1 \<le> s2" "s2 \<le> length b" using peek_pos[OF 1(2) p] gettoken_pos[OF _ g] by auto
  show ?case
  proof (cases y)
    case True
    then have e: "parseback b s c = parseback b s2 (backcmd c)" by (simp add: parseback.simps[of b s] p g)
    have "s2 \<le> r \<and> r \<le> length b \<and> cmd_ok b c'"
      using 1(1)[OF p[symmetric] _ g[symmetric]] True pos 1(3,4) e by (auto simp: backcmd_def)
    then show ?thesis using pos by simp
  qed (use 1(3,4) pos in \<open>auto simp: parseback.simps[of b s] p\<close>)
qed

lemma sep_pos:
  assumes "s \<le> length b" "peek b s toks = (True, s1)" "gettoken b s1 = (t, q, e, s2)"
  shows "s < s2" "s2 \<le> length b"
  using peek_progress[OF assms(2,3)] gettoken_pos[OF _ assms(3)] by simp_all

text \<open>\<open>rank\<close> bounds the depth of the recursion from a position on; the four parsers differ in the constant added to it.\<close>

definition rank :: "byte list \<Rightarrow> nat \<Rightarrow> nat" where
  "rank b s = 4 * (length b - s)"

lemma rank_mono: "s \<le> r \<Longrightarrow> rank b r \<le> rank b s"
  by (simp add: rank_def)

lemma rank_less: "s < r \<Longrightarrow> r \<le> length b \<Longrightarrow> rank b r + 4 \<le> rank b s"
  by (simp add: rank_def)

definition runs :: "nat \<Rightarrow> nat \<Rightarrow> byte list \<Rightarrow> (nat \<Rightarrow> byte list \<Rightarrow> nat \<Rightarrow> (cmd \<times> nat) parsed) \<Rightarrow> bool" where
  "runs n k b f = (\<forall>s. s \<le> length b \<longrightarrow> rank b s + k < n \<longrightarrow> sound b s (cmd_ok b) (f n b s))"

lemma runsD: "runs n k b f \<Longrightarrow> s \<le> length b \<Longrightarrow> rank b s + k < n \<Longrightarrow> sound b s (cmd_ok b) (f n b s)"
  by (simp add: runs_def)

lemma line_runs:
  assumes P: "runs n 2 b parsepipe" and L: "runs n 3 b parseline"
  shows "runs (Suc n) 3 b parseline"
  unfolding runs_def
proof (intro allI impI)
  fix s assume s: "s \<le> length b" "rank b s + 3 < Suc n"
  show "sound b s (cmd_ok b) (parseline (Suc n) b s)"
    unfolding parseline.simps
  proof (rule sound_bind[OF runsD[OF P s(1)]])
    fix c r assume r: "s \<le> r" "r \<le> length b" "cmd_ok b c"
    obtain c' s1 where k: "parseback b r c = (c', s1)" by fastforce
    obtain y s2 where p: "peek b s1 [59] = (y, s2)" by fastforce
    obtain t q e s3 where g: "gettoken b s2 = (t, q, e, s3)" by (metis prod_cases4)
    have k': "r \<le> s1" "s1 \<le> length b" "cmd_ok b c'" using parseback_pos[OF r(2,3) k] by simp_all
    have s2: "s1 \<le> s2" "s2 \<le> length b" using peek_pos[OF k'(2) p] by simp_all
    have "sound b s (cmd_ok b) (pbind (parseline n b s3) (\<lambda>(right, s). Parsed (listcmd c' right, s)))" if y
    proof -
      have g': "s1 < s3" "s3 \<le> length b" using sep_pos[OF k'(2) _ g] p that by simp_all
      have "rank b s3 + 4 \<le> rank b s" using rank_less[of s s3 b] g' k' r by simp
      then have "sound b s3 (cmd_ok b) (parseline n b s3)" using runsD[OF L g'(2)] s(2) by simp
      then have "sound b s (cmd_ok b) (parseline n b s3)" using g' k' r by (simp add: sound_mono)
      then show ?thesis by (rule sound_bind) (use k' in \<open>simp add: listcmd_def\<close>)
    qed
    then show "sound b s (cmd_ok b) (case (c, r) of (cmd, s) \<Rightarrow> case parseback b s cmd of (cmd, s) \<Rightarrow> case peek b s [59] of (y, s) \<Rightarrow>
        if \<not> y then Parsed (cmd, s) else case gettoken b s of (_, _, _, s) \<Rightarrow> pbind (parseline n b s) (\<lambda>(right, s). Parsed (listcmd cmd right, s)))"
      using k' s2 r by (auto simp: k p g)
  qed (use s in simp)
qed

lemma pipe_runs:
  assumes P: "runs n 1 b parseexec" and L: "runs n 2 b parsepipe"
  shows "runs (Suc n) 2 b parsepipe"
  unfolding runs_def
proof (intro allI impI)
  fix s assume s: "s \<le> length b" "rank b s + 2 < Suc n"
  show "sound b s (cmd_ok b) (parsepipe (Suc n) b s)"
    unfolding parsepipe.simps
  proof (rule sound_bind[OF runsD[OF P s(1)]])
    fix c r assume r: "s \<le> r" "r \<le> length b" "cmd_ok b c"
    obtain y s2 where p: "peek b r [124] = (y, s2)" by fastforce
    obtain t q e s3 where g: "gettoken b s2 = (t, q, e, s3)" by (metis prod_cases4)
    have s2: "r \<le> s2" "s2 \<le> length b" using peek_pos[OF r(2) p] by simp_all
    have "sound b s (cmd_ok b) (pbind (parsepipe n b s3) (\<lambda>(right, s). Parsed (pipecmd c right, s)))" if y
    proof -
      have g': "r < s3" "s3 \<le> length b" using sep_pos[OF r(2) _ g] p that by simp_all
      have "rank b s3 + 4 \<le> rank b s" using rank_less[of s s3 b] g' r by simp
      then have "sound b s3 (cmd_ok b) (parsepipe n b s3)" using runsD[OF L g'(2)] s(2) by simp
      then have "sound b s (cmd_ok b) (parsepipe n b s3)" using g' r by (simp add: sound_mono)
      then show ?thesis by (rule sound_bind) (use r in \<open>simp add: pipecmd_def\<close>)
    qed
    then show "sound b s (cmd_ok b) (case (c, r) of (cmd, s) \<Rightarrow> case peek b s [124] of (y, s) \<Rightarrow>
        if \<not> y then Parsed (cmd, s) else case gettoken b s of (_, _, _, s) \<Rightarrow> pbind (parsepipe n b s) (\<lambda>(right, s). Parsed (pipecmd cmd right, s)))"
      using s2 r by (auto simp: p g)
  qed (use s in simp)
qed

lemma block_runs:
  assumes L: "runs n 3 b parseline"
  shows "runs (Suc n) 0 b parseblock"
  unfolding runs_def
proof (intro allI impI)
  fix s assume s: "s \<le> length b" "rank b s + 0 < Suc n"
  obtain y s1 where p: "peek b s [40] = (y, s1)" by fastforce
  obtain t q e s2 where g: "gettoken b s1 = (t, q, e, s2)" by (metis prod_cases4)
  have "sound b s (cmd_ok b) (pbind (parseline n b s2) (\<lambda>(cmd, s). case peek b s [41] of (y, s) \<Rightarrow>
      if \<not> y then Syntax ''syntax - missing )'' else case gettoken b s of (_, _, _, s) \<Rightarrow>
      pbind (parseredirs b s []) (\<lambda>(rs, s). Parsed (redirs cmd rs, s))))" if y
  proof (rule sound_bind)
    have g': "s < s2" "s2 \<le> length b" using sep_pos[OF s(1) _ g] p that by simp_all
    have "rank b s2 + 4 \<le> rank b s" using rank_less[of s s2 b] g' by simp
    then have "sound b s2 (cmd_ok b) (parseline n b s2)" using runsD[OF L g'(2)] s(2) by simp
    then show "sound b s (cmd_ok b) (parseline n b s2)" using g' by (simp add: sound_mono)
    fix c r assume r: "s \<le> r" "r \<le> length b" "cmd_ok b c"
    obtain y' s3 where p': "peek b r [41] = (y', s3)" by fastforce
    obtain t' q' e' s4 where h: "gettoken b s3 = (t', q', e', s4)" by (metis prod_cases4)
    have pos: "r \<le> s3" "s3 \<le> s4" "s4 \<le> length b" using peek_pos[OF r(2) p'] gettoken_pos[OF _ h] by simp_all
    have "sound b s (list_all (redir_ok b)) (parseredirs b s4 [])"
      by (rule sound_mono[OF parseredirs_sound]) (use pos r in simp_all)
    then have "sound b s (cmd_ok b) (pbind (parseredirs b s4 []) (\<lambda>(rs, s). Parsed (redirs c rs, s)))"
      by (rule sound_bind) (use r in \<open>simp add: redirs_ok\<close>)
    then show "sound b s (cmd_ok b) (case (c, r) of (cmd, s) \<Rightarrow> case peek b s [41] of (y, s) \<Rightarrow>
      if \<not> y then Syntax ''syntax - missing )'' else case gettoken b s of (_, _, _, s) \<Rightarrow>
      pbind (parseredirs b s []) (\<lambda>(rs, s). Parsed (redirs cmd rs, s)))" by (simp add: p' h)
  qed
  then show "sound b s (cmd_ok b) (parseblock (Suc n) b s)" by (simp add: p g)
qed

lemma exec_runs:
  assumes B: "runs n 0 b parseblock"
  shows "runs (Suc n) 1 b parseexec"
  unfolding runs_def
proof (intro allI impI)
  fix s assume s: "s \<le> length b" "rank b s + 1 < Suc n"
  obtain y s1 where p: "peek b s [40] = (y, s1)" by fastforce
  have s1: "s \<le> s1" "s1 \<le> length b" using peek_pos[OF s(1) p] by simp_all
  have "sound b s (cmd_ok b) (parseblock n b s1)"
    by (rule sound_mono[OF runsD[OF B]]) (use s s1 rank_mono[of s s1 b] in simp_all)
  moreover have "sound b s (cmd_ok b) (pbind (parseredirs b s1 []) (\<lambda>(rs, s).
      pbind (parseargs b s [] rs) (\<lambda>((args, rs), s). Parsed (redirs (Exec args) rs, s))))"
  proof (rule sound_bind)
    show "sound b s (list_all (redir_ok b)) (parseredirs b s1 [])" by (rule sound_mono[OF parseredirs_sound]) (use s1 in simp_all)
    fix rs r assume r: "s \<le> r" "r \<le> length b" "list_all (redir_ok b) rs"
    have "sound b s (args_ok b) (parseargs b r [] rs)"
      by (rule sound_mono[OF parseargs_sound]) (use r in \<open>simp_all add: args_ok_def MAXARGS_def\<close>)
    then have "sound b s (cmd_ok b) (pbind (parseargs b r [] rs) (\<lambda>((args, rs), s). Parsed (redirs (Exec args) rs, s)))"
      by (rule sound_bind) (auto simp: args_ok_def intro!: redirs_ok)
    then show "sound b s (cmd_ok b) (case (rs, r) of (rs, s) \<Rightarrow> pbind (parseargs b s [] rs) (\<lambda>((args, rs), s). Parsed (redirs (Exec args) rs, s)))"
      by simp
  qed
  ultimately show "sound b s (cmd_ok b) (parseexec (Suc n) b s)" by (simp add: p)
qed

lemma parsers_run: "runs n 3 b parseline \<and> runs n 2 b parsepipe \<and> runs n 0 b parseblock \<and> runs n 1 b parseexec"
proof (induction n)
  case (Suc n)
  then show ?case using line_runs pipe_runs block_runs exec_runs by blast
qed (simp add: runs_def)

lemma parse_result: "(\<exists>e. parse b = Syntax e) \<or> (\<exists>rest. parse b = Parsed (Inl rest)) \<or> (\<exists>c. parse b = Parsed (Inr c) \<and> cmd_ok b c)"
proof -
  have "sound b 0 (cmd_ok b) (parseline (parse_fuel b) b 0)"
    using parsers_run[of "parse_fuel b" b] by (auto simp: runs_def parse_fuel_def rank_def)
  then show ?thesis by (cases "parseline (parse_fuel b) b 0") (auto simp: parse_def split: prod.split)
qed

section \<open>The terminators\<close>

fun spans :: "cmd \<Rightarrow> span list" where
  "spans Null = []"
| "spans (Exec args) = args"
| "spans (Redir c sp _ _) = spans c @ [sp]"
| "spans (Pipe l r) = spans l @ spans r"
| "spans (Lst l r) = spans l @ spans r"
| "spans (Bck c) = spans c"

lemma spans_ok: "cmd_ok b c \<Longrightarrow> sp \<in> set (spans c) \<Longrightarrow> span_ok b sp"
  by (induction c) (auto simp: list_all_iff)

lemma nulterminate_fold: "nulterminate c m = fold (\<lambda>(_, e) m. m[e := 0]) (spans c) m"
  by (induction c m rule: nulterminate.induct) auto

lemma fold_zero: "fold (\<lambda>(_, e) m. m[e := 0]) sps m = map (\<lambda>i. if i \<in> snd ` set sps then 0 else m ! i) [0..<length m]"
proof (induction sps arbitrary: m)
  case Nil
  then show ?case by (simp add: map_nth)
next
  case (Cons sp sps)
  then show ?case by (cases sp) (auto simp: nth_list_update)
qed

lemma terminated:
  assumes ok: "\<forall>sp\<in>set sps. span_ok b sp" and "(q, e) \<in> set sps" "0 \<notin> set b"
  shows "shstr (fold (\<lambda>(_, e) m. m[e := 0]) sps (b @ [0])) (q, e) = take (e - q) (drop q b)"
proof -
  let ?m = "fold (\<lambda>(_, e) m. m[e := 0]) sps (b @ [0])"
  have qe: "q < e" "e \<le> length b" "\<And>i. q \<le> i \<Longrightarrow> i < e \<Longrightarrow> wordch (b ! i)" using assms(1,2) by (auto simp: span_ok_def)
  have len: "length ?m = length b + 1" by (simp add: fold_zero)
  have keep: "?m ! i = b ! i" if i: "q \<le> i" "i < e" for i
  proof -
    have "i \<notin> snd ` set sps"
    proof
      assume "i \<in> snd ` set sps"
      then obtain p where "(p, i) \<in> set sps" by force
      then show False using ok qe(2) qe(3)[OF i] i by (auto simp: span_ok_def)
    qed
    then show ?thesis using i qe by (simp add: fold_zero nth_append)
  qed
  have "e \<in> snd ` set sps" using assms(2) by force
  then have stop: "?m ! e = 0" using qe by (simp add: fold_zero del: upt_Suc)
  have split: "drop q ?m = take (e - q) (drop q ?m) @ ?m ! e # drop (Suc e) ?m"
    using id_take_nth_drop[of "e - q" "drop q ?m"] qe len by simp
  have same: "take (e - q) (drop q ?m) = take (e - q) (drop q b)"
    by (rule nth_equalityI) (use qe len keep in auto)
  have "\<forall>c\<in>set (take (e - q) (drop q b)). c \<noteq> 0" using assms(3) by (metis in_set_dropD in_set_takeD)
  then show ?thesis unfolding shstr_def fst_conv by (subst split) (simp add: same stop takeWhile_append2)
qed

section \<open>Programs that end\<close>

definition ends :: "('w, 'a) user \<Rightarrow> bool" where
  "ends m = (\<forall>w. \<exists>a v. m w = Some (Done a, v))"

definition leaves :: "('w, 'a) user \<Rightarrow> bool" where
  "leaves m = (\<forall>w. \<exists>v. m w = Some (Replaced, v) \<or> (\<exists>k. m w = Some (Exited k, v)))"

lemma ends_call [simp]: "ends (call f)"
  by (auto simp: ends_def umon split: prod.split)

lemma ends_uret [simp]: "ends (uret a)"
  by (simp add: ends_def umon)

lemma endsE:
  assumes "ends m" obtains a v where "m w = Some (Done a, v)"
  using assms unfolding ends_def by metis

lemma leavesE:
  assumes "leaves m" obtains v where "m w = Some (Replaced, v)" | v k where "m w = Some (Exited k, v)"
  using assms by (metis leaves_def)

lemma ends_uthn:
  assumes "ends m" "ends n" shows "ends (uthn m n)"
  unfolding ends_def
proof
  fix w
  obtain a v where "m w = Some (Done a, v)" by (rule endsE[OF assms(1)])
  moreover obtain c u where "n v = Some (Done c, u)" by (rule endsE[OF assms(2)])
  ultimately show "\<exists>a v. uthn m n w = Some (Done a, v)" by (simp add: umon)
qed

lemma leaves_uexit [simp]: "leaves (uexit c)"
  by (simp add: leaves_def umon)

lemma leaves_bnd:
  assumes "ends m" "\<And>a. leaves (k a)" shows "leaves (ubnd m k)"
  unfolding leaves_def
proof
  fix w
  obtain a v where m: "m w = Some (Done a, v)" by (rule endsE[OF assms(1)])
  show "\<exists>v. ubnd m k w = Some (Replaced, v) \<or> (\<exists>c. ubnd m k w = Some (Exited c, v))"
    by (rule leavesE[OF assms(2)[of a], of v]) (use m in \<open>simp_all add: umon\<close>)
qed

lemma leaves_after: "ends m \<Longrightarrow> leaves n \<Longrightarrow> leaves (uthn m n)"
  by (simp add: uthn_def leaves_bnd)

lemma leaves_call: "leaves n \<Longrightarrow> leaves (uthn (call f) n)"
  by (simp add: leaves_after)

lemma leaves_first:
  assumes "leaves m" shows "leaves (ubnd m k)"
  unfolding leaves_def
proof
  fix w
  show "\<exists>v. ubnd m k w = Some (Replaced, v) \<or> (\<exists>c. ubnd m k w = Some (Exited c, v))"
    by (rule leavesE[OF assms, of w]) (simp_all add: umon)
qed

lemma leaves_now: "leaves m \<Longrightarrow> leaves (uthn m n)"
  by (simp add: uthn_def leaves_first)

lemma leaves_if: "leaves m \<Longrightarrow> leaves n \<Longrightarrow> leaves (uthn (if c then m else uret ()) n)"
  by (simp add: leaves_now leaves_after)

lemma leaves_exec:
  assumes "leaves n" shows "leaves (uthn (uexec sys path argv) n)"
  unfolding leaves_def
proof
  fix w
  obtain r v where r: "sys_exec sys path argv w = (r, v)" by fastforce
  show "\<exists>v. uthn (uexec sys path argv) n w = Some (Replaced, v) \<or> (\<exists>k. uthn (uexec sys path argv) n w = Some (Exited k, v))"
    by (rule leavesE[OF assms, of v]; cases r) (simp_all add: uexec_def umon r)
qed

fun fmt_strs :: "bool \<Rightarrow> byte list \<Rightarrow> nat \<Rightarrow> bool" where
  "fmt_strs st [] n = True"
| "fmt_strs False (c # f) n = fmt_strs (c = 37) f n"
| "fmt_strs True (c # f) n = (c = 115 \<and> 0 < n \<and> fmt_strs False f (n - 1))"

lemma ends_each: "(\<And>x. ends (b x)) \<Longrightarrow> ends (ueach xs b)"
  by (induction xs) (simp_all add: ends_uthn)

lemma ends_uputc: "ends (uputc sys fd c)"
  by (simp add: uputc_def ends_uthn)

lemma ends_vprintf: "fmt_strs st f (length ss) \<Longrightarrow> ends (vprintf sys fd st f (map AStr ss))"
proof (induction st f "length ss" arbitrary: ss rule: fmt_strs.induct)
  case (2 c f)
  then show ?case by (cases "c = 37") (simp_all add: ends_uthn ends_uputc)
next
  case (3 c f)
  then obtain s ss' where "ss = s # ss'" by (cases ss) auto
  then show ?case using 3 by (simp add: ends_uthn ends_uputc ends_each)
qed simp

lemma ends_printf: "fmt_strs False (ustr f) (length ss) \<Longrightarrow> ends (ufprintf sys fd (ustr f) (map (AStr \<circ> Some) ss))"
  using ends_vprintf[of False "ustr f" "map Some ss" sys fd] by (simp add: ufprintf_def)

lemma shell_messages: "ends (ufprintf sys 2 (ustr ''%s\<newline>'') [AStr (Some s)])" "ends (ufprintf sys 2 (ustr ''exec %s failed\<newline>'') [AStr (Some s)])"
    "ends (ufprintf sys 2 (ustr ''open %s failed\<newline>'') [AStr (Some s)])" "ends (ufprintf sys 2 (ustr ''leftovers: %s\<newline>'') [AStr (Some s)])"
  by (rule ends_printf[of _ "[s]" sys 2, simplified], simp add: ustr_def)+

lemma leaves_shpanic: "leaves (shpanic sys s)"
  by (simp add: shpanic_def leaves_after shell_messages)

lemma shpanic_exits: "\<exists>v. shpanic sys s w = Some (Exited 1, v)"
  by (rule endsE[OF shell_messages(1)[of sys s], of w]) (simp add: shpanic_def umon)

text \<open>\<open>fork1\<close> gives a process id or ends the program.\<close>

lemma leaves_fork1: "(\<And>pid. leaves (k pid)) \<Longrightarrow> leaves (ubnd (fork1 sys) k)"
proof -
  assume k: "\<And>pid. leaves (k pid)"
  have "ubnd (fork1 sys) k w = ubnd (call (sys_fork sys)) (\<lambda>pid. if pid = - 1 then ubnd (shpanic sys (ustr ''fork'')) k else k pid) w" for w
    by (simp add: fork1_def umon split: option.split ures.split prod.split)
  then have e: "ubnd (fork1 sys) k = ubnd (call (sys_fork sys)) (\<lambda>pid. if pid = - 1 then ubnd (shpanic sys (ustr ''fork'')) k else k pid)"
    by (rule ext)
  have "leaves (ubnd (shpanic sys (ustr ''fork'')) k)"
    by (rule leaves_first[OF leaves_shpanic])
  then show ?thesis unfolding e by (intro leaves_bnd) (simp_all add: k)
qed

lemma leaves_say: "ends (ufprintf sys 2 f args) \<Longrightarrow> leaves n \<Longrightarrow> leaves (uthn (ufprintf sys 2 f args) n)"
  by (rule leaves_after)

lemma runcmd_leaves: "leaves (runcmd sys m c)"
  by (induction c)
    (auto intro!: leaves_bnd leaves_fork1 leaves_if leaves_call leaves_exec leaves_say shell_messages simp: leaves_shpanic leaves_now split: prod.split)

section \<open>Theorems\<close>

text \<open>
  C7: the words of a parsed command. Whenever the shell has parsed a line, every string the command refers to, an argument or a file name, is after \<open>nulterminate\<close> a C string equal to the
  word of the line it was taken from: not empty, free of blanks and operators, and not cut short or run together by the terminators written for the other words.
  A simple command has fewer than \<open>MAXARGS\<close> arguments, so that the null pointer behind them is within the array.
\<close>

theorem nulterminate_isolates_words:
  assumes "parse b = Parsed (Inr c)" "(q, e) \<in> set (spans c)" "0 \<notin> set b"
  shows "shstr (nulterminate c (b @ [0])) (q, e) = take (e - q) (drop q b) \<and> q < e \<and> e \<le> length b \<and> list_all wordch (take (e - q) (drop q b)) \<and> cmd_ok b c"
proof -
  have ok: "cmd_ok b c" using parse_result[of b] assms(1) by auto
  then have sp: "\<forall>sp\<in>set (spans c). span_ok b sp" by (simp add: spans_ok)
  have q: "span_ok b (q, e)" using sp assms(2) by blast
  have "list_all wordch (take (e - q) (drop q b))" using q by (auto simp: span_ok_def list_all_length)
  then show ?thesis using terminated[OF sp assms(2,3)] q ok by (simp add: nulterminate_fold span_ok_def)
qed

theorem nulterminate_isolates_words_witness:
  "shstr (nulterminate (Pipe (Exec [(0, 2), (3, 4)]) (Redir (Exec [(5, 7)]) (8, 9) 0x601 1)) (ustr ''ls .|wc>f'' @ [0])) (8, 9) = ustr ''f''"
proof -
  have "parse (ustr ''ls .|wc>f'') = Parsed (Inr (Pipe (Exec [(0, 2), (3, 4)]) (Redir (Exec [(5, 7)]) (8, 9) 0x601 1)))"
    by code_simp
  from nulterminate_isolates_words[OF this, of 8 9] show ?thesis by (simp add: ustr_def)
qed

text \<open>
  C36: the parser returns. On every line the recursive descent comes to an end, within the depth \<open>parse_fuel\<close>: the shell has a command, or it has printed a message and exits with status 1.
\<close>

theorem parsecmd_returns:
  "\<exists>v. parsecmd sys b w = Some (Exited 1, v) \<or> (\<exists>c m. parsecmd sys b w = Some (Done (c, m), v) \<and> cmd_ok b c)"
proof -
  have "\<exists>v. uthn (ufprintf sys 2 (ustr ''leftovers: %s\<newline>'') [AStr (Some rest)]) (shpanic sys (ustr ''syntax'')) w = Some (Exited 1, v)" for rest
  proof -
    obtain a u where u: "ufprintf sys 2 (ustr ''leftovers: %s\<newline>'') [AStr (Some rest)] w = Some (Done a, u)" by (rule endsE[OF shell_messages(4)])
    show ?thesis using shpanic_exits[of sys "ustr ''syntax''" u] by (simp add: umon u)
  qed
  note X = shpanic_exits[of sys _ w] this
  from parse_result[of b] consider e where "parse b = Syntax e" | rest where "parse b = Parsed (Inl rest)" | c where "parse b = Parsed (Inr c)" "cmd_ok b c" by blast
  then show ?thesis
  proof cases
    case (1 e)
    then show ?thesis using X(1)[of "ustr e"] by (auto simp: parsecmd_def)
  next
    case (2 rest)
    then show ?thesis using X(2)[of rest] by (auto simp: parsecmd_def simp del: uthn_apply)
  qed (simp add: parsecmd_def uret_apply)
qed

text \<open>
  C37: \<open>runcmd\<close> does not return. Whatever the system calls answer, the process that runs a command exits or becomes the program of the command.
\<close>

theorem runcmd_never_returns:
  "\<exists>v. runcmd sys m c w = Some (Replaced, v) \<or> (\<exists>k. runcmd sys m c w = Some (Exited k, v))"
  using runcmd_leaves[of sys m c] by (simp add: leaves_def)

end
