(* ===== verification/Umalloc.thy ===== *)
theory Umalloc
  imports Userland
begin

text \<open>
  The user library's memory allocator, \<^verbatim>\<open>umalloc.c\<close>: a circular list of free blocks, ordered by address. The headers are the functions \<open>h_ptr\<close> and \<open>h_size\<close> of their
  addresses; a header takes 16 bytes, and sizes count headers. \<open>base\<close> is the address of the static header.
\<close>

record uheap =
  h_ptr :: "u64 \<Rightarrow> u64"
  h_size :: "u64 \<Rightarrow> u32"
  freep :: u64

text \<open>Arithmetic on \<open>Header*\<close>.\<close>

definition hdr_add :: "u64 \<Rightarrow> u32 \<Rightarrow> u64" where
  "hdr_add p n = p + 16 * ucast n"

definition set_ptr :: "u64 \<Rightarrow> u64 \<Rightarrow> uheap \<Rightarrow> uheap" where
  "set_ptr p q h = h\<lparr>h_ptr := (h_ptr h)(p := q)\<rparr>"

definition set_size :: "u64 \<Rightarrow> u32 \<Rightarrow> uheap \<Rightarrow> uheap" where
  "set_size p n h = h\<lparr>h_size := (h_size h)(p := n)\<rparr>"

section \<open>free\<close>

text \<open>The free block behind which the block \<open>bp\<close> belongs; the search need not end on a list that is not circular.\<close>

partial_function (option) free_scan :: "uheap \<Rightarrow> u64 \<Rightarrow> u64 \<Rightarrow> u64 option" where
  "free_scan h bp p =
     (if p < bp \<and> bp < h_ptr h p then Some p
      else if h_ptr h p \<le> p \<and> (p < bp \<or> bp < h_ptr h p) then Some p
      else free_scan h bp (h_ptr h p))"

declare free_scan.simps [code]

definition free_join_next :: "u64 \<Rightarrow> u64 \<Rightarrow> uheap \<Rightarrow> uheap" where
  "free_join_next bp p h =
     (if hdr_add bp (h_size h bp) = h_ptr h p
      then set_ptr bp (h_ptr h (h_ptr h p)) (set_size bp (h_size h bp + h_size h (h_ptr h p)) h)
      else set_ptr bp (h_ptr h p) h)"

definition free_join_prev :: "u64 \<Rightarrow> u64 \<Rightarrow> uheap \<Rightarrow> uheap" where
  "free_join_prev bp p h =
     (if hdr_add p (h_size h p) = bp
      then set_ptr p (h_ptr h bp) (set_size p (h_size h p + h_size h bp) h)
      else set_ptr p bp h)"

definition ufree :: "u64 \<Rightarrow> uheap \<Rightarrow> uheap option" where
  "ufree ap h =
     (let bp = ap - 16 in
      Option.bind (free_scan h bp (freep h)) (\<lambda>p.
      Some ((free_join_prev bp p (free_join_next bp p h))\<lparr>freep := p\<rparr>)))"

section \<open>malloc\<close>

text \<open>The result is null when \<open>sbrk\<close> fails, and the heap after the call.\<close>

definition morecore :: "'w sys \<Rightarrow> u32 \<Rightarrow> uheap \<Rightarrow> ('w, u64 \<times> uheap) user" where
  "morecore sys nu h =
     (let nu = (if nu < 4096 then 4096 else nu) in
      ubnd (call (sys_sbrk sys (sint (nu * 16)))) (\<lambda>p.
      case p of None \<Rightarrow> uret (0, h) | Some hp \<Rightarrow>
      (\<lambda>w. Option.bind (ufree (hp + 16) (set_size hp nu h)) (\<lambda>h. uret (freep h, h) w))))"

definition malloc_take :: "u32 \<Rightarrow> u64 \<Rightarrow> u64 \<Rightarrow> uheap \<Rightarrow> u64 \<times> uheap" where
  "malloc_take nunits prevp p h =
     (let (p, h) = (if h_size h p = nunits then (p, set_ptr prevp (h_ptr h p) h)
                    else let h = set_size p (h_size h p - nunits) h; q = hdr_add p (h_size h p) in (q, set_size q nunits h))
      in (hdr_add p 1, h\<lparr>freep := prevp\<rparr>))"

definition malloc_one :: "'w sys \<Rightarrow> u32 \<Rightarrow> u64 \<times> u64 \<times> uheap \<Rightarrow> ('w, u64 \<times> u64 \<times> uheap + u64 \<times> uheap) user" where
  "malloc_one sys nunits = (\<lambda>(prevp, p, h).
     if nunits \<le> h_size h p then uret (Inr (malloc_take nunits prevp p h))
     else if p = freep h then
       ubnd (morecore sys nunits h) (\<lambda>(p, h).
       if p = 0 then uret (Inr (0, h)) else uret (Inl (p, h_ptr h p, h)))
     else uret (Inl (p, h_ptr h p, h)))"

definition malloc_units :: "u32 \<Rightarrow> u32" where
  "malloc_units nbytes = ucast ((ucast nbytes + 16 - 1) div 16 + 1 :: u64)"

definition umalloc :: "'w sys \<Rightarrow> u64 \<Rightarrow> u32 \<Rightarrow> uheap \<Rightarrow> ('w, u64 \<times> uheap) user" where
  "umalloc sys base nbytes h =
     (let nunits = malloc_units nbytes;
          h = (if freep h = 0 then set_size base 0 (set_ptr base base (h\<lparr>freep := base\<rparr>)) else h)
      in uloop (malloc_one sys nunits) (freep h, h_ptr h (freep h), h))"

end
