(* ===== verification/Mkfs.thy ===== *)
theory Mkfs
  imports Dir
begin

text \<open>
  The program that makes the file system image, \<^verbatim>\<open>src/mkfs/mkfs.c\<close>. The image file is the list of its blocks; a function that dies or fails an assertion
  gives \<open>Inl\<close>. \<open>struct dinode\<close> has the layout of the kernel (\<open>dinode_get\<close>, \<open>dinode_put\<close>), and the host's integers are little-endian, so that a field assigned \<open>xint(x)\<close> is
  stored as the bytes of \<open>x\<close>. \<open>freeinode\<close>, \<open>freeblock\<close> and \<open>off\<close> stay far below the width of \<open>uint\<close>: blocks have to exist in the image, and \<open>off\<close> is at most the
  size of the largest file.
\<close>

section \<open>State\<close>

record mkstate =
  img :: "bdata list"
  freeinode :: nat
  freeblock :: nat

datatype mkerr = Die string | Assertion string

type_synonym 'a mk = "mkstate \<Rightarrow> mkerr + 'a \<times> mkstate"

definition mret :: "'a \<Rightarrow> 'a mk" where
  "mret a = (\<lambda>s. Inr (a, s))"

definition mbnd :: "'a mk \<Rightarrow> ('a \<Rightarrow> 'b mk) \<Rightarrow> 'b mk" where
  "mbnd m k = (\<lambda>s. case m s of Inl e \<Rightarrow> Inl e | Inr (a, s) \<Rightarrow> k a s)"

definition mthn :: "unit mk \<Rightarrow> 'b mk \<Rightarrow> 'b mk" where
  "mthn m n = mbnd m (\<lambda>_. n)"

definition die :: "string \<Rightarrow> 'a mk" where
  "die e = (\<lambda>s. Inl (Die e))"

definition assertM :: "bool \<Rightarrow> string \<Rightarrow> unit mk" where
  "assertM b e = (\<lambda>s. if b then Inr ((), s) else Inl (Assertion e))"

fun meach :: "'i list \<Rightarrow> ('i \<Rightarrow> unit mk) \<Rightarrow> unit mk" where
  "meach [] b = mret ()"
| "meach (i # is) b = mthn (b i) (meach is b)"

section \<open>Layout\<close>

definition NINODES :: nat where "NINODES = 200"
definition nbitmap :: nat where "nbitmap = FSSIZE div (BSIZE * 8) + 1"
definition ninodeblocks :: nat where "ninodeblocks = NINODES div IPB + 1"
definition nlog :: nat where "nlog = LOGSIZE"
definition nmeta :: nat where "nmeta = 2 + nlog + ninodeblocks + nbitmap"
definition nblocks :: nat where "nblocks = FSSIZE - nmeta"

definition mksb :: superblock where
  "mksb = \<lparr>sb_magic = FSMAGIC, sb_size = FSSIZE, sb_nblocks = nblocks, sb_ninodes = NINODES, sb_nlog = nlog, sb_logstart = 2,
     sb_inodestart = 2 + nlog, sb_bmapstart = 2 + nlog + ninodeblocks\<rparr>"

definition xshort :: "u16 \<Rightarrow> u16" where
  "xshort x = le16 ((\<lambda>_ :: nat. 0)(0 := ucast x, 1 := ucast (drop_bit 8 x))) 0"

definition xint :: "u32 \<Rightarrow> u32" where
  "xint x = le32 ((\<lambda>_ :: nat. 0)(0 := ucast x, 1 := ucast (drop_bit 8 x), 2 := ucast (drop_bit 16 x), 3 := ucast (drop_bit 24 x))) 0"

section \<open>Blocks and inodes\<close>

definition zeroes :: bdata where "zeroes = (\<lambda>_. 0)"

text \<open>Writing behind the end of the image extends it, with a hole of zeroes in between; reading there gives too few bytes.\<close>

definition wsect :: "nat \<Rightarrow> bdata \<Rightarrow> unit mk" where
  "wsect sec b = (\<lambda>s. Inr ((), s\<lparr>img := (img s @ replicate (Suc sec - length (img s)) zeroes)[sec := b]\<rparr>))"

definition rsect :: "nat \<Rightarrow> bdata mk" where
  "rsect sec = (\<lambda>s. if sec < length (img s) then Inr (img s ! sec, s) else Inl (Die ''read''))"

definition din0 :: inode where
  "din0 = \<lparr>i_dev = 0, i_inum = 0, i_ref = 0, i_valid = False, i_type = 0, i_major = 0, i_minor = 0, i_nlink = 0, i_size = 0, i_addrs = (\<lambda>_. 0)\<rparr>"

definition winode :: "nat \<Rightarrow> inode \<Rightarrow> unit mk" where
  "winode inum ip =
     (let bn = IBLOCK inum mksb in
      mbnd (rsect bn) (\<lambda>b.
      wsect bn (dinode_put b (dinode_off inum) ip)))"

definition rinode :: "nat \<Rightarrow> inode mk" where
  "rinode inum =
     (let bn = IBLOCK inum mksb in
      mbnd (rsect bn) (\<lambda>b. mret (dinode_get b (dinode_off inum) din0)))"

definition mk_ialloc :: "u16 \<Rightarrow> nat mk" where
  "mk_ialloc ty = (\<lambda>s.
     let inum = freeinode s in
     mthn (winode inum (din0\<lparr>i_type := xshort ty, i_nlink := xshort 1, i_size := xint 0\<rparr>)) (mret inum)
       (s\<lparr>freeinode := freeinode s + 1\<rparr>))"

definition mk_balloc :: "nat \<Rightarrow> unit mk" where
  "mk_balloc used =
     mthn (assertM (used < BSIZE * 8) ''used < BSIZE*8'') (
     let b = fold (\<lambda>i b. b(i div 8 := b (i div 8) OR push_bit (i mod 8) 1)) [0..<used] zeroes in
     wsect (sb_bmapstart mksb) b)"

definition next_block :: "nat mk" where
  "next_block = (\<lambda>s. Inr (freeblock s, s\<lparr>freeblock := freeblock s + 1\<rparr>))"

definition xaddr :: "nat \<Rightarrow> nat" where
  "xaddr n = unat (xint (of_nat n))"

text \<open>The block that holds the bytes of block \<open>fbn\<close> of a file, and the inode after its allocation.\<close>

definition iappend_block :: "inode \<Rightarrow> nat \<Rightarrow> (inode \<times> nat) mk" where
  "iappend_block din fbn =
     (if fbn < NDIRECT then
        mbnd (if xaddr (i_addrs din fbn) = 0 then mbnd next_block (\<lambda>n. mret (din\<lparr>i_addrs := (i_addrs din)(fbn := xaddr n)\<rparr>)) else mret din) (\<lambda>din.
        mret (din, xaddr (i_addrs din fbn)))
      else
        mbnd (if xaddr (i_addrs din NDIRECT) = 0 then mbnd next_block (\<lambda>n. mret (din\<lparr>i_addrs := (i_addrs din)(NDIRECT := xaddr n)\<rparr>)) else mret din) (\<lambda>din.
        mbnd (rsect (xaddr (i_addrs din NDIRECT))) (\<lambda>indirect.
        mbnd (if le32 indirect (4 * (fbn - NDIRECT)) = 0 then
                mbnd next_block (\<lambda>n.
                let indirect = put32 indirect (4 * (fbn - NDIRECT)) (xint (of_nat n)) in
                mthn (wsect (xaddr (i_addrs din NDIRECT)) indirect) (mret indirect))
              else mret indirect) (\<lambda>indirect.
        mret (din, unat (xint (le32 indirect (4 * (fbn - NDIRECT)))))))))"

function iappend_loop :: "inode \<Rightarrow> nat \<Rightarrow> byte list \<Rightarrow> (inode \<times> nat) mk" where
  "iappend_loop din off p =
     (if p = [] then mret (din, off) else
      let fbn = off div BSIZE; n1 = min (length p) ((fbn + 1) * BSIZE - off) in
      mthn (assertM (fbn < MAXFILE) ''fbn < MAXFILE'') (
      mbnd (iappend_block din fbn) (\<lambda>(din, x).
      mbnd (rsect x) (\<lambda>b.
      mthn (wsect x (splice b (off - fbn * BSIZE) n1 (\<lambda>i. p ! i)))
      (iappend_loop din (off + n1) (drop n1 p))))))"
  by pat_completeness auto
termination
proof (relation "measure (\<lambda>(_, _, p). length p)", goal_cases)
  case (2 din off p fbn n1 din' x b)
  have "off < (off div BSIZE + 1) * BSIZE" using div_mult_mod_eq[of off BSIZE] mod_less_divisor[of BSIZE off] by (simp add: BSIZE_def)
  then show ?case using 2 by auto
qed simp

declare iappend_loop.simps [simp del]

definition iappend :: "nat \<Rightarrow> byte list \<Rightarrow> unit mk" where
  "iappend inum xp =
     mbnd (rinode inum) (\<lambda>din.
     mbnd (iappend_loop din (unat (xint (i_size din))) xp) (\<lambda>(din, off).
     winode inum (din\<lparr>i_size := xint (of_nat off)\<rparr>)))"

section \<open>The program\<close>

definition dirent_bytes :: "nat \<Rightarrow> byte list \<Rightarrow> byte list" where
  "dirent_bytes inum name =
     (let x = xshort (of_nat inum) in
      ucast x # ucast (drop_bit 8 x) # take DIRSIZ (name @ replicate DIRSIZ 0))"

text \<open>The name under which an argument is stored: without the leading directory and without the leading underscore.\<close>

definition user_dir :: "byte list" where
  "user_dir = [117, 115, 101, 114, 47]"

definition strip_dir :: "byte list \<Rightarrow> byte list" where
  "strip_dir arg = (if take 5 arg = user_dir then drop 5 arg else arg)"

definition strip_underscore :: "byte list \<Rightarrow> byte list" where
  "strip_underscore name = (if name \<noteq> [] \<and> hd name = 95 then tl name else name)"

text \<open>A file of the host is the list of the pieces that \<open>read\<close> hands out.\<close>

definition mkfs_file :: "(byte list \<Rightarrow> byte list list option) \<Rightarrow> nat \<Rightarrow> byte list \<Rightarrow> unit mk" where
  "mkfs_file host rootino arg =
     (let shortname = strip_dir arg in
      mthn (assertM (SLASH \<notin> set shortname) ''index(shortname)'') (
      case host arg of None \<Rightarrow> die (map (\<lambda>c. char_of (unat c)) arg) | Some pieces \<Rightarrow>
      let shortname = strip_underscore shortname in
      mbnd (mk_ialloc T_FILE) (\<lambda>inum.
      mthn (iappend rootino (dirent_bytes inum shortname))
      (meach pieces (iappend inum)))))"

definition mkfs_root_size :: "nat \<Rightarrow> unit mk" where
  "mkfs_root_size rootino =
     mbnd (rinode rootino) (\<lambda>din.
     let off = unat (xint (i_size din)); off = (off div BSIZE + 1) * BSIZE in
     winode rootino (din\<lparr>i_size := xint (of_nat off)\<rparr>))"

definition sb_bytes :: "superblock \<Rightarrow> bdata \<Rightarrow> bdata" where
  "sb_bytes sb b =
     put32 (put32 (put32 (put32 (put32 (put32 (put32 (put32 b 0 (sb_magic sb)) 4 (xint (of_nat (sb_size sb)))) 8 (xint (of_nat (sb_nblocks sb))))
       12 (xint (of_nat (sb_ninodes sb)))) 16 (xint (of_nat (sb_nlog sb)))) 20 (xint (of_nat (sb_logstart sb)))) 24 (xint (of_nat (sb_inodestart sb))))
       28 (xint (of_nat (sb_bmapstart sb)))"

definition mkfs_main :: "(byte list \<Rightarrow> byte list list option) \<Rightarrow> byte list list \<Rightarrow> unit mk" where
  "mkfs_main host args =
     mthn (\<lambda>s. Inr ((), s\<lparr>freeblock := nmeta\<rparr>)) (
     mthn (meach [0..<FSSIZE] (\<lambda>i. wsect i zeroes)) (
     mthn (wsect 1 (sb_bytes mksb zeroes)) (
     mbnd (mk_ialloc T_DIR) (\<lambda>rootino.
     mthn (assertM (rootino = ROOTINO) ''rootino == ROOTINO'') (
     mthn (iappend rootino (dirent_bytes rootino [46])) (
     mthn (iappend rootino (dirent_bytes rootino [46, 46])) (
     mthn (meach args (mkfs_file host rootino)) (
     mthn (mkfs_root_size rootino) (
     (\<lambda>s. mk_balloc (freeblock s) s))))))))))"

text \<open>The state at the start of the program: an image file that was just created or truncated.\<close>

definition mkstate0 :: mkstate where
  "mkstate0 = \<lparr>img = [], freeinode = 1, freeblock = 0\<rparr>"

end
