(* ===== verification/Fsops.thy ===== *)
theory Fsops
  imports Fs
begin

text \<open>
  The block and inode layers of \<^verbatim>\<open>fs.c\<close> inside a transaction. The state of the file system is \<open>content\<close>, the map from block numbers to bytes that the buffer cache
  implements; every operation is shown as a change of that map, with the blocks it adds to the transaction.
\<close>

section \<open>Updating one block\<close>

lemma op_clean: "in_op s st B \<Longrightarrow> bn \<notin> set B \<Longrightarrow> bn \<notin> held s \<Longrightarrow> content s bn = disk_img s bn"
  by (rule clean_content) (auto simp: in_op_def)

abbreviation logging :: "nat \<Rightarrow> nat list \<Rightarrow> nat list" where
  "logging bn B \<equiv> (if bn \<in> set B then B else B @ [bn])"

lemma op_update:
  assumes "in_op s st B" "held s = {}" "2 * bn < 2 ^ 32" "log_room st bn" "length B < LOGSIZE - 1"
  obtains i a b c t where "bread ROOTDEV bn s = Ok i a" "b_data (bufs a i) = content s bn"
    "setb i (\<lambda>b. b\<lparr>b_data := g (b_data b)\<rparr>) a = Ok () b" "log_write i b = Ok () c" "brelse i c = Ok () t" "op_frame s a"
    "in_op t st (logging bn B)" "op_frame s t" "content t = (content s)(bn := g (content s bn))" "held t = {}"
    "disk_img t = disk_img s" "disk_hist t = disk_hist s"
proof -
  have nh: "bn \<notin> held s" using assms(2) by simp
  have room: "bn \<in> set B \<or> card (set B \<union> held s) < NBUF"
    using assms(2,5) card_length[of B] by (simp add: param_defs)
  obtain i a where a: "bread ROOTDEV bn s = Ok i a" "in_op a st B" "io_frame s a" "slot a bn = Some i" "content a = content s"
      "held a = insert bn (held s)" "disk_img a = disk_img s" "disk_hist a = disk_hist s" "b_data (bufs a i) = content s bn"
    by (rule op_bread[OF assms(1,3) nh room]) (rule that)
  have "bn \<in> held a" using a(6) by simp
  then obtain b where b: "setb i (\<lambda>b. b\<lparr>b_data := g (b_data b)\<rparr>) a = Ok () b" "in_op b st B" "io_frame a b" "slot b = slot a"
      "content b = (content a)(bn := g (content a bn))" "held b = held a" "disk_img b = disk_img a" "disk_hist b = disk_hist a"
    by (rule op_setb[OF a(2,4), of g]) (rule that)
  have hb: "slot b bn = Some i" "bn \<in> held b" using a(4,6) b(4,6) by simp_all
  obtain c where c: "log_write i b = Ok () c" "in_op c st (logging bn B)" "op_frame b c" "slot c = slot b"
      "content c = content b" "held c = held b" "disk_img c = disk_img b" "disk_hist c = disk_hist b"
    by (rule op_log_write[OF b(2) hb assms(4,5)]) (rule that)
  have hc: "slot c bn = Some i" "bn \<in> held c" "bn \<in> set (logging bn B) \<or> content c bn = disk_img c bn" using hb c(4,6) by simp_all
  obtain t where t: "brelse i c = Ok () t" "in_op t st (logging bn B)" "io_frame c t" "slot t = slot c" "content t = content c"
      "held t = held c - {bn}" "disk_img t = disk_img c" "disk_hist t = disk_hist c"
    by (rule op_brelse[OF c(2) hc]) (rule that)
  have f: "op_frame s a" "op_frame s t"
    by (rule io_op_frame[OF a(3)])
      (rule op_frame_trans[OF op_frame_trans[OF op_frame_trans[OF io_op_frame[OF a(3)] io_op_frame[OF b(3)]] c(3)] io_op_frame[OF t(3)]])
  show thesis
    by (rule that[OF a(1,9) b(1) c(1) t(1) f(1) t(2) f(2)]) (use a(5-8) b(5-8) c(5-8) t(5-8) assms(2) in simp_all)
qed

text \<open>Looking at a block: it is locked, read and released.\<close>

lemma op_look:
  assumes "in_op s st B" "held s = {}" "2 * bn < 2 ^ 32" "length B < LOGSIZE"
  obtains i a t where "bread ROOTDEV bn s = Ok i a" "b_data (bufs a i) = content s bn" "brelse i a = Ok () t" "in_op a st B" "slot a bn = Some i"
    "held a = {bn}" "op_frame s a" "content a = content s" "disk_img a = disk_img s" "in_op t st B" "op_frame s t" "content t = content s" "held t = {}" "disk_img t = disk_img s" "disk_hist t = disk_hist s"
proof -
  have nh: "bn \<notin> held s" using assms(2) by simp
  have room: "bn \<in> set B \<or> card (set B \<union> held s) < NBUF"
    using assms(2,4) card_length[of B] by (simp add: param_defs)
  obtain i a where a: "bread ROOTDEV bn s = Ok i a" "in_op a st B" "io_frame s a" "slot a bn = Some i" "content a = content s"
      "held a = insert bn (held s)" "disk_img a = disk_img s" "disk_hist a = disk_hist s" "b_data (bufs a i) = content s bn"
    by (rule op_bread[OF assms(1,3) nh room]) (rule that)
  have h: "bn \<in> held a" "bn \<in> set B \<or> content a bn = disk_img a bn"
    using a(5-7) op_clean[OF assms(1), of bn] assms(2) by auto
  obtain t where t: "brelse i a = Ok () t" "in_op t st B" "io_frame a t" "slot t = slot a" "content t = content a"
      "held t = held a - {bn}" "disk_img t = disk_img a" "disk_hist t = disk_hist a"
    by (rule op_brelse[OF a(2,4) h]) (rule that)
  have f: "op_frame s t" using op_frame_trans[OF io_op_frame[OF a(3)] io_op_frame[OF t(3)]] .
  show thesis
    by (rule that[OF a(1,9) t(1) a(2,4) _ io_op_frame[OF a(3)] a(5,7) t(2) f]) (use a(5-8) t(5-8) assms(2) in simp_all)
qed

lemma bzero_spec:
  assumes "in_op s st B" "held s = {}" "2 * bn < 2 ^ 32" "log_room st bn" "length B < LOGSIZE - 1"
  obtains t where "bzero ROOTDEV bn s = Ok () t" "in_op t st (logging bn B)" "op_frame s t" "held t = {}"
    "content t = (content s)(bn := memset (content s bn) 0 0 BSIZE)"
proof -
  obtain i a b c t where "bread ROOTDEV bn s = Ok i a" "setb i (\<lambda>b. b\<lparr>b_data := memset (b_data b) 0 0 BSIZE\<rparr>) a = Ok () b" "log_write i b = Ok () c" "brelse i c = Ok () t"
    and t: "in_op t st (logging bn B)" "op_frame s t" "content t = (content s)(bn := memset (content s bn) 0 0 BSIZE)" "held t = {}"
    by (rule op_update[OF assms, of "\<lambda>d. memset d 0 0 BSIZE"]) (rule that)
  then have r: "bzero ROOTDEV bn s = Ok () t" by (simp add: bzero_def kmon)
  show thesis by (rule that[OF r t(1,2,4,3)])
qed

text \<open>Many blocks in one transaction, and a transaction that is full.\<close>

lemma bzero_many:
  assumes "in_op s st B" "held s = {}" "distinct (B @ bs)" "\<forall>b\<in>set bs. log_room st b" "length B + length bs \<le> LOGSIZE - 1"
  shows "\<exists>t. foreach bs (bzero ROOTDEV) s = Ok () t \<and> in_op t st (B @ bs) \<and> held t = {}"
  using assms
proof (induction bs arbitrary: s B)
  case Nil
  then show ?case by (simp add: kmon)
next
  case (Cons b bs)
  have b: "2 * b < 2 ^ 32" "log_room st b" "length B < LOGSIZE - 1" "b \<notin> set B" using Cons.prems by (auto simp: log_room_def)
  obtain t where t: "bzero ROOTDEV b s = Ok () t" "in_op t st (logging b B)" "held t = {}"
    by (rule bzero_spec[OF Cons.prems(1,2) b(1-3)]) (rule that)
  have "\<exists>u. foreach bs (bzero ROOTDEV) t = Ok () u \<and> in_op u st ((B @ [b]) @ bs) \<and> held u = {}"
    by (rule Cons.IH) (use t(2,3) b(4) Cons.prems in simp_all)
  then show ?case using foreach_step[where b = "bzero ROOTDEV", OF t(1)] by simp
qed

lemma bzero_full:
  assumes "in_op s st B" "held s = {}" "2 * bn < 2 ^ 32" "length B = LOGSIZE - 1"
  shows "bzero ROOTDEV bn s = Panic ''too big a transaction''"
proof -
  have room: "bn \<notin> held s" "bn \<in> set B \<or> card (set B \<union> held s) < NBUF"
    using assms(2,4) card_length[of B] by (simp_all add: param_defs)
  obtain i a where a: "bread ROOTDEV bn s = Ok i a" "in_op a st B" "slot a bn = Some i" "held a = insert bn (held s)"
    by (rule op_bread[OF assms(1,3) room]) (rule that)
  have "bn \<in> held a" using a(4) by simp
  then obtain b where b: "setb i (\<lambda>b. b\<lparr>b_data := memset (b_data b) 0 0 BSIZE\<rparr>) a = Ok () b" "in_op b st B"
    by (rule op_setb[OF a(2,3), of "\<lambda>d. memset d 0 0 BSIZE"]) (rule that)
  have "log_write i b = Panic ''too big a transaction''"
    using b(2) assms(4) io_invD(1)[of b] by (simp add: in_op_def log_write_def kmon)
  then show ?thesis using a(1) b(1) by (simp add: bzero_def kmon)
qed

lemma begin_three:
  assumes "logged s st []" "rc s = (\<lambda>_. 0)" "log_size (klog s) = int LOGSIZE" "log_outstanding (klog s) = 0" "\<not> log_committing (klog s)"
    and "2 * (st + LOGSIZE) < 2 ^ 32"
  shows "\<exists>t. thn begin_op (thn begin_op begin_op) s = Ok () t \<and> in_op t st [] \<and> held t = {} \<and> log_outstanding (klog t) = 3"
proof -
  note L = assms(1)[unfolded logged_def]
  have "quiet s" using L by (blast dest: io_invD)
  then have "thn begin_op (thn begin_op begin_op) s = Ok () (sync (s\<lparr>klog := (klog s)\<lparr>log_outstanding := 3\<rparr>\<rparr>))"
    using L assms(4,5) by (simp add: begin_op_admit kmon param_defs)
  moreover have "in_op (sync (s\<lparr>klog := (klog s)\<lparr>log_outstanding := 3\<rparr>\<rparr>)) st []"
    using L assms(2,3,5,6) by (simp add: in_op_def param_defs)
  ultimately show ?thesis using L by simp
qed

section \<open>On-disk inodes\<close>

lemma fold_put32_out:
  "p < base \<or> base + 4 * n \<le> p \<Longrightarrow> fold (\<lambda>k d. put32 d (base + 4 * k) (f k)) [0..<n] d p = d (p :: nat)"
  by (induction n) (auto simp: put32_def)

lemma fold_put32_in:
  "k < n \<Longrightarrow> le32 (fold (\<lambda>k d. put32 d (base + 4 * k) (f k)) [0..<n] d) (base + 4 * k :: nat) = f k"
proof (induction n)
  case (Suc n)
  show ?case
  proof (cases "k = n")
    case False
    then have "k < n" using Suc.prems by simp
    then have "base + 4 * k + 4 \<le> base + 4 * n" by simp
    then show ?thesis using Suc.IH[OF \<open>k < n\<close>] by (simp add: le32_put32_other_nat)
  qed simp
qed simp

lemma dinode_put_out: "p < off \<or> off + 64 \<le> p \<Longrightarrow> dinode_put d off i p = d p"
  unfolding dinode_put_def using fold_put32_out[of p "off + 12" "NDIRECT + 1"]
  by (auto simp: NDIRECT_def put32_def put16_def)

lemma le16_cong: "m a = m' a \<Longrightarrow> m (a + 1) = m' (a + 1) \<Longrightarrow> le16 m a = le16 m' (a :: nat)"
  by (simp add: le16_def)

lemma le32_cong:
  assumes "\<And>j. j < 4 \<Longrightarrow> m (a + j) = m' (a + j)" shows "le32 m a = le32 m' (a :: nat)"
  using assms[of 0] assms[of 1] assms[of 2] assms[of 3] by (simp add: le32_def)

lemma dinode_get_cong:
  assumes "\<And>p. off \<le> p \<Longrightarrow> p < off + 64 \<Longrightarrow> d p = d' p"
  shows "dinode_get d off j = dinode_get d' off j"
proof -
  have "le32 d (off + 12 + 4 * k) = le32 d' (off + 12 + 4 * k)" if "k < NDIRECT + 1" for k
    by (rule le32_cong) (use assms that in \<open>simp add: NDIRECT_def\<close>)
  moreover have "le32 d (off + 8) = le32 d' (off + 8)" by (rule le32_cong) (use assms in simp)
  moreover have "le16 d (off + m) = le16 d' (off + m)" if "m < 8" for m by (rule le16_cong) (use assms that in simp_all)
  from this[of 0] this[of 2] this[of 4] this[of 6]
  have "le16 d off = le16 d' off" "le16 d (off + 2) = le16 d' (off + 2)" "le16 d (off + 4) = le16 d' (off + 4)" "le16 d (off + 6) = le16 d' (off + 6)" by simp_all
  ultimately show ?thesis by (simp add: dinode_get_def cong: if_cong)
qed

text \<open>The fields of an inode that are on the disk, taken over from \<open>i\<close> into \<open>j\<close>.\<close>

definition same_dinode :: "inode \<Rightarrow> inode \<Rightarrow> inode" where
  "same_dinode i j = j\<lparr>i_type := i_type i, i_major := i_major i, i_minor := i_minor i, i_nlink := i_nlink i, i_size := i_size i,
     i_addrs := (\<lambda>k. if k < NDIRECT + 1 then i_addrs i k else i_addrs j k)\<rparr>"

lemma dinode_get_put:
  assumes "\<And>k. k < NDIRECT + 1 \<Longrightarrow> i_addrs i k < 2 ^ 32"
  shows "dinode_get (dinode_put d off i) off j = same_dinode i j"
proof -
  let ?h = "put32 (put16 (put16 (put16 (put16 d off (i_type i)) (off + 2) (i_major i)) (off + 4) (i_minor i)) (off + 6) (i_nlink i)) (off + 8) (i_size i)"
  have lo: "dinode_put d off i p = ?h p" if "p < off + 12" for p
    unfolding dinode_put_def by (rule fold_put32_out) (use that in simp)
  have "le16 (dinode_put d off i) a = le16 ?h a" if "a + 2 \<le> off + 12" for a by (rule le16_cong) (use lo that in simp_all)
  moreover have "le32 (dinode_put d off i) (off + 8) = le32 ?h (off + 8)" by (rule le32_cong) (use lo in simp)
  moreover have "le32 (dinode_put d off i) (off + 12 + 4 * k) = of_nat (i_addrs i k)" if "k < NDIRECT + 1" for k
    unfolding dinode_put_def by (rule fold_put32_in[OF that])
  moreover have "unat (of_nat (i_addrs i k) :: u32) = i_addrs i k" if "k < NDIRECT + 1" for k
    using assms[OF that] by (simp add: unat_of_nat)
  ultimately show ?thesis
    by (simp add: dinode_get_def same_dinode_def le16_put16_other_nat le16_put32_other_nat cong: if_cong)
qed

lemma dinode_off_apart: "i mod IPB \<noteq> j mod IPB \<Longrightarrow> dinode_off j \<le> p \<Longrightarrow> p < dinode_off j + 64 \<Longrightarrow> p < dinode_off i \<or> dinode_off i + 64 \<le> p"
  unfolding dinode_off_def by arith

lemma dinode_put_other:
  "i mod IPB \<noteq> j mod IPB \<Longrightarrow> dinode_get (dinode_put d (dinode_off i) v) (dinode_off j) w = dinode_get d (dinode_off j) w"
  by (rule dinode_get_cong) (rule dinode_put_out, rule dinode_off_apart)

lemma iupdate_spec:
  assumes "in_op s st B" "held s = {}" "i_dev (inodes s ip) = ROOTDEV" "bn = IBLOCK (i_inum (inodes s ip)) (sblk s)"
    "2 * bn < 2 ^ 32" "log_room st bn" "length B < LOGSIZE - 1"
  obtains t where "iupdate ip s = Ok () t" "in_op t st (logging bn B)" "op_frame s t" "held t = {}"
    "content t = (content s)(bn := dinode_put (content s bn) (dinode_off (i_inum (inodes s ip))) (inodes s ip))"
proof -
  let ?g = "\<lambda>d. dinode_put d (dinode_off (i_inum (inodes s ip))) (inodes s ip)"
  obtain i a b c t where "bread ROOTDEV bn s = Ok i a" "setb i (\<lambda>b. b\<lparr>b_data := ?g (b_data b)\<rparr>) a = Ok () b" "log_write i b = Ok () c" "brelse i c = Ok () t"
    and t: "in_op t st (logging bn B)" "op_frame s t" "content t = (content s)(bn := ?g (content s bn))" "held t = {}"
    by (rule op_update[OF assms(1,2,5-7), of ?g]) (rule that)
  then have r: "iupdate ip s = Ok () t" using assms(3,4) by (simp add: iupdate_def geti_def kmon)
  show thesis by (rule that[OF r t(1,2,4,3)])
qed

section \<open>The inode table\<close>

text \<open>The block store does not depend on the inode table and its locks.\<close>

lemma store_inodes [simp]:
  "slot (s\<lparr>inodes := x\<rparr>) = slot s" "content (s\<lparr>inodes := x\<rparr>) = content s" "held (s\<lparr>inodes := x\<rparr>) = held s" "in_op (s\<lparr>inodes := x\<rparr>) st B = in_op s st B"
proof -
  note c = store_cong[of "s\<lparr>inodes := x\<rparr>" s, simplified]
  show "slot (s\<lparr>inodes := x\<rparr>) = slot s" "content (s\<lparr>inodes := x\<rparr>) = content s" "held (s\<lparr>inodes := x\<rparr>) = held s" by (rule c(1,2,4))+
  show "in_op (s\<lparr>inodes := x\<rparr>) st B = in_op s st B" using c by (simp add: in_op_def io_inv_def disk_ok_def)
qed

lemma store_take_inode [simp]:
  "slot (take_sl (InodeSL ip) s) = slot s" "content (take_sl (InodeSL ip) s) = content s" "held (take_sl (InodeSL ip) s) = held s"
  "in_op (take_sl (InodeSL ip) s) st B = in_op s st B"
proof -
  let ?t = "take_sl (InodeSL ip) s"
  have u: "bufs ?t = bufs s" "disk_img ?t = disk_img s" "mypid ?t = mypid s" by (simp_all add: take_sl_def)
  have v: "slocks ?t (BufSL i) = slocks s (BufSL i)" for i by (simp add: take_sl_def)
  show sl: "slot ?t = slot s" by (rule ext) (simp add: slot_def u)
  show "content ?t = content s" by (rule ext) (simp add: content_def sl u split: option.split)
  show h: "held ?t = held s" by (simp add: held_def sl u v)
  have r: "rc ?t = rc s" by (rule ext) (simp add: rc_def sl u split: option.split)
  have "bnext ?t = bnext s" "bprev ?t = bprev s" by (rule links_cong; simp add: take_sl_def)+
  then have "lru ?t xs = lru s xs" for xs by (simp add: lru_def)
  then have "bcache_ok ?t = bcache_ok s" by (simp add: bcache_ok_def u v)
  moreover have "quiet ?t = quiet s" "disk_ok ?t = disk_ok s" "klog ?t = klog s" by (simp_all add: take_sl_def disk_ok_def)
  ultimately show "in_op ?t st B = in_op s st B" using h r by (simp add: in_op_def io_inv_def)
qed

lemma in_op_sync [simp]: "in_op (sync s) st B = in_op s st B"
  by (simp add: in_op_def)

lemma op_frame_slock: "op_frame s t \<Longrightarrow> slocks t (InodeSL ip) = slocks s (InodeSL ip)"
  by (simp add: op_frame_def other_sl_def)

text \<open>An inode that is not in memory yet is read from its block; one without a type is a panic.\<close>

lemma ilock_spec:
  assumes "in_op s st B" "held s = {}" "1 \<le> i_ref (inodes s ip)" "\<not> sl_locked (slocks s (InodeSL ip))" "\<not> i_valid (inodes s ip)" "i_dev (inodes s ip) = ROOTDEV"
    and bn: "bn = IBLOCK (i_inum (inodes s ip)) (sblk s)" "2 * bn < 2 ^ 32" and "length B < LOGSIZE"
    and j: "j = dinode_get (content s bn) (dinode_off (i_inum (inodes s ip))) (inodes s ip)"
  shows "if i_type j = 0 then ilock (Some ip) s = Panic ''ilock: no type''
    else \<exists>t. ilock (Some ip) s = Ok () t \<and> in_op t st B \<and> held t = {} \<and> content t = content s \<and> inodes t = (inodes s)(ip := j\<lparr>i_valid := True\<rparr>) \<and>
      sl_locked (slocks t (InodeSL ip)) \<and> sblk t = sblk s"
proof -
  let ?s = "sync (take_sl (InodeSL ip) s)"
  have q: "quiet s" using assms(1) unfolding in_op_def by (blast dest: io_invD)
  have a: "acquiresleep (InodeSL ip) s = Ok () ?s" by (rule acquiresleep_free[OF q assms(4)])
  have I: "inodes ?s = inodes s" "sblk ?s = sblk s" by (simp_all add: take_sl_def)
  have op: "in_op ?s st B" "held ?s = {}" using assms(1,2) by simp_all
  obtain i b where b: "bread ROOTDEV bn ?s = Ok i b" "b_data (bufs b i) = content ?s bn" "in_op b st B" "slot b bn = Some i" "held b = {bn}" "op_frame ?s b"
      "content b = content ?s" "disk_img b = disk_img ?s"
    by (rule op_look[OF op bn(2) assms(9)]) (rule that)
  let ?j = "dinode_get (content s bn) (dinode_off (i_inum (inodes s ip)))"
  let ?b = "b\<lparr>inodes := (inodes b)(ip := ?j (inodes b ip))\<rparr>"
  have B: "in_op ?b st B" "slot ?b bn = Some i" "bn \<in> held ?b" "bn \<in> set B \<or> content ?b bn = disk_img ?b bn"
    using b(3-5,7,8) op_clean[OF op(1), of bn] op(2) by auto
  obtain c where c: "brelse i ?b = Ok () c" "in_op c st B" "io_frame ?b c" "content c = content ?b" "held c = held ?b - {bn}"
    by (rule op_brelse[OF B]) (rule that)
  have f: "inodes b = inodes s" "sblk b = sblk s" "slocks b (InodeSL ip) = slocks ?s (InodeSL ip)" using op_frame_same(1,2)[OF b(6)] op_frame_slock[OF b(6)] I by simp_all
  have g: "inodes c = inodes ?b" "sblk c = sblk b" "slocks c (InodeSL ip) = slocks b (InodeSL ip)"
    using io_frame_same(2,3)[OF c(3)] op_frame_slock[OF io_op_frame[OF c(3)]] by simp_all
  have "ilock (Some ip) s = (if i_type j = 0 then Panic ''ilock: no type'' else Ok () (c\<lparr>inodes := (inodes c)(ip := (inodes c ip)\<lparr>i_valid := True\<rparr>)\<rparr>))"
    using assms(3,5,6) bn(1) a b(1,2) c(1) I f(1) g(1) j by (simp add: ilock_def geti_def seti_def getb_def kmon)
  moreover have "inodes c ip = j" using f(1) g(1) j by simp
  moreover have "sl_locked (slocks c (InodeSL ip))" using f(3) g(3) by (simp add: take_sl_def)
  ultimately show ?thesis using c(2,4,5) b(5,7) f g(1,2) by (auto simp: fun_upd_def)
qed

section \<open>The bitmap of used blocks\<close>

definition used :: "bdata \<Rightarrow> nat \<Rightarrow> bool" where
  "used d bi = bit (d (bi div 8)) (bi mod 8)"

definition set_used :: "bdata \<Rightarrow> nat \<Rightarrow> bdata" where
  "set_used d bi = d(bi div 8 := d (bi div 8) OR 2 ^ (bi mod 8))"

definition set_free :: "bdata \<Rightarrow> nat \<Rightarrow> bdata" where
  "set_free d bi = d(bi div 8 := d (bi div 8) AND NOT (2 ^ (bi mod 8)))"

text \<open>The blocks the bitmap says are free, in the file system with superblock \<open>sb\<close> and contents \<open>c\<close>.\<close>

definition free_block :: "superblock \<Rightarrow> (nat \<Rightarrow> bdata) \<Rightarrow> nat \<Rightarrow> bool" where
  "free_block sb c b = (\<not> used (c (BBLOCK b sb)) (b mod BPB))"

lemma used_mask: "d (bi div 8) AND 2 ^ (bi mod 8) = (0 :: byte) \<longleftrightarrow> \<not> used d bi"
  by (simp add: and_exp_eq_0_iff_not_bit used_def)

lemma div_mod_eq: "bi div 8 = bj div 8 \<Longrightarrow> bi mod 8 = bj mod 8 \<Longrightarrow> bi = (bj :: nat)"
  by (metis div_mult_mod_eq)

lemma byte_bits: "k < 8 \<Longrightarrow> bit (x OR 2 ^ k :: byte) n \<longleftrightarrow> n = k \<or> bit x n" "bit (x AND NOT (2 ^ k) :: byte) n \<longleftrightarrow> n \<noteq> k \<and> bit x n"
  by (auto simp: bit_or_iff bit_and_iff bit_not_iff bit_exp_iff dest: bit_imp_le_length)

lemma used_set_used: "used (set_used d bi) bj \<longleftrightarrow> bi = bj \<or> used d bj"
proof (cases "bi div 8 = bj div 8")
  case True
  then have "bj mod 8 = bi mod 8 \<longleftrightarrow> bi = bj" by (metis div_mod_eq)
  then show ?thesis by (simp add: used_def set_used_def byte_bits True)
qed (auto simp: used_def set_used_def)

lemma used_set_free: "used (set_free d bi) bj \<longleftrightarrow> bi \<noteq> bj \<and> used d bj"
proof (cases "bi div 8 = bj div 8")
  case True
  then have "bj mod 8 = bi mod 8 \<longleftrightarrow> bi = bj" by (metis div_mod_eq)
  then show ?thesis by (simp add: used_def set_free_def byte_bits True)
qed (auto simp: used_def set_free_def)

lemma set_free_used: "\<not> used d bi \<Longrightarrow> set_free (set_used d bi) bi = d"
proof -
  assume n: "\<not> used d bi"
  have "(x OR 2 ^ k) AND NOT (2 ^ k) = x" if "\<not> bit x k" "k < 8" for x :: byte and k
    using that by (intro bit_word_eqI) (auto simp: byte_bits)
  then show ?thesis using n by (simp add: set_free_def set_used_def used_def)
qed

lemma forl_find:
  assumes "\<And>i. i \<in> set is \<Longrightarrow> \<not> P i \<Longrightarrow> b i s = Ok None s"
  shows "find P is = None \<Longrightarrow> forl is b s = Ok None s"
    "find P is = Some i \<Longrightarrow> b i s = Ok (Some x) t \<Longrightarrow> forl is b s = Ok (Some x) t"
  using assms by (induction "is") (auto simp: kmon split: if_splits)

text \<open>Marking a block: its bit is set, and its bytes are cleared.\<close>

lemma balloc_bit_used: "used (b_data (bufs s bp)) bi \<Longrightarrow> balloc_bit dev bp b bi s = Ok None s"
  by (simp add: balloc_bit_def Let_def getb_def kmon used_mask)

lemma balloc_bit_free:
  assumes "in_op s st B" "slot s bm = Some bp" "held s = {bm}" "b_data (bufs s bp) = content s bm" "\<not> used (content s bm) bi"
    "log_room st bm" "length B < LOGSIZE - 2" "2 * (b + bi) < 2 ^ 32" "log_room st (b + bi)" "b + bi \<noteq> bm"
  obtains t where "balloc_bit ROOTDEV bp b bi s = Ok (Some (b + bi)) t" "in_op t st (logging (b + bi) (logging bm B))" "op_frame s t" "held t = {}"
    "content t = (content s)(bm := set_used (content s bm) bi, b + bi := memset (content s (b + bi)) 0 0 BSIZE)"
proof -
  let ?g = "\<lambda>d. set_used d bi"
  have h: "bm \<in> held s" using assms(3) by simp
  obtain u where u: "setb bp (\<lambda>b. b\<lparr>b_data := ?g (b_data b)\<rparr>) s = Ok () u" "in_op u st B" "io_frame s u" "slot u = slot s"
      "content u = (content s)(bm := ?g (content s bm))" "held u = held s"
    by (rule op_setb[OF assms(1,2) h, of ?g]) (rule that)
  have hu: "slot u bm = Some bp" "bm \<in> held u" using assms(2) h u(4,6) by simp_all
  have l: "length B < LOGSIZE - 1" using assms(7) by simp
  obtain v where v: "log_write bp u = Ok () v" "in_op v st (logging bm B)" "op_frame u v" "slot v = slot u" "content v = content u" "held v = held u"
    by (rule op_log_write[OF u(2) hu assms(6) l]) (rule that)
  have hv: "slot v bm = Some bp" "bm \<in> held v" "bm \<in> set (logging bm B) \<or> content v bm = disk_img v bm" using hu v(4,6) by simp_all
  obtain w where w: "brelse bp v = Ok () w" "in_op w st (logging bm B)" "io_frame v w" "content w = content v" "held w = held v - {bm}"
    by (rule op_brelse[OF v(2) hv]) (rule that)
  have hw: "held w = {}" "length (logging bm B) < LOGSIZE - 1" using w(5) v(6) u(6) assms(3,7) by (simp_all, arith)
  obtain t where t: "bzero ROOTDEV (b + bi) w = Ok () t" "in_op t st (logging (b + bi) (logging bm B))" "op_frame w t" "held t = {}"
      "content t = (content w)(b + bi := memset (content w (b + bi)) 0 0 BSIZE)"
    by (rule bzero_spec[OF w(2) hw(1) assms(8,9) hw(2)]) (rule that)
  have f: "op_frame s t"
    by (rule op_frame_trans[OF op_frame_trans[OF op_frame_trans[OF io_op_frame[OF u(3)] v(3)] io_op_frame[OF w(3)]] t(3)])
  have r: "balloc_bit ROOTDEV bp b bi s = Ok (Some (b + bi)) t"
    using u(1) v(1) w(1) t(1) assms(4,5) by (simp add: balloc_bit_def Let_def getb_def kmon used_mask set_used_def)
  show thesis by (rule that[OF r t(2) f t(4)]) (use t(5) w(4) v(5) u(5) assms(10) in simp)
qed

text \<open>
  \<open>bitmap_room sb st c\<close>: every block of the bitmap and every free block is a block of the disk outside the log, and no block of the bitmap is itself free.
\<close>

definition bitmap_room :: "superblock \<Rightarrow> nat \<Rightarrow> (nat \<Rightarrow> bdata) \<Rightarrow> bool" where
  "bitmap_room sb st c = (\<forall>b< sb_size sb. 2 * BBLOCK b sb < 2 ^ 32 \<and> log_room st (BBLOCK b sb) \<and>
     (free_block sb c b \<longrightarrow> 2 * b < 2 ^ 32 \<and> log_room st b \<and> (\<forall>b'< sb_size sb. BBLOCK b' sb \<noteq> b)))"

definition balloc_post :: "kstate \<Rightarrow> nat \<Rightarrow> nat list \<Rightarrow> nat \<Rightarrow> kstate \<Rightarrow> bool" where
  "balloc_post s st B b t = (in_op t st (logging b (logging (BBLOCK b (sblk s)) B)) \<and> op_frame s t \<and> held t = {} \<and>
     content t = (content s)(BBLOCK b (sblk s) := set_used (content s (BBLOCK b (sblk s))) (b mod BPB), b := memset (content s b) 0 0 BSIZE))"

lemma BPB_pos: "0 < BPB"
  by (simp add: BPB_def BSIZE_def)

lemma BBLOCK_base: "bi < BPB \<Longrightarrow> BBLOCK (k * BPB + bi) sb = BBLOCK (k * BPB) sb" "bi < BPB \<Longrightarrow> (k * BPB + bi) mod BPB = bi"
  using BPB_pos by (simp_all add: BBLOCK_def)

lemma balloc_block_spec:
  assumes "in_op s st B" "held s = {}" "bitmap_room (sblk s) st (content s)" "length B < LOGSIZE - 2" "b = k * BPB" "b < sb_size (sblk s)"
    and r: "r = find (free_block (sblk s) (content s)) (map ((+) b) [0..<min BPB (sb_size (sblk s) - b)])"
  shows "\<exists>t. balloc_block ROOTDEV b s = Ok r t \<and> (case r of
      None \<Rightarrow> in_op t st B \<and> op_frame s t \<and> held t = {} \<and> content t = content s | Some x \<Rightarrow> balloc_post s st B x t)"
proof -
  let ?sb = "sblk s" and ?n = "min BPB (sb_size (sblk s) - b)"
  let ?bm = "BBLOCK b ?sb"
  have bm: "2 * ?bm < 2 ^ 32" "log_room st ?bm" using assms(3,6) by (auto simp: bitmap_room_def)
  have lB: "length B < LOGSIZE" using assms(4) by simp
  obtain i a u where a: "bread ROOTDEV ?bm s = Ok i a" "b_data (bufs a i) = content s ?bm" "brelse i a = Ok () u" "in_op a st B" "slot a ?bm = Some i"
      "held a = {?bm}" "op_frame s a" "content a = content s"
    and u: "in_op u st B" "op_frame s u" "content u = content s" "held u = {}"
    by (rule op_look[OF assms(1,2) bm(1) lB]) (rule that)
  have fb: "free_block ?sb (content s) (b + bi) \<longleftrightarrow> \<not> used (content s ?bm) bi" if "bi < BPB" for bi
    using that assms(5) by (simp add: free_block_def BBLOCK_base)
  have skip: "balloc_bit ROOTDEV i b bi a = Ok None a" if "bi \<in> set [0..<?n]" "\<not> free_block ?sb (content s) (b + bi)" for bi
    using that fb[of bi] a(2) by (intro balloc_bit_used) simp
  note F = forl_find[of "[0..<?n]" "\<lambda>bi. free_block ?sb (content s) (b + bi)" "balloc_bit ROOTDEV i b" a, OF skip]
  have fm: "find (free_block ?sb (content s)) (map ((+) b) xs) = map_option ((+) b) (find (\<lambda>bi. free_block ?sb (content s) (b + bi)) xs)" for xs
    by (induction xs) auto
  show ?thesis
  proof (cases "find (\<lambda>bi. free_block ?sb (content s) (b + bi)) [0..<?n]")
    case None
    have "balloc_block ROOTDEV b s = Ok None u" using a(1,3) F(1)[OF _ _ None] by (simp add: balloc_block_def kmon)
    then show ?thesis using u r fm None by simp
  next
    case (Some bi)
    have bi: "bi < ?n" "free_block ?sb (content s) (b + bi)" using Some by (auto simp: find_Some_iff)
    have "b + bi < sb_size ?sb" using bi(1) by linarith
    then have "2 * (b + bi) < 2 ^ 32 \<and> log_room st (b + bi) \<and> (\<forall>b' < sb_size ?sb. BBLOCK b' ?sb \<noteq> b + bi)"
      using assms(3) bi(2) unfolding bitmap_room_def by blast
    then have x: "2 * (b + bi) < 2 ^ 32" "log_room st (b + bi)" "b + bi \<noteq> ?bm" using assms(6) by (blast, blast, metis)
    have nu: "\<not> used (content a ?bm) bi" "b_data (bufs a i) = content a ?bm" using fb[of bi] bi a(2,8) by simp_all
    obtain t where t: "balloc_bit ROOTDEV i b bi a = Ok (Some (b + bi)) t" "in_op t st (logging (b + bi) (logging ?bm B))" "op_frame a t" "held t = {}"
        "content t = (content a)(?bm := set_used (content a ?bm) bi, b + bi := memset (content a (b + bi)) 0 0 BSIZE)"
      by (rule balloc_bit_free[OF a(4,5,6) nu(2,1) bm(2) assms(4) x]) (rule that)
    have "balloc_block ROOTDEV b s = Ok (Some (b + bi)) t" using a(1) F(2)[OF _ _ Some t(1)] by (simp add: balloc_block_def kmon)
    moreover have e: "BBLOCK (b + bi) ?sb = ?bm" "(b + bi) mod BPB = bi" using bi(1) assms(5) by (simp_all add: BBLOCK_base)
    have "balloc_post s st B (b + bi) t"
      unfolding balloc_post_def e by (intro conjI t(2,4) op_frame_trans[OF a(7) t(3)]) (simp add: t(5) a(8))
    ultimately show ?thesis using r fm Some by simp
  qed
qed

lemma chunks: "concat (map (\<lambda>k. map ((+) (k * c)) [0..<min c (n - k * c)]) [0..<m]) = [0..<min (m * c) (n :: nat)]"
proof (induction m)
  case (Suc m)
  have e: "map ((+) (m * c)) [0..<j] = [m * c..<m * c + j]" for j
    by (rule nth_equalityI) simp_all
  show ?case
  proof (cases "m * c \<le> n")
    case True
    then have "min (Suc m * c) n = m * c + min c (n - m * c)" "min (m * c) n = m * c" by (auto simp: min_def)
    then show ?thesis using Suc.IH e upt_add_eq_append[of 0 "m * c" "min c (n - m * c)"] by simp
  next
    case False
    then show ?thesis using Suc.IH by (simp add: min_def)
  qed
qed simp

lemma find_append: "find P (xs @ ys) = (case find P xs of None \<Rightarrow> find P ys | Some x \<Rightarrow> Some x)"
  by (induction xs) auto

lemma balloc_scan:
  assumes "in_op s st B" "held s = {}" "bitmap_room (sblk s) st (content s)" "length B < LOGSIZE - 2" "\<forall>k\<in>set ks. k * BPB < sb_size (sblk s)"
    and r: "r = find (free_block (sblk s) (content s)) (concat (map (\<lambda>k. map ((+) (k * BPB)) [0..<min BPB (sb_size (sblk s) - k * BPB)]) ks))"
  shows "\<exists>t. forl (map (\<lambda>k. k * BPB) ks) (balloc_block ROOTDEV) s = Ok r t \<and> (r = None \<or> (\<exists>x. r = Some x \<and> balloc_post s st B x t))"
  using assms
proof (induction ks arbitrary: s)
  case (Cons k ks)
  define r0 where "r0 = find (free_block (sblk s) (content s)) (map ((+) (k * BPB)) [0..<min BPB (sb_size (sblk s) - k * BPB)])"
  have kb: "k * BPB < sb_size (sblk s)" using Cons.prems(5) by simp
  obtain t where t: "balloc_block ROOTDEV (k * BPB) s = Ok r0 t" "case r0 of
      None \<Rightarrow> in_op t st B \<and> op_frame s t \<and> held t = {} \<and> content t = content s | Some x \<Rightarrow> balloc_post s st B x t"
    using balloc_block_spec[OF Cons.prems(1-4) refl kb r0_def] by blast
  show ?case
  proof (cases r0)
    case None
    have c: "in_op t st B" "op_frame s t" "held t = {}" "content t = content s" using t(2) None by auto
    have sb: "sblk t = sblk s" using op_frame_same(1)[OF c(2)] .
    have "\<exists>u. forl (map (\<lambda>k. k * BPB) ks) (balloc_block ROOTDEV) t = Ok r u \<and> (r = None \<or> (\<exists>x. r = Some x \<and> balloc_post t st B x u))"
      by (rule Cons.IH[OF c(1,3)]) (use Cons.prems c(4) sb None in \<open>simp_all add: find_append r0_def\<close>)
    then obtain u where u: "forl (map (\<lambda>k. k * BPB) ks) (balloc_block ROOTDEV) t = Ok r u" "r = None \<or> (\<exists>x. r = Some x \<and> balloc_post t st B x u)" by blast
    have "balloc_post s st B x u" if "balloc_post t st B x u" for x
      using that op_frame_trans[OF c(2)] by (auto simp: balloc_post_def sb c(4))
    then show ?thesis using u t(1) None by (auto simp: kmon)
  next
    case (Some x)
    then have "r = Some x" using Cons.prems(6) by (simp add: find_append r0_def)
    then show ?thesis using t Some by (auto simp: kmon)
  qed
qed (simp add: kmon)

lemma ceil_div: "n \<le> (n + BPB - 1) div BPB * BPB" "k < (n + BPB - 1) div BPB \<Longrightarrow> k * BPB < n"
proof -
  let ?m = "(n + BPB - 1) div BPB"
  have d: "?m * BPB + (n + BPB - 1) mod BPB = n + BPB - 1" "(n + BPB - 1) mod BPB < BPB" using BPB_pos by simp_all
  then show "n \<le> ?m * BPB" by linarith
  assume "k < ?m"
  then have "(k + 1) * BPB \<le> ?m * BPB" by (intro mult_le_mono) simp_all
  then have "k * BPB + BPB \<le> ?m * BPB" by simp
  then show "k * BPB < n" using d BPB_pos by linarith
qed

lemma balloc_spec:
  assumes "in_op s st B" "held s = {}" "bitmap_room (sblk s) st (content s)" "length B < LOGSIZE - 2"
  shows "case find (free_block (sblk s) (content s)) [0..<sb_size (sblk s)] of
      None \<Rightarrow> balloc ROOTDEV s = Panic ''balloc: out of blocks''
    | Some b \<Rightarrow> \<exists>t. balloc ROOTDEV s = Ok b t \<and> balloc_post s st B b t"
proof -
  let ?n = "sb_size (sblk s)"
  let ?m = "(?n + BPB - 1) div BPB"
  have up: "?n \<le> ?m * BPB" and ks: "\<forall>k\<in>set [0..<?m]. k * BPB < ?n" using ceil_div by (blast, auto)
  have c: "concat (map (\<lambda>k. map ((+) (k * BPB)) [0..<min BPB (?n - k * BPB)]) [0..<?m]) = [0..<?n]" using chunks[of BPB ?n ?m] up by (simp add: min_def)
  obtain t r where t: "forl (map (\<lambda>k. k * BPB) [0..<?m]) (balloc_block ROOTDEV) s = Ok r t" "r = None \<or> (\<exists>x. r = Some x \<and> balloc_post s st B x t)"
    "r = find (free_block (sblk s) (content s)) [0..<?n]"
    using balloc_scan[OF assms ks refl] unfolding c by blast
  show ?thesis unfolding t(3)[symmetric] using t(1,2) by (cases r) (simp_all add: balloc_def kmon)
qed

lemma bfree_spec:
  assumes "in_op s st B" "held s = {}" "bm = BBLOCK b (sblk s)" "2 * bm < 2 ^ 32" "log_room st bm" "length B < LOGSIZE - 1"
  shows "if used (content s bm) (b mod BPB)
    then \<exists>t. bfree ROOTDEV b s = Ok () t \<and> in_op t st (logging bm B) \<and> op_frame s t \<and> held t = {} \<and>
      content t = (content s)(bm := set_free (content s bm) (b mod BPB))
    else bfree ROOTDEV b s = Panic ''freeing free block''"
proof -
  let ?g = "\<lambda>d. set_free d (b mod BPB)"
  obtain i a c d t where r: "bread ROOTDEV bm s = Ok i a" "b_data (bufs a i) = content s bm" "setb i (\<lambda>b. b\<lparr>b_data := ?g (b_data b)\<rparr>) a = Ok () c"
      "log_write i c = Ok () d" "brelse i d = Ok () t"
    and t: "in_op t st (logging bm B)" "op_frame s t" "content t = (content s)(bm := ?g (content s bm))" "held t = {}"
    by (rule op_update[OF assms(1,2,4-6), of ?g]) (rule that)
  have "bfree ROOTDEV b s = (if used (content s bm) (b mod BPB) then Ok () t else Panic ''freeing free block'')"
    using r assms(3) by (simp add: bfree_def Let_def getb_def kmon used_mask set_free_def)
  then show ?thesis using t by simp
qed

lemma bfree_free:
  assumes "in_op s st B" "held s = {}" "bitmap_room (sblk s) st (content s)" "length B < LOGSIZE - 1"
    and b: "b < sb_size (sblk s)" "free_block (sblk s) (content s) b"
  shows "bfree ROOTDEV b s = Panic ''freeing free block''"
proof -
  have "2 * BBLOCK b (sblk s) < 2 ^ 32" "log_room st (BBLOCK b (sblk s))" using assms(3) b unfolding bitmap_room_def by blast+
  then show ?thesis using bfree_spec[OF assms(1,2) refl _ _ assms(4)] b(2) by (simp add: free_block_def)
qed

section \<open>Examples\<close>

text \<open>A transaction has begun on a disk whose bitmap, block 45, has block 100 as its only free block.\<close>

definition demo_fs_img :: "nat \<Rightarrow> bdata" where
  "demo_fs_img = (\<lambda>n i. if n = 45 then if i = 12 then 0xef else 0xff else 0)"

definition demo_fs :: kstate where
  "demo_fs = (demo_io demo_fs_img)\<lparr>klog := demo_log 0 (\<lambda>_. 0) 1, sblk := demo_sb\<rparr>"

text \<open>Two entries for inode 1; one of them is loaded.\<close>

definition demo_inode :: "bool \<Rightarrow> inode" where
  "demo_inode loaded = (if loaded
     then \<lparr>i_dev = ROOTDEV, i_inum = 1, i_ref = 1, i_valid = True, i_type = 2, i_major = 0, i_minor = 0, i_nlink = 1, i_size = 5, i_addrs = (\<lambda>k. if k = 3 then 700 else 0)\<rparr>
     else \<lparr>i_dev = ROOTDEV, i_inum = 1, i_ref = 1, i_valid = False, i_type = 0, i_major = 0, i_minor = 0, i_nlink = 0, i_size = 0, i_addrs = (\<lambda>_. 0)\<rparr>)"

lemma store_sblk [simp]:
  "content (s\<lparr>sblk := x\<rparr>) = content s" "held (s\<lparr>sblk := x\<rparr>) = held s" "rc (s\<lparr>sblk := x\<rparr>) = rc s" "io_inv (s\<lparr>sblk := x\<rparr>) = io_inv s"
  using store_cong[of "s\<lparr>sblk := x\<rparr>" s] by (simp_all add: io_inv_def disk_ok_def)

lemma demo_fs_op: "in_op demo_fs 2 []" "held demo_fs = {}" "content demo_fs = demo_fs_img" "sblk demo_fs = demo_sb"
  using demo_io_facts[of demo_fs_img] by (auto simp: demo_fs_def in_op_def demo_log_def param_defs fun_eq_iff)

lemma demo_free: "b < 1000 \<Longrightarrow> free_block demo_sb demo_fs_img b \<longleftrightarrow> b = 100"
proof -
  assume "b < 1000"
  then have e: "BBLOCK b demo_sb = 45" "b mod BPB = b" by (simp_all add: BBLOCK_def demo_sb_def BPB_def BSIZE_def)
  have "k < 8 \<Longrightarrow> bit (0xff :: byte) k \<and> (bit (0xef :: byte) k \<longleftrightarrow> k \<noteq> 4)" for k :: nat
    by (simp add: less_Suc_eq numeral_eq_Suc) auto
  from this[of "b mod 8"] have "free_block demo_sb demo_fs_img b \<longleftrightarrow> b div 8 = 12 \<and> b mod 8 = 4"
    by (auto simp: free_block_def e used_def demo_fs_img_def)
  also have "\<dots> \<longleftrightarrow> b = 100" by presburger
  finally show ?thesis .
qed

section \<open>Theorems\<close>

text \<open>
  C4: blocks are allocated and freed. Inside a transaction \<open>balloc\<close> panics if the bitmap has no free block; otherwise it gives the first free block, sets its bit,
  clears its bytes, changes no other byte of the file system, and records both blocks in the transaction. Freeing that block puts the bitmap back as it was;
  freeing a block that is free is a panic.
\<close>

theorem balloc_bfree:
  assumes "in_op s st B" "held s = {}" "bitmap_room (sblk s) st (content s)" "length B < LOGSIZE - 3"
  shows "(\<forall>b< sb_size (sblk s). free_block (sblk s) (content s) b \<longrightarrow> bfree ROOTDEV b s = Panic ''freeing free block'') \<and>
    (case find (free_block (sblk s) (content s)) [0..<sb_size (sblk s)] of
      None \<Rightarrow> balloc ROOTDEV s = Panic ''balloc: out of blocks''
    | Some b \<Rightarrow> let bm = BBLOCK b (sblk s) in
        (\<exists>t u. balloc ROOTDEV s = Ok b t \<and> in_op t st (logging b (logging bm B)) \<and> held t = {} \<and>
          content t = (content s)(bm := set_used (content s bm) (b mod BPB), b := memset (content s b) 0 0 BSIZE) \<and>
          bfree ROOTDEV b t = Ok () u \<and> content u = (content s)(b := memset (content s b) 0 0 BSIZE)))"
proof (rule conjI)
  have l1: "length B < LOGSIZE - 1" using assms(4) by linarith
  show "\<forall>b< sb_size (sblk s). free_block (sblk s) (content s) b \<longrightarrow> bfree ROOTDEV b s = Panic ''freeing free block''"
    using bfree_free[OF assms(1-3) l1] by blast
  have l2: "length B < LOGSIZE - 2" using assms(4) by linarith
  show "case find (free_block (sblk s) (content s)) [0..<sb_size (sblk s)] of
      None \<Rightarrow> balloc ROOTDEV s = Panic ''balloc: out of blocks''
    | Some b \<Rightarrow> let bm = BBLOCK b (sblk s) in
        (\<exists>t u. balloc ROOTDEV s = Ok b t \<and> in_op t st (logging b (logging bm B)) \<and> held t = {} \<and>
          content t = (content s)(bm := set_used (content s bm) (b mod BPB), b := memset (content s b) 0 0 BSIZE) \<and>
          bfree ROOTDEV b t = Ok () u \<and> content u = (content s)(b := memset (content s b) 0 0 BSIZE))"
  proof (cases "find (free_block (sblk s) (content s)) [0..<sb_size (sblk s)]")
    case None
    then show ?thesis using balloc_spec[OF assms(1-3) l2] by simp
  next
    case (Some b)
    let ?sb = "sblk s"
    let ?bm = "BBLOCK b ?sb"
    have b: "b < sb_size ?sb" "free_block ?sb (content s) b" using Some by (auto simp: find_Some_iff)
    have m: "2 * ?bm < 2 ^ 32" "log_room st ?bm" "?bm \<noteq> b" using assms(3) b unfolding bitmap_room_def by blast+
    obtain t where t: "balloc ROOTDEV s = Ok b t" "balloc_post s st B b t" using balloc_spec[OF assms(1-3) l2] Some by auto
    note P = t(2)[unfolded balloc_post_def]
    have T: "in_op t st (logging b (logging ?bm B))" "held t = {}" "sblk t = ?sb"
      "content t = (content s)(?bm := set_used (content s ?bm) (b mod BPB), b := memset (content s b) 0 0 BSIZE)"
      using P op_frame_same(1)[of s t] by blast+
    have l: "length (logging b (logging ?bm B)) < LOGSIZE - 1" using assms(4) by auto
    have nu: "\<not> used (content s ?bm) (b mod BPB)" using b(2) by (simp add: free_block_def)
    have ct: "content t ?bm = set_used (content s ?bm) (b mod BPB)" using T(4) m(3) by simp
    obtain u where u: "bfree ROOTDEV b t = Ok () u" "content u = (content t)(?bm := set_free (content t ?bm) (b mod BPB))"
      using bfree_spec[OF T(1,2), of ?bm b] T(3) m l by (auto simp: ct used_set_used)
    have "content u = (content s)(b := memset (content s b) 0 0 BSIZE)"
      using u(2) T(4) m(3) by (simp add: ct set_free_used[OF nu] fun_eq_iff)
    then show ?thesis using Some t(1) T u(1) by (auto simp: Let_def)
  qed
qed

theorem balloc_bfree_witness:
  "\<exists>t u. balloc ROOTDEV demo_fs = Ok 100 t \<and> bfree ROOTDEV 100 t = Ok () u \<and> content u = demo_fs_img(100 := memset (demo_fs_img 100) 0 0 BSIZE)"
proof -
  have r: "bitmap_room (sblk demo_fs) 2 (content demo_fs)"
    using demo_free by (auto simp: bitmap_room_def demo_fs_op demo_sb_def BBLOCK_def BPB_def BSIZE_def log_room_def param_defs)
  have f: "find (free_block demo_sb demo_fs_img) [0..<sb_size demo_sb] = Some 100"
    by (rule find_unique) (use demo_free in \<open>auto simp: demo_sb_def\<close>)
  show ?thesis using balloc_bfree[OF demo_fs_op(1,2) r] f by (auto simp: demo_fs_op Let_def param_defs)
qed

text \<open>
  C5: an inode survives the way through its on-disk copy. After \<open>iupdate\<close> of an inode, \<open>ilock\<close> of a table entry for the same inode that is not loaded gives the entry the same
  type, device numbers, link count, size and block addresses. \<open>iupdate\<close> leaves every other inode and every other block as it was.
\<close>

theorem iupdate_ilock_roundtrip:
  assumes "in_op s st B" "held s = {}" "i = inodes s ip" "i_dev i = ROOTDEV" "i_type i \<noteq> 0" "\<And>k. k < NDIRECT + 1 \<Longrightarrow> i_addrs i k < 2 ^ 32"
    and "bn = IBLOCK (i_inum i) (sblk s)" "2 * bn < 2 ^ 32" "log_room st bn" "length B < LOGSIZE - 1"
    and "j = inodes s jp" "i_dev j = ROOTDEV" "i_inum j = i_inum i" "1 \<le> i_ref j" "\<not> i_valid j" "\<not> sl_locked (slocks s (InodeSL jp))"
  shows "\<exists>t u. iupdate ip s = Ok () t \<and> ilock (Some jp) t = Ok () u \<and> in_op u st (logging bn B) \<and>
    inodes u = (inodes s)(jp := (same_dinode i j)\<lparr>i_valid := True\<rparr>) \<and>
    (\<forall>b. b \<noteq> bn \<longrightarrow> content u b = content s b) \<and>
    (\<forall>n v. n mod IPB \<noteq> i_inum i mod IPB \<longrightarrow> dinode_get (content u bn) (dinode_off n) v = dinode_get (content s bn) (dinode_off n) v)"
proof -
  note I = assms(3)[symmetric] and J = assms(11)[symmetric]
  obtain t where t: "iupdate ip s = Ok () t" "in_op t st (logging bn B)" "op_frame s t" "held t = {}"
    "content t = (content s)(bn := dinode_put (content s bn) (dinode_off (i_inum i)) i)"
    by (rule iupdate_spec[OF assms(1,2), of ip bn, unfolded I]) (use assms(4,7-10) in simp_all)
  have T: "inodes t = inodes s" "sblk t = sblk s" "slocks t (InodeSL jp) = slocks s (InodeSL jp)"
    using op_frame_same(1,2)[OF t(3)] op_frame_slock[OF t(3)] by simp_all
  have g: "dinode_get (content t bn) (dinode_off (i_inum j)) j = same_dinode i j"
    using assms(13) dinode_get_put[OF assms(6)] by (simp add: t(5))
  have ty: "i_type (same_dinode i j) \<noteq> 0" using assms(5) by (simp add: same_dinode_def)
  have l: "length (logging bn B) < LOGSIZE" using assms(10) by (simp, linarith)
  have bn: "bn = IBLOCK (i_inum j) (sblk s)" using assms(7,13) by simp
  obtain u where u: "ilock (Some jp) t = Ok () u" "in_op u st (logging bn B)" "content u = content t" "inodes u = (inodes s)(jp := (same_dinode i j)\<lparr>i_valid := True\<rparr>)"
    using ilock_spec[OF t(2,4), of jp bn "same_dinode i j", unfolded T J, OF assms(14,16,15,12) bn assms(8) l g[symmetric]] ty by auto
  have "dinode_get (content u bn) (dinode_off n) v = dinode_get (content s bn) (dinode_off n) v" if "n mod IPB \<noteq> i_inum i mod IPB" for n v
    using dinode_put_other[of "i_inum i" n] that by (simp add: u(3) t(5))
  then show ?thesis using t(1,5) u by auto
qed

theorem iupdate_ilock_roundtrip_witness:
  "\<exists>t u. iupdate 0 (demo_fs\<lparr>inodes := (\<lambda>k. demo_inode (k = 0))\<rparr>) = Ok () t \<and> ilock (Some 1) t = Ok () u \<and> i_size (inodes u 1) = 5 \<and> i_addrs (inodes u 1) 3 = 700"
proof -
  let ?s = "demo_fs\<lparr>inodes := (\<lambda>k. demo_inode (k = 0))\<rparr>"
  have o: "in_op ?s 2 []" "held ?s = {}" "sblk ?s = demo_sb" "\<not> sl_locked (slocks ?s (InodeSL 1))"
    using demo_fs_op by (simp_all) (simp add: demo_fs_def demo_io_def demo_disk_def demo_run_def, simp add: boot_state_def)
  have "\<exists>t u. iupdate 0 ?s = Ok () t \<and> ilock (Some 1) t = Ok () u \<and> in_op u 2 (logging 32 []) \<and>
    inodes u = (inodes ?s)(1 := (same_dinode (demo_inode True) (demo_inode False))\<lparr>i_valid := True\<rparr>) \<and>
    (\<forall>b. b \<noteq> 32 \<longrightarrow> content u b = content ?s b) \<and>
    (\<forall>n v. n mod IPB \<noteq> i_inum (demo_inode True) mod IPB \<longrightarrow> dinode_get (content u 32) (dinode_off n) v = dinode_get (content ?s 32) (dinode_off n) v)"
    by (rule iupdate_ilock_roundtrip[OF o(1,2)])
      (use o(3,4) in \<open>simp_all add: demo_inode_def IBLOCK_def demo_sb_def IPB_def BSIZE_def log_room_def param_defs\<close>)
  then show ?thesis by (auto simp: same_dinode_def demo_inode_def NDIRECT_def)
qed

text \<open>
  C28: The reservation of \<open>begin_op\<close> is one block larger than the log of a file system made by \<open>mkfs\<close>, whose \<open>nlog\<close> is \<open>LOGSIZE\<close> blocks, the header
  included. After a boot with an empty log, three operations can start, with ten blocks reserved for each. They can clear 29 different blocks, ten by each of the first two and nine
  by the third; when the third clears its tenth block, \<open>log_write\<close> panics, although no operation has used more than its ten.
\<close>

theorem reservation_one_short:
  assumes "rebooted r img" "log_outstanding (klog r) = 0" "\<not> log_committing (klog r)" "head_n (img st) = 0"
    and "sb_logstart sb = st" "sb_nlog sb = LOGSIZE" "2 * (st + LOGSIZE) < 2 ^ 32"
    and "distinct bs" "length bs = 3 * MAXOPBLOCKS - 1" "\<forall>b\<in>set bs. log_room st b" "log_room st b"
  shows "\<exists>s t. thn (initlog ROOTDEV sb) (thn begin_op (thn begin_op begin_op)) r = Ok () s \<and> log_outstanding (klog s) = 3 \<and>
    foreach bs (bzero ROOTDEV) s = Ok () t \<and> lh_n (log_lh (klog t)) = int (length bs) \<and>
    bzero ROOTDEV b t = Panic ''too big a transaction''"
proof -
  note R = assms(1)[unfolded rebooted_def]
  have r: "io_inv r" "held r = {}" "rc r = (\<lambda>_. 0)" "img st = disk_img r st" using R by blast+
  have h: "0 \<le> head_n (img st)" "log_ok st (head_list (img st))" using assms(4,7) by (simp_all add: head_list_def log_ok_Nil)
  obtain u where u: "initlog ROOTDEV sb r = Ok () u" "logged u st []" "rc u = (\<lambda>_. 0)" "log_size (klog u) = int (sb_nlog sb)"
    "log_outstanding (klog u) = log_outstanding (klog r)" "log_committing (klog u) = log_committing (klog r)"
    by (rule initlog_spec[OF r(1-3) assms(5) r(4) h]) (rule that)
  obtain s where s: "thn begin_op (thn begin_op begin_op) u = Ok () s" "in_op s st []" "held s = {}" "log_outstanding (klog s) = 3"
    using begin_three[OF u(2,3)] u(4-6) assms(2,3,6,7) by auto
  have n: "length bs = LOGSIZE - 1" using assms(9) by (simp add: param_defs)
  obtain t where t: "foreach bs (bzero ROOTDEV) s = Ok () t" "in_op t st bs" "held t = {}"
    using bzero_many[OF s(2,3), of bs] assms(8,10) n by auto
  have "2 * b < 2 ^ 32" using assms(11) by (simp add: log_room_def)
  then have "bzero ROOTDEV b t = Panic ''too big a transaction''" by (rule bzero_full[OF t(2,3) _ n])
  moreover have "lh_n (log_lh (klog t)) = int (length bs)" using t(2) unfolding in_op_def by blast
  moreover have "thn (initlog ROOTDEV sb) (thn begin_op (thn begin_op begin_op)) r = Ok () s" using u(1) s(1) by (simp add: thn_apply)
  ultimately show ?thesis using s(4) t(1) by blast
qed

theorem reservation_one_short_witness:
  "\<exists>s t. thn (initlog ROOTDEV demo_sb) (thn begin_op (thn begin_op begin_op)) (demo_io (\<lambda>_ _. 0)) = Ok () s \<and>
    foreach [100..<129] (bzero ROOTDEV) s = Ok () t \<and> bzero ROOTDEV 129 t = Panic ''too big a transaction''"
proof -
  let ?r = "demo_io (\<lambda>_ _. 0)"
  have k: "log_outstanding (klog ?r) = 0" "\<not> log_committing (klog ?r)"
    by (simp_all add: demo_io_def demo_disk_def demo_run_def) (simp_all add: boot_state_def)
  have "\<exists>s t. thn (initlog ROOTDEV demo_sb) (thn begin_op (thn begin_op begin_op)) ?r = Ok () s \<and> log_outstanding (klog s) = 3 \<and>
    foreach [100..<129] (bzero ROOTDEV) s = Ok () t \<and> lh_n (log_lh (klog t)) = int (length [100..<129]) \<and>
    bzero ROOTDEV 129 t = Panic ''too big a transaction''"
    by (rule reservation_one_short[OF rebooted_demo k, where st = 2])
      (auto simp: demo_sb_def param_defs log_room_def head_n_def le32_def)
  then show ?thesis by blast
qed

end
