(* ===== verification/Spec2Isabelle.thy ===== *)
theory Spec2Isabelle
  imports Mutex Pagetable Consbuf Trap Start Utools Shparse Umalloc Mkfs Fsops
begin

text \<open>
  A verification library of the teaching operating system under \<^verbatim>\<open>src\<close>: the RISC-V kernel in \<^verbatim>\<open>src/kernel\<close>, the user programs in \<^verbatim>\<open>src/user\<close>
  and the image maker \<^verbatim>\<open>src/mkfs/mkfs.c\<close>.

  \<^bold>\<open>The kernel's state and its functions.\<close> The memory of the kernel is one record, \<open>kstate\<close> of theory Kstate: the harts' registers, the locks, the process table,
  the buffers, the log, the inode and file tables, the devices, and the physical memory as bytes. A C function is a definition in the monad \<open>kernel\<close> of theory Prelude. It ends with
  \<open>Ok a s\<close> (it returned), \<open>Panic\<close> (the kernel's \<^verbatim>\<open>panic\<close>), \<open>Swtch s\<close> (the process gave up the processor inside \<^verbatim>\<open>sched\<close>) or \<open>Hang\<close> (it waits for a
  lock or a device for ever). The definitions show what one process does from one context switch to the next; what it does after it is resumed is a definition with the
  suffix \<open>_resume\<close>. The one exception is the wait for the disk in \<^verbatim>\<open>virtio_disk_rw\<close>: \<open>disk_wait_one\<close> of theory Virtio runs one schedule inside the call, in which the process sleeps, the
  device serves its requests, the interrupt handler wakes the process and the scheduler picks it again, so that a block operation is a function from the state before it to the state after it. Machine integers are words of their width, \<^verbatim>\<open>int\<close> values that cannot overflow are integers, and structures in raw memory (page tables, the
  free list, trap frames, on-disk inodes) are read and written through their bytes. A pointer to an object of a fixed table is an index, and the address of a lock or a sleep channel is a
  constructor.

  \<^bold>\<open>Components.\<close>
  \<^item> Prelude, Kstate, Memlayout: words, bytes and the monad; the structures and constants of the headers; addresses and page table macros (\<^verbatim>\<open>riscv.h\<close>,
    \<^verbatim>\<open>memlayout.h\<close>, \<^verbatim>\<open>param.h\<close>, \<^verbatim>\<open>fs.h\<close>, \<^verbatim>\<open>proc.h\<close>, \<^verbatim>\<open>file.h\<close>, \<^verbatim>\<open>buf.h\<close>).
  \<^item> Spinlock and Mutex: \<^verbatim>\<open>spinlock.c\<close>. Spinlock has the functions and the lock algebra all other proofs use (\<open>acq\<close>, \<open>sync\<close>, \<open>freelk\<close>); Mutex has the
    interleaving of the harts' lock steps as a step relation, mutual exclusion, and that the functions end, in every case, as these steps do.
  \<^item> Cstring: \<^verbatim>\<open>string.c\<close>, with the contracts of the copies and comparisons.
  \<^item> Kalloc: \<^verbatim>\<open>kalloc.c\<close>; the free list in memory refines a stack of pages.
  \<^item> Sched, Sleeplock: the scheduling half of \<^verbatim>\<open>proc.c\<close> and \<^verbatim>\<open>sleeplock.c\<close>; what \<^verbatim>\<open>sleep\<close>, \<^verbatim>\<open>wakeup\<close> and \<^verbatim>\<open>kill\<close> do to every process.
  \<^item> Virtio, Bio, Log: \<^verbatim>\<open>virtio_disk.c\<close>, \<^verbatim>\<open>bio.c\<close>, \<^verbatim>\<open>log.c\<close>. The device is a parameter of the state with its contract \<open>virtio_contract\<close> as a hypothesis.
    The buffer cache with its linked list refines a map from block numbers to contents (\<open>content\<close>), and the log is a transaction on that map (\<open>in_op\<close>): a crash at any disk write of a commit is
    followed by a recovery to all or nothing.
  \<^item> Vm, Pagetable: \<^verbatim>\<open>vm.c\<close>. Pagetable shows that the three-level tree in memory refines a map from page numbers to entries, and that copies between kernel and user go to
    exactly the bytes the map names.
  \<^item> Ring, Pipe, Console, Consbuf: the locale of ring buffers indexed by wrapping counters, with its interpretations for the pipe (\<^verbatim>\<open>pipe.c\<close>), the UART's transmit
    buffer and the console's line buffer (\<^verbatim>\<open>uart.c\<close>, \<^verbatim>\<open>console.c\<close>, \<^verbatim>\<open>printf.c\<close>).
  \<^item> Procmem, Process, Exec: the memory half of \<^verbatim>\<open>proc.c\<close>, fork, exit and wait, and \<^verbatim>\<open>exec.c\<close>.
  \<^item> Fs, Fsops, Dir, File, Sysfile: \<^verbatim>\<open>fs.c\<close>, \<^verbatim>\<open>file.c\<close>, \<^verbatim>\<open>sysfile.c\<close>, \<^verbatim>\<open>syscall.c\<close> and \<^verbatim>\<open>sysproc.c\<close>.
    Fsops shows, inside a transaction, what allocating and freeing blocks does to the bitmap, that an inode survives the way to its block and back, and how three admitted
    operations overrun the log.
  \<^item> Trap, Start: \<^verbatim>\<open>trap.c\<close>, \<^verbatim>\<open>plic.c\<close>, \<^verbatim>\<open>start.c\<close>, \<^verbatim>\<open>main.c\<close>.
  \<^item> Userland, Ulib, Umalloc, Grep, Utools, Shell, Shparse: user programs, in a monad over a world that answers the system calls. Ulib is \<^verbatim>\<open>ulib.c\<close> and \<^verbatim>\<open>printf.c\<close>, Umalloc is \<^verbatim>\<open>umalloc.c\<close>;
    Grep, Utools and Shell are the programs; Shparse has the proofs about the shell's parser.
  \<^item> Mkfs: the image maker, with the kernel's own reading of the on-disk structures.

  \<^bold>\<open>What is shown.\<close> Safety and atomicity (mutual exclusion, no panic under the lock discipline, crash atomicity of commits, the words of a shell command), refinement of data
  structures to their abstract values (free list, page table, buffer cache, pipe, UART and console buffers), the functional behaviour of operations on every branch including errors and
  panics, liveness of disk requests on a device that meets its contract, round trips (copies between kernel and user, string copies and comparisons, decimal numbers, on-disk inodes), and, for the
  user programs, the language that \<^verbatim>\<open>grep\<close> decides, the output of the filters, and that the shell's parser and its commands come to an end.
  A property about a state in which a kernel function runs assumes that the interrupt and lock bookkeeping of the hart is consistent (\<open>cpu_ok\<close>, \<open>quiet\<close>) and
  that the locks the function takes are free; each such property has a witness, an example state in which the assumptions hold.

  \<^bold>\<open>Bounds and fuel.\<close> Loops over tables are folds over the table's indices. Loops over linked data (\<open>loopf\<close>) run with a bound from the code's own limits: the descriptor chain
  has at most \<open>NUM\<close> links, a copy of \<open>n\<close> bytes at most \<open>n + 1\<close> rounds, a path walk one round for each byte of the path and one more. Running out of fuel is the outcome \<open>Hang\<close>, so a
  theorem that an operation returns \<open>Ok\<close> includes that its bound is enough. Unbounded loops of user programs are partial functions whose result \<open>None\<close> says that they do not
  end. The shell's parser has \<open>parse_fuel\<close>, four levels of recursion for every byte of the line and four more, which is shown to be enough.

  \<^bold>\<open>Not modelled.\<close> The assembly files \<^verbatim>\<open>entry.S\<close>, \<^verbatim>\<open>swtch.S\<close>, \<^verbatim>\<open>trampoline.S\<close>, \<^verbatim>\<open>kernelvec.S\<close> and \<^verbatim>\<open>initcode.S\<close>, which save and restore registers;
  memory ordering and the TLB (the fences have no counterpart); \<^verbatim>\<open>ramdisk.c\<close>, which the build does not use; \<^verbatim>\<open>usys.pl\<close>, which generates system call stubs;
  \<^verbatim>\<open>defs.h\<close> and \<^verbatim>\<open>date.h\<close>, which only declare; and the test programs \<^verbatim>\<open>usertests.c\<close>, \<^verbatim>\<open>grind.c\<close>, \<^verbatim>\<open>forktest.c\<close> and \<^verbatim>\<open>stressfs.c\<close>, which
  exercise the system and have no contract of their own. The busy wait of the UART's transmitter is the outcome \<open>Hang\<close> once the transmitter has taken the bytes it has room for; the
  shell's memory for commands is taken to be available; an overflow of \<^verbatim>\<open>atoi\<close>, which C leaves undefined, is taken to wrap; and counters of blocks and string lengths, which are \<^verbatim>\<open>int\<close> or
  \<^verbatim>\<open>uint\<close> in the code, are natural numbers, so the model is about disks and strings for which they do not overflow.
\<close>

end
